(* ===== verification/Schedi_Prelude.thy ===== *)
theory Schedi_Prelude
  imports Main "HOL-Library.Word"
begin

text \<open>
  Shared vocabulary of the development: the machine-integer types of the C
  sources, the compare-and-swap loop that every lock-free operation of
  \<^verbatim>\<open>src/src/jobs.c\<close> is written with, and the generic facts on words, lists and
  ring indices that the component theories use.
\<close>

unbundle bit_operations_syntax

section \<open>Machine integers\<close>

type_synonym u8 = "8 word"
type_synonym u16 = "16 word"
type_synonym u32 = "32 word"
type_synonym u64 = "64 word"

text \<open>
  Collections of the facts that the proofs of the components share:
  \<open>flag_defs\<close> unfolds the bit-mask constants of the headers, \<open>field_defs\<close> the
  packed-field macros.
\<close>

named_theorems flag_defs \<open>bit-mask constants of the headers\<close>
named_theorems field_defs \<open>getters and setters of packed fields\<close>

section \<open>Compare-and-swap loops\<close>

text \<open>
  Every atomic update of the sources has the same shape: load the word, and
  then, in a loop, either return early because of what was read or compute the
  desired word and try to swap it in; when the swap fails, the expected value
  becomes what the memory holds and the body runs again. One pass over the body
  is a function from the value read to a \<open>cas_step\<close>.
\<close>

datatype ('r, 'w) cas_step =
    CasReturn 'r      \<comment> \<open>leave the loop without writing\<close>
  | CasTry 'w 'r      \<comment> \<open>swap in the desired word; on success return the result\<close>

text \<open>
  \<open>cas_loop step v ms\<close> is the loop started with loaded value \<open>v\<close>; \<open>ms\<close> are the
  values that the memory holds at the successive compare-and-swap instructions
  (other threads may change it in between). The result is the returned value,
  the word the operation took effect on, and the word it wrote, if any; \<open>None\<close>
  means the observations are used up while the loop still runs.
\<close>

fun cas_loop :: "('w \<Rightarrow> ('r, 'w) cas_step) \<Rightarrow> 'w \<Rightarrow> 'w list \<Rightarrow> ('r \<times> 'w \<times> 'w option) option"
where
  "cas_loop step v [] =
     (case step v of CasReturn r \<Rightarrow> Some (r, v, None) | CasTry w r \<Rightarrow> None)"
| "cas_loop step v (m # ms) =
     (case step v of
        CasReturn r \<Rightarrow> Some (r, v, None)
      | CasTry w r \<Rightarrow> if m = v then Some (r, v, Some w) else cas_loop step m ms)"

text \<open>The loop with no interference: the memory still holds the loaded value.\<close>

definition cas_seq :: "('w \<Rightarrow> ('r, 'w) cas_step) \<Rightarrow> 'w \<Rightarrow> 'r \<times> 'w" where
  "cas_seq step v = (case step v of CasReturn r \<Rightarrow> (r, v) | CasTry w r \<Rightarrow> (r, w))"

lemma cas_seq_simps [simp]:
  "step v = CasReturn r \<Longrightarrow> cas_seq step v = (r, v)"
  "step v = CasTry w r \<Longrightarrow> cas_seq step v = (r, w)"
  by (simp_all add: cas_seq_def)

text \<open>
  Linearisation: whatever the other threads write in between, a finished loop
  has the effect of one uninterrupted pass over the value that the memory held
  at some moment of the call (the value first loaded or one of the observed
  ones).
\<close>

lemma cas_loop_linearised:
  assumes "cas_loop step v ms = Some (r, m, w)"
  shows "m \<in> insert v (set ms) \<and> cas_seq step m = (r, case w of None \<Rightarrow> m | Some w' \<Rightarrow> w')"
  using assms
proof (induction step v ms rule: cas_loop.induct)
  case (1 step v)
  then show ?case by (auto split: cas_step.splits)
next
  case (2 step v m' ms)
  then show ?case by (auto split: cas_step.splits if_splits)
qed

text \<open>A loop whose swap is not disturbed ends: one observation is enough.\<close>

lemma cas_loop_undisturbed: "\<exists>r w. cas_loop step v [v] = Some (r, v, w)"
  by (auto split: cas_step.split)

section \<open>Interleaved operations on one atomic word\<close>

text \<open>
  Any number of threads run operations of one set on the same word. A
  configuration is the word, the operations in flight with the value each one
  last loaded, and the history of the swaps that succeeded, in their order. A
  thread loads and enters the loop, leaves it early, swaps when the word is still
  the one it loaded, or loads again when its swap fails.
\<close>

type_synonym ('op, 'w) pending = "nat \<Rightarrow> ('op \<times> 'w) option"

inductive cas_conc ::
  "('op \<Rightarrow> 'w \<Rightarrow> ('r, 'w) cas_step) \<Rightarrow> 'w \<times> ('op, 'w) pending \<times> ('op \<times> 'r) list
    \<Rightarrow> 'w \<times> ('op, 'w) pending \<times> ('op \<times> 'r) list \<Rightarrow> bool"
  for body
where
  load: "ts t = None \<Longrightarrow> cas_conc body (m, ts, h) (m, ts(t \<mapsto> (op, m)), h)"
| leave: "ts t = Some (op, v) \<Longrightarrow> body op v = CasReturn r \<Longrightarrow>
    cas_conc body (m, ts, h) (m, ts(t := None), h)"
| swap: "ts t = Some (op, m) \<Longrightarrow> body op m = CasTry w r \<Longrightarrow>
    cas_conc body (m, ts, h) (w, ts(t := None), h @ [(op, r)])"
| retry: "ts t = Some (op, v) \<Longrightarrow> v \<noteq> m \<Longrightarrow> body op v = CasTry w r \<Longrightarrow>
    cas_conc body (m, ts, h) (m, ts(t \<mapsto> (op, m)), h)"

inductive cas_run ::
  "('op \<Rightarrow> 'w \<Rightarrow> ('r, 'w) cas_step) \<Rightarrow> 'w \<Rightarrow> 'w \<times> ('op, 'w) pending \<times> ('op \<times> 'r) list \<Rightarrow> bool"
  for body m0
where
  start: "cas_run body m0 (m0, \<lambda>_. None, [])"
| step: "cas_run body m0 c \<Longrightarrow> cas_conc body c c' \<Longrightarrow> cas_run body m0 c'"

text \<open>One after the other: the word after a sequence of successful swaps, if it is one.\<close>

fun seq_word :: "('op \<Rightarrow> 'w \<Rightarrow> ('r, 'w) cas_step) \<Rightarrow> 'w \<Rightarrow> ('op \<times> 'r) list \<Rightarrow> 'w option" where
  "seq_word body m [] = Some m"
| "seq_word body m ((op, r) # h) =
     (case body op m of
        CasReturn _ \<Rightarrow> None
      | CasTry w r' \<Rightarrow> if r' = r then seq_word body w h else None)"

lemma seq_word_snoc:
  "seq_word body m (h @ [(op, r)]) =
     (case seq_word body m h of None \<Rightarrow> None | Some m' \<Rightarrow> seq_word body m' [(op, r)])"
  by (induction body m h rule: seq_word.induct) (auto split: cas_step.splits)

text \<open>
  Every interleaving is explained by its successful swaps run one after the
  other: no update is lost and none is applied to a stale word.
\<close>

lemma cas_run_linearisable:
  "cas_run body m0 c \<Longrightarrow> seq_word body m0 (snd (snd c)) = Some (fst c)"
proof (induction rule: cas_run.induct)
  case (step c c')
  from step.hyps(2) step.IH show ?case
    by (cases rule: cas_conc.cases) (auto simp: seq_word_snoc)
qed simp

text \<open>
  The contract of a set of operations on one word: every successful swap keeps
  an invariant of the word. Clients get it in every interleaving.
\<close>

locale atomic_word =
  fixes body :: "'op \<Rightarrow> 'w \<Rightarrow> ('r, 'w) cas_step"
    and inv :: "'w \<Rightarrow> bool"
  assumes swap_keeps: "inv v \<Longrightarrow> body op v = CasTry w r \<Longrightarrow> inv w"
begin

lemma run_keeps:
  assumes "cas_run body m0 c" "inv m0"
  shows "inv (fst c)"
  using assms
proof (induction rule: cas_run.induct)
  case (step c c')
  from step.hyps(2) step.IH[OF step.prems] show ?case
    by (cases rule: cas_conc.cases) (auto intro: swap_keeps)
qed simp

lemma seq_keeps: "seq_word body m h = Some m' \<Longrightarrow> inv m \<Longrightarrow> inv m'"
proof (induction h arbitrary: m)
  case (Cons e h)
  then show ?case
    by (cases e) (auto split: cas_step.splits if_splits dest: swap_keeps)
qed simp

end

section \<open>Bits of words\<close>

lemma bit_below:
  assumes "unat a < 2 ^ k" "bit (a :: 'a::len word) n"
  shows "n < k"
proof (rule ccontr)
  assume "\<not> n < k"
  then have "(2::nat) ^ k \<le> 2 ^ n" by (intro power_increasing) simp_all
  with assms(1) have "unat a < 2 ^ n" by (rule less_le_trans)
  then have "int (unat a) < 2 ^ n" by (metis of_nat_less_iff of_nat_numeral of_nat_power)
  then have "\<not> bit (uint a) n" by (simp add: bit_iff_odd)
  with assms(2) show False by (simp add: bit_uint_iff bit_imp_le_length)
qed

lemma bit_one_shifted:
  "k < LENGTH('a) \<Longrightarrow> bit (push_bit k 1 :: 'a::len word) n \<longleftrightarrow> n = k"
  by (auto simp: bit_simps)

lemma bit_mask_word: "bit (mask k :: 'a::len word) n \<longleftrightarrow> n < k \<and> n < LENGTH('a)"
  by (auto simp: bit_simps)

lemma unat_ucast_small:
  "unat (x :: 'a::len word) < 2 ^ LENGTH('b) \<Longrightarrow> unat (ucast x :: 'b::len word) = unat x"
  by (simp add: unsigned_ucast_eq take_bit_nat_eq_self)

lemma unat_ucast_up:
  assumes "LENGTH('a) \<le> LENGTH('b)"
  shows "unat (ucast (x :: 'a::len word) :: 'b::len word) = unat x"
proof (rule unat_ucast_small)
  have "unat x < 2 ^ LENGTH('a)" by simp
  also have "(2::nat) ^ LENGTH('a) \<le> 2 ^ LENGTH('b)" using assms by (intro power_increasing) simp_all
  finally show "unat x < 2 ^ LENGTH('b)" .
qed

section \<open>Ring indices\<close>

lemma ring_index_inj_le:
  assumes "(a + i) mod N = (a + j) mod N" "i \<le> j" "j < N"
  shows "i = (j::nat)"
proof -
  have "N dvd (a + j) - (a + i)"
    using assms(1,2) by (metis add_le_cancel_left mod_eq_dvd_iff_nat)
  then have "N dvd j - i" by simp
  with assms(3) have "j - i = 0" by (meson dvd_imp_le le_less_trans diff_le_self not_gr_zero not_le)
  with assms(2) show ?thesis by simp
qed

lemma ring_index_inj:
  assumes "(a + i) mod N = (a + j) mod N" "i < N" "j < N"
  shows "i = (j::nat)"
  using assms ring_index_inj_le[of a i N j] ring_index_inj_le[of a j N i]
  by (metis nat_le_linear)

lemma ring_index_eq_iff [simp]:
  "i < N \<Longrightarrow> j < N \<Longrightarrow> (a + i) mod N = (a + j) mod N \<longleftrightarrow> i = (j::nat)"
  using ring_index_inj by blast

lemma ring_advance:
  assumes "m \<le> c"
  shows "((t + m) mod N + (c - m)) mod N = (t + c) mod (N::nat)"
proof -
  have "((t + m) mod N + (c - m)) mod N = (t + m + (c - m)) mod N" by (rule mod_add_left_eq)
  with assms show ?thesis by simp
qed

lemma ring_index_neq_start [simp]:
  "0 < k \<Longrightarrow> k < N \<Longrightarrow> (a + k) mod N \<noteq> a mod (N::nat)"
  using ring_index_eq_iff[of k N 0 a] by simp

section \<open>The shortest run\<close>

lemma cas_run_one:
  assumes "body op m = CasTry w r"
  shows "cas_run body m (w, \<lambda>_. None, [(op, r)])"
proof -
  have "cas_run body m (m, (\<lambda>_. None)(0 \<mapsto> (op, m)), [])"
    by (rule cas_run.step[OF cas_run.start]) (rule cas_conc.load, simp)
  moreover have "cas_conc body (m, (\<lambda>_. None)(0 \<mapsto> (op, m)), [])
      (w, ((\<lambda>_. None)(0 \<mapsto> (op, m)))(0 := None), [] @ [(op, r)])"
    by (rule cas_conc.swap) (simp_all add: assms)
  moreover have "((\<lambda>_. None)(0 \<mapsto> (op, m)))(0 := None) = (\<lambda>_. None)" by (simp add: fun_eq_iff)
  ultimately show ?thesis using cas_run.step by fastforce
qed

end
