(* ===== verification/Linked_List.thy ===== *)
theory Linked_List
  imports Schedi_Prelude
begin

text \<open>
  The intrusive doubly linked list of \<^verbatim>\<open>src/include/schedi/list.h\<close> and
  \<^verbatim>\<open>src/src/list.c\<close>. Nodes live in a store indexed by address; \<open>None\<close> is the
  null pointer. The operations are the C assignments in their order; \<open>dll\<close>
  relates a list head and a store to the sequence of node addresses it stands
  for, and the locale \<open>node_sequence\<close> is the contract that the list promises.
\<close>

section \<open>Data\<close>

record list_node =
  prev :: "nat option"
  nxt :: "nat option"

record list_head =
  first :: "nat option"
  lst :: "nat option"

type_synonym node_store = "nat \<Rightarrow> list_node"

section \<open>Operations\<close>

definition schedi_list_init :: "list_head \<Rightarrow> list_head" where
  "schedi_list_init l = l\<lparr>first := None, lst := None\<rparr>"

definition schedi_list_add ::
  "list_head \<times> node_store \<Rightarrow> nat \<Rightarrow> list_head \<times> node_store" where
  "schedi_list_add s node =
     (let (l, h) = s;
          h1 = h(node := (h node)\<lparr>prev := lst l\<rparr>);
          h2 = h1(node := (h1 node)\<lparr>nxt := None\<rparr>);
          (l3, h3) = (case lst l of
              Some p \<Rightarrow> (l, h2(p := (h2 p)\<lparr>nxt := Some node\<rparr>))
            | None \<Rightarrow> (l\<lparr>first := Some node\<rparr>, h2))
      in (l3\<lparr>lst := Some node\<rparr>, h3))"

definition schedi_list_remove ::
  "list_head \<times> node_store \<Rightarrow> nat \<Rightarrow> list_head \<times> node_store" where
  "schedi_list_remove s node =
     (let (l, h) = s;
          (l1, h1) = (case prev (h node) of
              Some p \<Rightarrow> (l, h(p := (h p)\<lparr>nxt := nxt (h node)\<rparr>))
            | None \<Rightarrow> (l\<lparr>first := nxt (h node)\<rparr>, h));
          (l2, h2) = (case nxt (h1 node) of
              Some q \<Rightarrow> (l1, h1(q := (h1 q)\<lparr>prev := prev (h1 node)\<rparr>))
            | None \<Rightarrow> (l1\<lparr>lst := prev (h1 node)\<rparr>, h1))
      in (l2, h2))"

definition schedi_list_is_empty :: "list_head \<Rightarrow> int" where
  "schedi_list_is_empty l = (if first l = None then 1 else 0)"

section \<open>The sequence a list stands for\<close>

definition head_or :: "nat list \<Rightarrow> nat option \<Rightarrow> nat option" where
  "head_or xs q = (case xs of [] \<Rightarrow> q | x # _ \<Rightarrow> Some x)"

definition last_or :: "nat list \<Rightarrow> nat option \<Rightarrow> nat option" where
  "last_or xs p = (if xs = [] then p else Some (last xs))"

lemma head_or_simps [simp]:
  "head_or [] q = q" "head_or (x # xs) q = Some x"
  "head_or (xs @ ys) q = head_or xs (head_or ys q)"
  by (simp_all add: head_or_def split: list.split)

lemma last_or_simps [simp]:
  "last_or [] p = p" "last_or (x # xs) p = last_or xs (Some x)"
  "last_or (xs @ ys) p = last_or ys (last_or xs p)"
  by (simp_all add: last_or_def)

text \<open>
  \<open>dseg h p xs q\<close>: the nodes \<open>xs\<close> are chained in this order, the first one's
  \<^verbatim>\<open>prev\<close> is \<open>p\<close> and the last one's \<^verbatim>\<open>next\<close> is \<open>q\<close>.
\<close>

fun dseg :: "node_store \<Rightarrow> nat option \<Rightarrow> nat list \<Rightarrow> nat option \<Rightarrow> bool" where
  "dseg h p [] q = True"
| "dseg h p (x # xs) q =
     (prev (h x) = p \<and> nxt (h x) = head_or xs q \<and> dseg h (Some x) xs q)"

definition dll :: "list_head \<times> node_store \<Rightarrow> nat list \<Rightarrow> bool" where
  "dll s xs \<longleftrightarrow> distinct xs \<and> dseg (snd s) None xs None
     \<and> first (fst s) = head_or xs None \<and> lst (fst s) = last_or xs None"

lemma dseg_append [simp]:
  "dseg h p (xs @ ys) q \<longleftrightarrow> dseg h p xs (head_or ys q) \<and> dseg h (last_or xs p) ys q"
  by (induction xs arbitrary: p) auto

lemma dseg_cong:
  "(\<And>x. x \<in> set xs \<Longrightarrow> h' x = h x) \<Longrightarrow> dseg h' p xs q = dseg h p xs q"
  by (induction xs arbitrary: p) auto

lemma dseg_frame [simp]: "y \<notin> set xs \<Longrightarrow> dseg (h(y := n)) p xs q = dseg h p xs q"
  by (rule dseg_cong) auto

text \<open>Redirecting the two ends of a chained segment.\<close>

lemma dseg_set_prev:
  assumes "dseg h p (x # xs) q" "distinct (x # xs)"
  shows "dseg (h(x := (h x)\<lparr>prev := p'\<rparr>)) p' (x # xs) q"
  using assms by simp

lemma dseg_set_next:
  assumes "dseg h p (xs @ [x]) q" "distinct (xs @ [x])"
  shows "dseg (h(x := (h x)\<lparr>nxt := q'\<rparr>)) p (xs @ [x]) q'"
  using assms by simp

section \<open>The operations refine list append and removal\<close>

lemma dll_init: "dll (schedi_list_init l, h) []"
  by (simp add: dll_def schedi_list_init_def)

lemma dll_add:
  assumes "dll s xs" "node \<notin> set xs"
  shows "dll (schedi_list_add s node) (xs @ [node])"
proof (cases xs rule: rev_cases)
  case Nil
  with assms show ?thesis
    by (cases s) (simp add: dll_def schedi_list_add_def)
next
  case (snoc ys y)
  obtain l h where s: "s = (l, h)" by (cases s)
  from assms snoc s show ?thesis
    by (auto simp: dll_def schedi_list_add_def dseg_set_next)
qed

lemma dll_remove_mid:
  assumes "dll s (xs @ node # ys)"
  shows "dll (schedi_list_remove s node) (xs @ ys)"
proof -
  obtain l h where s: "s = (l, h)" by (cases s)
  show ?thesis
    using assms s
    by (cases xs rule: rev_cases; cases ys) (auto simp: dll_def schedi_list_remove_def)
qed

lemma dll_remove:
  assumes "dll s xs" "node \<in> set xs"
  shows "dll (schedi_list_remove s node) (remove1 node xs)"
proof -
  from assms(2) obtain ys zs where xs: "xs = ys @ node # zs" "node \<notin> set ys"
    by (meson split_list_first)
  with assms(1) have "dll (schedi_list_remove s node) (ys @ zs)"
    by (simp add: dll_remove_mid)
  with xs show ?thesis by (simp add: remove1_append)
qed

lemma is_empty_iff: "dll s xs \<Longrightarrow> schedi_list_is_empty (fst s) = 1 \<longleftrightarrow> xs = []"
  by (cases xs) (auto simp: dll_def schedi_list_is_empty_def)

lemma schedi_list_add_frame:
  assumes "dll s xs" "m \<notin> set xs" "m \<noteq> node"
  shows "snd (schedi_list_add s node) m = snd s m"
  using assms
  by (cases s; cases xs rule: rev_cases) (auto simp: dll_def schedi_list_add_def)

lemma schedi_list_remove_frame:
  assumes "dll s (xs @ node # ys)" "m \<notin> set (xs @ ys)"
  shows "snd (schedi_list_remove s node) m = snd s m"
  using assms
  by (cases s; cases xs rule: rev_cases; cases ys) (auto simp: dll_def schedi_list_remove_def)

section \<open>The contract\<close>

locale node_sequence =
  fixes repr :: "'s \<Rightarrow> nat list \<Rightarrow> bool"
    and add :: "'s \<Rightarrow> nat \<Rightarrow> 's"
    and rem :: "'s \<Rightarrow> nat \<Rightarrow> 's"
  assumes repr_distinct: "repr s xs \<Longrightarrow> distinct xs"
    and repr_add: "repr s xs \<Longrightarrow> x \<notin> set xs \<Longrightarrow> repr (add s x) (xs @ [x])"
    and repr_rem: "repr s xs \<Longrightarrow> x \<in> set xs \<Longrightarrow> repr (rem s x) (remove1 x xs)"
begin

lemma repr_fold_add:
  "repr s xs \<Longrightarrow> distinct (xs @ ys) \<Longrightarrow> repr (fold (\<lambda>x s. add s x) ys s) (xs @ ys)"
proof (induction ys arbitrary: s xs)
  case (Cons y ys)
  then have "repr (add s y) (xs @ [y])" by (simp add: repr_add)
  from Cons.IH[OF this] Cons.prems(2) show ?case by simp
qed simp

lemma repr_fold_rem:
  "repr s xs \<Longrightarrow> distinct ys \<Longrightarrow> set ys \<subseteq> set xs \<Longrightarrow>
    repr (fold (\<lambda>x s. rem s x) ys s) (filter (\<lambda>x. x \<notin> set ys) xs)"
proof (induction ys arbitrary: s xs)
  case (Cons y ys)
  have d: "distinct xs" using Cons.prems(1) by (rule repr_distinct)
  have "repr (rem s y) (remove1 y xs)" using Cons.prems by (simp add: repr_rem)
  moreover have "set ys \<subseteq> set (remove1 y xs)" using Cons.prems d by auto
  ultimately have "repr (fold (\<lambda>x s. rem s x) ys (rem s y))
      (filter (\<lambda>x. x \<notin> set ys) (remove1 y xs))"
    using Cons.prems(2) by (intro Cons.IH) auto
  then show ?case by (simp add: d distinct_remove1_removeAll removeAll_filter_not_eq eq_commute[of y])
qed simp

text \<open>Adding fresh nodes and then removing them, in any order, restores the sequence.\<close>

lemma repr_add_then_remove:
  assumes "repr s xs" "distinct (xs @ ys)" "distinct zs" "set zs = set ys"
  shows "repr (fold (\<lambda>x s. rem s x) zs (fold (\<lambda>x s. add s x) ys s)) xs"
proof -
  have "repr (fold (\<lambda>x s. add s x) ys s) (xs @ ys)"
    using assms(1,2) by (rule repr_fold_add)
  then have "repr (fold (\<lambda>x s. rem s x) zs (fold (\<lambda>x s. add s x) ys s))
      (filter (\<lambda>x. x \<notin> set zs) (xs @ ys))"
    using assms(3,4) by (intro repr_fold_rem) auto
  moreover have "filter (\<lambda>x. x \<notin> set zs) (xs @ ys) = xs"
    using assms(2,4) by (auto simp: filter_id_conv filter_empty_conv)
  ultimately show ?thesis by simp
qed

end

interpretation schedi_list: node_sequence dll schedi_list_add schedi_list_remove
  by unfold_locales (simp_all add: dll_def[THEN iffD1] dll_add dll_remove)

section \<open>Properties\<close>

text \<open>
  C39: The intrusive list is a sequence: adding nodes appends them at the tail, and
  removing them again in any order restores the list, links and end pointers
  included.
\<close>

theorem list_add_remove_restores:
  assumes "dll s xs" "distinct (xs @ ys)" "distinct zs" "set zs = set ys"
  shows "dll (fold (\<lambda>x s. schedi_list_add s x) ys s) (xs @ ys)
    \<and> dll (fold (\<lambda>x s. schedi_list_remove s x) zs (fold (\<lambda>x s. schedi_list_add s x) ys s)) xs"
  using schedi_list.repr_fold_add[OF assms(1,2)] schedi_list.repr_add_then_remove[OF assms] by simp

theorem list_add_remove_restores_witness:
  "dll (schedi_list_init \<lparr>first = Some 9, lst = None\<rparr>, \<lambda>_. \<lparr>prev = None, nxt = None\<rparr>) []
   \<and> dll (fold (\<lambda>x s. schedi_list_remove s x) [2, 3, 1] (fold (\<lambda>x s. schedi_list_add s x) [1, 2, 3]
       (schedi_list_init \<lparr>first = Some 9, lst = None\<rparr>, \<lambda>_. \<lparr>prev = None, nxt = None\<rparr>))) []"
proof -
  let ?s = "(schedi_list_init \<lparr>first = Some 9, lst = None\<rparr>, \<lambda>_. \<lparr>prev = None, nxt = None\<rparr>)"
  have "distinct ([] @ [1, 2, 3 :: nat])" "distinct [2, 3, 1 :: nat]" "set [2, 3, 1] = set [1, 2, 3 :: nat]"
    by auto
  from list_add_remove_restores[OF dll_init this] show ?thesis using dll_init by blast
qed

end
