(* ===== verification/Fast_Log.thy ===== *)
theory Fast_Log
  imports Schedi_Prelude
begin

text \<open>
  The in-memory event log of \<^verbatim>\<open>src/src/log.c\<close>: two rings of
  \<^verbatim>\<open>SCHEDI_FLOG_SIZE\<close> events with a 32-bit write position each, modelled in the
  default build (no \<^verbatim>\<open>SCHEDI_LOG_NAMED_THREADS\<close>), and the thread-name table of
  the named build. The thread id that \<^verbatim>\<open>gettid\<close> returns is an argument.
\<close>

section \<open>Data\<close>

record flog_event =
  tid :: int
  msg :: string
  param :: int

definition SCHEDI_FLOG_SIZE :: nat where
  "SCHEDI_FLOG_SIZE = 4096"

text \<open>One ring: \<^verbatim>\<open>flog_head\<close>/\<^verbatim>\<open>flog_events\<close> or \<^verbatim>\<open>ferr_head\<close>/\<^verbatim>\<open>ferr_events\<close>.\<close>

record flog_ring =
  fh :: u32
  evnts :: "flog_event list"

record flogs =
  flog :: flog_ring
  ferr :: flog_ring

definition zero_event :: flog_event where
  "zero_event = \<lparr>tid = 0, msg = [], param = 0\<rparr>"

text \<open>Static storage is zero-initialised.\<close>

definition flog_ring_init :: flog_ring where
  "flog_ring_init = \<lparr>fh = 0, evnts = replicate SCHEDI_FLOG_SIZE zero_event\<rparr>"

section \<open>Operations\<close>

definition schedi_flog_explicit :: "int \<Rightarrow> string \<Rightarrow> int \<Rightarrow> flog_ring \<Rightarrow> flog_ring" where
  "schedi_flog_explicit t m p r =
     (let idx = unat (fh r) mod SCHEDI_FLOG_SIZE
      in r\<lparr>fh := fh r + 1, evnts := (evnts r)[idx := \<lparr>tid = t, msg = m, param = p\<rparr>]\<rparr>)"

definition schedi_flog :: "int \<Rightarrow> string \<Rightarrow> int \<Rightarrow> flogs \<Rightarrow> flogs" where
  "schedi_flog t m p s = s\<lparr>flog := schedi_flog_explicit t m p (flog s)\<rparr>"

definition schedi_ferr :: "int \<Rightarrow> string \<Rightarrow> int \<Rightarrow> flogs \<Rightarrow> flogs" where
  "schedi_ferr t m p s =
     (let s1 = schedi_flog t m p s
      in s1\<lparr>ferr := schedi_flog_explicit t m p (ferr s1)\<rparr>)"

text \<open>
  The copy loop of \<^verbatim>\<open>schedi_flog_get\<close> and \<^verbatim>\<open>schedi_ferr_get\<close>, for
  \<open>i = SCHEDI_FLOG_SIZE - 1\<close> down to \<open>0\<close>: the entry written is
  \<open>SCHEDI_FLOG_SIZE - 1 - i\<close>, the one read \<open>(head - i) mod SCHEDI_FLOG_SIZE\<close>,
  with the subtraction on 32-bit words. \<open>n\<close> is \<open>i + 1\<close>.
\<close>

fun flog_get_loop :: "flog_ring \<Rightarrow> nat \<Rightarrow> flog_event list" where
  "flog_get_loop r 0 = []"
| "flog_get_loop r (Suc i) =
     (evnts r ! (unat (fh r - of_nat i) mod SCHEDI_FLOG_SIZE)) # flog_get_loop r i"

definition schedi_flog_get :: "flogs \<Rightarrow> flog_event list" where
  "schedi_flog_get s = flog_get_loop (flog s) SCHEDI_FLOG_SIZE"

definition schedi_ferr_get :: "flogs \<Rightarrow> flog_event list" where
  "schedi_ferr_get s = flog_get_loop (ferr s) SCHEDI_FLOG_SIZE"

subsection \<open>Thread names\<close>

definition SCHEDI_MAX_UNIQUE_THREAD_COUNT :: nat where
  "SCHEDI_MAX_UNIQUE_THREAD_COUNT = 32"

definition thread_names :: "string list" where
  "thread_names =
    [''Thread Adam'', ''Thread Jonathan'', ''Thread Mark'', ''Thread Anzelmus'',
     ''Thread Beckfield'', ''Thread Gus'', ''Thread McField'', ''Thread Harding'',
     ''Thread Jobs'', ''Thread Porter'', ''Thread Price'', ''Thread Crane'',
     ''Thread Reed'', ''Thread Avery'', ''Thread Hale'', ''Thread Cross'',
     ''Thread Bishop'', ''Thread Grant'', ''Thread Lane'', ''Thread Ford'']"

record thread_naming =
  ntn :: nat
  namings :: "(int \<times> string) list"

datatype log_error =
    NamingsOverflow  \<comment> \<open>write behind the last entry of \<^verbatim>\<open>ThreadNamings\<close>\<close>
  | NamesOverrun     \<comment> \<open>read behind the last entry of \<^verbatim>\<open>thread_names\<close>\<close>

definition thread_naming_init :: thread_naming where
  "thread_naming_init = \<lparr>ntn = 0, namings = replicate SCHEDI_MAX_UNIQUE_THREAD_COUNT (0, [])\<rparr>"

text \<open>The search loop: the name of a known thread, or the index where it stopped.\<close>

fun naming_search :: "(int \<times> string) list \<Rightarrow> int \<Rightarrow> nat \<Rightarrow> nat + string" where
  "naming_search [] pt i = Inl i"
| "naming_search ((p, n) # ns) pt i =
     (if p = pt then Inr n else if p = 0 then Inl i else naming_search ns pt (Suc i))"

definition GetThreadName ::
  "thread_naming \<Rightarrow> int \<Rightarrow> log_error + (string \<times> thread_naming)" where
  "GetThreadName s pt =
     (case naming_search (namings s) pt 0 of
        Inr n \<Rightarrow> Inr (n, s)
      | Inl i \<Rightarrow>
          if length (namings s) \<le> i then Inl NamingsOverflow
          else if length thread_names \<le> ntn s then Inl NamesOverrun
          else let n = thread_names ! ntn s
               in Inr (n, s\<lparr>ntn := ntn s + 1, namings := (namings s)[i := (pt, n)]\<rparr>))"

section \<open>What the ring holds\<close>

text \<open>
  \<open>ring_holds r L\<close>: the ring holds the events \<open>L\<close>, oldest first; the write
  position is on the oldest.
\<close>

definition ring_holds :: "flog_ring \<Rightarrow> flog_event list \<Rightarrow> bool" where
  "ring_holds r L \<longleftrightarrow> length L = SCHEDI_FLOG_SIZE \<and> length (evnts r) = SCHEDI_FLOG_SIZE
     \<and> (\<forall>k < SCHEDI_FLOG_SIZE. evnts r ! ((unat (fh r) + k) mod SCHEDI_FLOG_SIZE) = L ! k)"

lemma ring_holds_init: "ring_holds flog_ring_init (replicate SCHEDI_FLOG_SIZE zero_event)"
  by (simp add: ring_holds_def flog_ring_init_def SCHEDI_FLOG_SIZE_def)

text \<open>The 32-bit position wraps at a multiple of the ring size, so wrapping is harmless.\<close>

lemma unat_succ_mod_ring:
  "unat (w + 1 :: u32) mod SCHEDI_FLOG_SIZE = Suc (unat w) mod SCHEDI_FLOG_SIZE"
  by (simp add: unat_word_ariths mod_mod_cancel SCHEDI_FLOG_SIZE_def)

lemma unat_sub_mod_ring:
  assumes "i < SCHEDI_FLOG_SIZE"
  shows "unat (w - of_nat i :: u32) mod SCHEDI_FLOG_SIZE
       = (unat w + (SCHEDI_FLOG_SIZE - i)) mod SCHEDI_FLOG_SIZE"
proof -
  have i: "unat (of_nat i :: u32) = i"
    using assms by (simp add: SCHEDI_FLOG_SIZE_def unat_of_nat)
  have "int (unat (w - of_nat i)) mod 4096 = (int (unat w) - int i) mod 4096"
    unfolding uint_nat[symmetric] uint_word_ariths(2) using i
    by (simp add: mod_mod_cancel uint_nat del: of_nat_unat)
  also have "\<dots> = (int (unat w) - int i + 4096) mod 4096" by simp
  finally have "int (unat (w - of_nat i) mod 4096) = int ((unat w + (4096 - i)) mod 4096)"
    using assms by (simp add: zmod_int of_nat_diff SCHEDI_FLOG_SIZE_def algebra_simps)
  then show ?thesis by (simp add: SCHEDI_FLOG_SIZE_def)
qed

lemma ring_holds_log:
  assumes "ring_holds r L"
  shows "ring_holds (schedi_flog_explicit t m p r) (tl L @ [\<lparr>tid = t, msg = m, param = p\<rparr>])"
proof -
  let ?N = SCHEDI_FLOG_SIZE
  let ?e = "\<lparr>tid = t, msg = m, param = p\<rparr>"
  let ?i = "unat (fh r) mod ?N"
  have N: "0 < ?N" by (simp add: SCHEDI_FLOG_SIZE_def)
  from assms have L: "length L = ?N" "length (evnts r) = ?N"
    and nth: "\<And>k. k < ?N \<Longrightarrow> evnts r ! ((unat (fh r) + k) mod ?N) = L ! k"
    by (auto simp: ring_holds_def)
  have pos: "(unat (fh r + 1) + k) mod ?N = (unat (fh r) + Suc k) mod ?N" for k
    by (metis unat_succ_mod_ring mod_add_left_eq add_Suc_shift)
  have "(evnts r)[?i := ?e] ! ((unat (fh r) + Suc k) mod ?N) = (tl L @ [?e]) ! k"
    if k: "k < ?N" for k
  proof (cases "Suc k < ?N")
    case True
    have "(unat (fh r) + Suc k) mod ?N \<noteq> ?i"
      using True by (intro ring_index_neq_start) simp_all
    with True L nth[of "Suc k"] show ?thesis by (simp add: nth_append nth_tl)
  next
    case False
    with k have "Suc k = ?N" by simp
    then have "(unat (fh r) + Suc k) mod ?N = ?i" by simp
    moreover have "k = length (tl L)" using \<open>Suc k = ?N\<close> L by simp
    ultimately show ?thesis using L N by (simp add: nth_append)
  qed
  with L N show ?thesis
    by (simp add: ring_holds_def schedi_flog_explicit_def Let_def pos)
qed

lemma flog_get_loop_nth:
  "k < n \<Longrightarrow> flog_get_loop r n ! k
     = evnts r ! (unat (fh r - of_nat (n - Suc k)) mod SCHEDI_FLOG_SIZE)"
  by (induction n arbitrary: k) (auto simp: nth_Cons split: nat.split)

lemma length_flog_get_loop [simp]: "length (flog_get_loop r n) = n"
  by (induction n) auto

lemma flog_get_loop_rotates:
  assumes "ring_holds r L"
  shows "flog_get_loop r SCHEDI_FLOG_SIZE = tl L @ [hd L]"
proof (rule nth_equalityI)
  let ?N = SCHEDI_FLOG_SIZE
  from assms have L: "length L = ?N"
    and nth: "\<And>k. k < ?N \<Longrightarrow> evnts r ! ((unat (fh r) + k) mod ?N) = L ! k"
    by (auto simp: ring_holds_def)
  show "length (flog_get_loop r ?N) = length (tl L @ [hd L])"
    using L by (simp add: SCHEDI_FLOG_SIZE_def)
  fix k assume "k < length (flog_get_loop r ?N)"
  then have k: "k < ?N" by simp
  then have "flog_get_loop r ?N ! k
      = evnts r ! ((unat (fh r) + (?N - (?N - Suc k))) mod ?N)"
    using unat_sub_mod_ring[of "?N - Suc k" "fh r"] by (simp only: flog_get_loop_nth)
  also have "?N - (?N - Suc k) = Suc k" using k by simp
  also have "evnts r ! ((unat (fh r) + Suc k) mod ?N) = (tl L @ [hd L]) ! k"
  proof (cases "Suc k < ?N")
    case True
    with L nth[of "Suc k"] show ?thesis by (simp add: nth_append nth_tl)
  next
    case False
    with k have eq: "Suc k = ?N" by simp
    then have "(unat (fh r) + Suc k) mod ?N = (unat (fh r) + 0) mod ?N" by simp
    then have "evnts r ! ((unat (fh r) + Suc k) mod ?N) = L ! 0" using nth[of 0] k by simp
    moreover have "k = length (tl L)" "L \<noteq> []" using eq L by auto
    ultimately show ?thesis by (simp add: nth_append hd_conv_nth)
  qed
  finally show "flog_get_loop r ?N ! k = (tl L @ [hd L]) ! k" .
qed

section \<open>Properties\<close>

text \<open>
  C40: The log ring keeps the last \<^verbatim>\<open>SCHEDI_FLOG_SIZE\<close> events: one more event pushes
  out the oldest. What \<^verbatim>\<open>schedi_flog_get\<close> copies out is these events from the
  second oldest on, followed by the oldest one.
\<close>

theorem flog_keeps_last_events:
  assumes "ring_holds (flog l) L"
  shows "ring_holds (flog (schedi_flog t m p l)) (tl L @ [\<lparr>tid = t, msg = m, param = p\<rparr>])
    \<and> schedi_flog_get l = tl L @ [hd L]"
  using ring_holds_log[OF assms] flog_get_loop_rotates[OF assms]
  by (simp add: schedi_flog_def schedi_flog_get_def)

theorem flog_keeps_last_events_witness:
  "ring_holds flog_ring_init (replicate SCHEDI_FLOG_SIZE zero_event)
   \<and> last (schedi_flog_get (schedi_flog 7 ''hello'' 5 \<lparr>flog = flog_ring_init, ferr = flog_ring_init\<rparr>)) = zero_event"
proof -
  let ?l = "\<lparr>flog = flog_ring_init, ferr = flog_ring_init\<rparr>"
  have "ring_holds (flog ?l) (replicate SCHEDI_FLOG_SIZE zero_event)" using ring_holds_init by simp
  note one = flog_keeps_last_events[OF this, of 7 "''hello''" 5]
  then have "schedi_flog_get (schedi_flog 7 ''hello'' 5 ?l) =
      tl (tl (replicate SCHEDI_FLOG_SIZE zero_event) @ [\<lparr>tid = 7, msg = ''hello'', param = 5\<rparr>])
      @ [hd (tl (replicate SCHEDI_FLOG_SIZE zero_event) @ [\<lparr>tid = 7, msg = ''hello'', param = 5\<rparr>])]"
    using flog_keeps_last_events by blast
  then show ?thesis using ring_holds_init by (simp add: SCHEDI_FLOG_SIZE_def)
qed

end
