(* ===== verification/Meta_Flag.thy ===== *)
theory Meta_Flag
  imports Schedi_Prelude
begin

text \<open>
  The word \<^verbatim>\<open>meta_flag\<close> of a job (\<^verbatim>\<open>src/include/schedi/jobs.h\<close>): lifetime and
  readiness flags, three packed 4-bit counts and the 4-bit access count, and the
  bodies of the compare-and-swap loops of \<^verbatim>\<open>src/src/jobs.c\<close> that update it. The
  lemmas describe each body by the flags and counts it reads and writes.
\<close>

section \<open>Layout\<close>

definition SCHEDI_JOB_METAFLAG_ALIVE :: u32 where
  [flag_defs]: "SCHEDI_JOB_METAFLAG_ALIVE = push_bit 0 1"
definition SCHEDI_JOB_METAFLAG_UNSTABLE :: u32 where
  [flag_defs]: "SCHEDI_JOB_METAFLAG_UNSTABLE = push_bit 1 1"
definition SCHEDI_JOB_METAFLAG_EXECUTING :: u32 where
  [flag_defs]: "SCHEDI_JOB_METAFLAG_EXECUTING = push_bit 2 1"
definition SCHEDI_JOB_METAFLAG_WLLDESTROY :: u32 where
  [flag_defs]: "SCHEDI_JOB_METAFLAG_WLLDESTROY = push_bit 3 1"
definition SCHEDI_JOB_METAFLAG_DESTROYNOTENT :: u32 where
  [flag_defs]: "SCHEDI_JOB_METAFLAG_DESTROYNOTENT = push_bit 4 1"
definition SCHEDI_JOB_METAFLAG_READY :: u32 where
  [flag_defs]: "SCHEDI_JOB_METAFLAG_READY = push_bit 5 1"
definition SCHEDI_JOB_METAFLAG_READYBASIC :: u32 where
  [flag_defs]: "SCHEDI_JOB_METAFLAG_READYBASIC = push_bit 6 1"
definition SCHEDI_JOB_METAFLAG_READYEPOLLTOOL :: u32 where
  [flag_defs]: "SCHEDI_JOB_METAFLAG_READYEPOLLTOOL = push_bit 7 1"
definition SCHEDI_JOB_METAFLAG_READYEPOLLSOCK :: u32 where
  [flag_defs]: "SCHEDI_JOB_METAFLAG_READYEPOLLSOCK = push_bit 8 1"
definition SCHEDI_JOB_METAFLAG_READYJOB :: u32 where
  [flag_defs]: "SCHEDI_JOB_METAFLAG_READYJOB = push_bit 21 1"

definition SCHEDI_JOB_METAFLAG_AVSOCK_SHIFT :: nat where
  [field_defs]: "SCHEDI_JOB_METAFLAG_AVSOCK_SHIFT = 9"
definition SCHEDI_JOB_METAFLAG_AVSOCK_MASK :: u32 where
  [field_defs]: "SCHEDI_JOB_METAFLAG_AVSOCK_MASK = push_bit 9 15"
definition SCHEDI_JOB_METAFLAG_WAIT_SHIFT :: nat where
  [field_defs]: "SCHEDI_JOB_METAFLAG_WAIT_SHIFT = 13"
definition SCHEDI_JOB_METAFLAG_WAIT_MASK :: u32 where
  [field_defs]: "SCHEDI_JOB_METAFLAG_WAIT_MASK = push_bit 13 15"
definition SCHEDI_JOB_METAFLAG_AVJOBS_SHIFT :: nat where
  [field_defs]: "SCHEDI_JOB_METAFLAG_AVJOBS_SHIFT = 17"
definition SCHEDI_JOB_METAFLAG_AVJOBS_MASK :: u32 where
  [field_defs]: "SCHEDI_JOB_METAFLAG_AVJOBS_MASK = push_bit 17 15"
definition SCHEDI_JOB_METAFLAG_ACCESS :: u32 where
  [field_defs]: "SCHEDI_JOB_METAFLAG_ACCESS = push_bit 28 15"

definition SCHEDI_JOB_METAFLAG_GETAVSOCK :: "u32 \<Rightarrow> u32" where
  [field_defs]: "SCHEDI_JOB_METAFLAG_GETAVSOCK x =
     drop_bit SCHEDI_JOB_METAFLAG_AVSOCK_SHIFT x AND 15"
definition SCHEDI_JOB_METAFLAG_SETAVSOCK :: "u32 \<Rightarrow> u32 \<Rightarrow> u32" where
  [field_defs]: "SCHEDI_JOB_METAFLAG_SETAVSOCK x a =
     push_bit SCHEDI_JOB_METAFLAG_AVSOCK_SHIFT a OR (x AND NOT SCHEDI_JOB_METAFLAG_AVSOCK_MASK)"
definition SCHEDI_JOB_METAFLAG_GETWAIT :: "u32 \<Rightarrow> u32" where
  [field_defs]: "SCHEDI_JOB_METAFLAG_GETWAIT x =
     drop_bit SCHEDI_JOB_METAFLAG_WAIT_SHIFT x AND 15"
definition SCHEDI_JOB_METAFLAG_SETWAIT :: "u32 \<Rightarrow> u32 \<Rightarrow> u32" where
  [field_defs]: "SCHEDI_JOB_METAFLAG_SETWAIT x a =
     push_bit SCHEDI_JOB_METAFLAG_WAIT_SHIFT a OR (x AND NOT SCHEDI_JOB_METAFLAG_WAIT_MASK)"
definition SCHEDI_JOB_METAFLAG_GETAVJOBS :: "u32 \<Rightarrow> u32" where
  [field_defs]: "SCHEDI_JOB_METAFLAG_GETAVJOBS x =
     drop_bit SCHEDI_JOB_METAFLAG_AVJOBS_SHIFT x AND 15"
definition SCHEDI_JOB_METAFLAG_SETAVJOBS :: "u32 \<Rightarrow> u32 \<Rightarrow> u32" where
  [field_defs]: "SCHEDI_JOB_METAFLAG_SETAVJOBS x a =
     push_bit SCHEDI_JOB_METAFLAG_AVJOBS_SHIFT a OR (x AND NOT SCHEDI_JOB_METAFLAG_AVJOBS_MASK)"
definition SCHEDI_JOB_METAFLAG_GETACCESS :: "u32 \<Rightarrow> u32" where
  [field_defs]: "SCHEDI_JOB_METAFLAG_GETACCESS x = drop_bit 28 x AND 15"
definition SCHEDI_JOB_METAFLAG_SETACCESS :: "u32 \<Rightarrow> u32 \<Rightarrow> u32" where
  [field_defs]: "SCHEDI_JOB_METAFLAG_SETACCESS x acc = push_bit 28 acc OR (x AND NOT (push_bit 28 15))"

section \<open>Loop bodies\<close>

text \<open>
  The banned flags that are set, and the whole access field when \<open>ban_access\<close>
  (\<^verbatim>\<open>-(int)ban_access\<close> is the all-ones or the zero mask).
\<close>

definition meta_ban :: "u32 \<Rightarrow> bool \<Rightarrow> u32 \<Rightarrow> u32" where
  "meta_ban banned_flags ban_access meta_flag =
     (meta_flag AND banned_flags)
       OR ((- of_bool ban_access) AND (meta_flag AND SCHEDI_JOB_METAFLAG_ACCESS))"

definition mark_or_body :: "u32 \<Rightarrow> u32 \<Rightarrow> bool \<Rightarrow> u32 \<Rightarrow> (u32, u32) cas_step" where
  "mark_or_body flag banned_flags ban_access meta_flag =
     (let ban = meta_ban banned_flags ban_access meta_flag
      in if ban = 0 then CasTry (meta_flag OR flag) 0 else CasReturn ban)"

definition unmark_or_body :: "u32 \<Rightarrow> u32 \<Rightarrow> bool \<Rightarrow> u32 \<Rightarrow> (u32, u32) cas_step" where
  "unmark_or_body flag banned_flags ban_access meta_flag =
     (let ban = meta_ban banned_flags ban_access meta_flag
      in if ban = 0 \<and> meta_flag AND flag \<noteq> 0
         then CasTry (meta_flag AND NOT flag) 0 else CasReturn ban)"

definition mark_access_body :: "u32 \<Rightarrow> (u32, u32) cas_step" where
  "mark_access_body meta_flag =
     (let ban = meta_flag AND (SCHEDI_JOB_METAFLAG_UNSTABLE OR SCHEDI_JOB_METAFLAG_WLLDESTROY)
      in if ban \<noteq> 0 then CasReturn ban
         else let accesses = SCHEDI_JOB_METAFLAG_GETACCESS meta_flag
              in if accesses = 15 then CasReturn (meta_flag AND SCHEDI_JOB_METAFLAG_ACCESS)
                 else CasTry (SCHEDI_JOB_METAFLAG_SETACCESS meta_flag (accesses + 1)) 0)"

definition unmark_access_body :: "u32 \<Rightarrow> (u32, u32) cas_step" where
  "unmark_access_body meta_flag =
     (let ban = meta_flag AND SCHEDI_JOB_METAFLAG_UNSTABLE
      in if ban \<noteq> 0 then CasReturn ban
         else let accesses = SCHEDI_JOB_METAFLAG_GETACCESS meta_flag
              in CasTry (SCHEDI_JOB_METAFLAG_SETACCESS meta_flag (accesses - 1)) 0)"

definition schedi_job_meta_flag_check_allready :: "u32 \<Rightarrow> bool" where
  "schedi_job_meta_flag_check_allready meta_flag =
     (let req = SCHEDI_JOB_METAFLAG_READYBASIC OR SCHEDI_JOB_METAFLAG_READYEPOLLTOOL
            OR SCHEDI_JOB_METAFLAG_READYEPOLLSOCK OR SCHEDI_JOB_METAFLAG_READYJOB
      in meta_flag AND req = req)"

text \<open>
  The word that \<^verbatim>\<open>schedi_job_meta_flag_cas_update\<close> swaps in: the new counts, the
  flag, and the derived bits recomputed from the counts; \<open>rs\<close> and \<open>rj\<close> are the
  thresholds \<^verbatim>\<open>required_available_sockets\<close> and \<^verbatim>\<open>required_available_jobs\<close>.
\<close>

definition cas_update_desired :: "int \<Rightarrow> int \<Rightarrow> int \<Rightarrow> int \<Rightarrow> int \<Rightarrow> u32 \<Rightarrow> u32 \<Rightarrow> u32" where
  "cas_update_desired rs rj avail waiting jobcount flag meta_flag =
     (let d1 = SCHEDI_JOB_METAFLAG_SETAVSOCK meta_flag (word_of_int avail);
          d2 = SCHEDI_JOB_METAFLAG_SETWAIT d1 (word_of_int waiting);
          d3 = SCHEDI_JOB_METAFLAG_SETAVJOBS d2 (word_of_int jobcount);
          d4 = d3 OR flag;
          d5 = d4 AND NOT (SCHEDI_JOB_METAFLAG_READYEPOLLSOCK
                 OR SCHEDI_JOB_METAFLAG_READYEPOLLTOOL OR SCHEDI_JOB_METAFLAG_READYJOB);
          d6 = (if avail \<ge> rs then d5 OR SCHEDI_JOB_METAFLAG_READYEPOLLSOCK else d5);
          d7 = (if waiting = 0 then d6 OR SCHEDI_JOB_METAFLAG_READYEPOLLTOOL else d6)
      in if jobcount \<ge> rj then d7 OR SCHEDI_JOB_METAFLAG_READYJOB else d7)"

text \<open>
  The body of \<^verbatim>\<open>schedi_job_meta_flag_cas_update\<close>. The result is the return value
  and whether \<^verbatim>\<open>schedi_job_setready\<close> is called after the swap.
\<close>

definition cas_update_body ::
  "int \<Rightarrow> int \<Rightarrow> int \<Rightarrow> int \<Rightarrow> int \<Rightarrow> u32 \<Rightarrow> u32 \<Rightarrow> bool \<Rightarrow> u32 \<Rightarrow> (int \<times> bool, u32) cas_step" where
  "cas_update_body rs rj sock_delta wait_delta jobcount_delta flag banned_flags ban_access meta_flag =
     (let ban = meta_ban banned_flags ban_access meta_flag
      in if ban \<noteq> 0 then CasReturn (sint ban, False)
         else
           let avail = uint (SCHEDI_JOB_METAFLAG_GETAVSOCK meta_flag) + sock_delta;
               waiting = uint (SCHEDI_JOB_METAFLAG_GETWAIT meta_flag) + wait_delta;
               jobcount = uint (SCHEDI_JOB_METAFLAG_GETAVJOBS meta_flag) + jobcount_delta
           in if avail < 0 \<or> avail > 15 \<or> waiting < 0 \<or> waiting > 15 \<or> jobcount < 0 \<or> jobcount > 15
              then CasReturn (-1, False)
              else
                let desired = cas_update_desired rs rj avail waiting jobcount flag meta_flag;
                    pre_ready = schedi_job_meta_flag_check_allready meta_flag;
                    ready = schedi_job_meta_flag_check_allready desired
                in CasTry desired (0, \<not> pre_ready \<and> ready))"

section \<open>Bits, fields and bans\<close>

lemma bit_15_iff: "bit (15 :: u32) n \<longleftrightarrow> n < 4"
proof -
  have "(15 :: u32) = mask 4" by (simp add: mask_eq_exp_minus_1)
  then show ?thesis by (auto simp only: bit_mask_iff) simp
qed

lemmas field_bits = field_defs bit_and_iff bit_or_iff bit_not_iff bit_push_bit_iff bit_drop_bit_eq
  bit_15_iff comp_apply

lemma flag_clear_iff:
  "m AND SCHEDI_JOB_METAFLAG_ALIVE = 0 \<longleftrightarrow> \<not> bit m 0"
  "m AND SCHEDI_JOB_METAFLAG_UNSTABLE = 0 \<longleftrightarrow> \<not> bit m 1"
  "m AND SCHEDI_JOB_METAFLAG_EXECUTING = 0 \<longleftrightarrow> \<not> bit m 2"
  "m AND SCHEDI_JOB_METAFLAG_WLLDESTROY = 0 \<longleftrightarrow> \<not> bit m 3"
  "m AND SCHEDI_JOB_METAFLAG_DESTROYNOTENT = 0 \<longleftrightarrow> \<not> bit m 4"
  "m AND SCHEDI_JOB_METAFLAG_READY = 0 \<longleftrightarrow> \<not> bit m 5"
  "m AND SCHEDI_JOB_METAFLAG_READYBASIC = 0 \<longleftrightarrow> \<not> bit m 6"
  "m AND SCHEDI_JOB_METAFLAG_READYEPOLLTOOL = 0 \<longleftrightarrow> \<not> bit m 7"
  "m AND SCHEDI_JOB_METAFLAG_READYEPOLLSOCK = 0 \<longleftrightarrow> \<not> bit m 8"
  "m AND SCHEDI_JOB_METAFLAG_READYJOB = 0 \<longleftrightarrow> \<not> bit m 21"
  by (simp_all only: flag_defs push_bit_of_1 and_exp_eq_0_iff_not_bit)

lemma and_or_eq_0_iff: "(m :: u32) AND (a OR b) = 0 \<longleftrightarrow> m AND a = 0 \<and> m AND b = 0"
  by (simp add: bit.conj_disj_distrib or_eq_0_iff)

lemmas ban_iffs = and_or_eq_0_iff flag_clear_iff or_eq_0_iff

lemma access_zero_iff:
  "m AND SCHEDI_JOB_METAFLAG_ACCESS = 0 \<longleftrightarrow> SCHEDI_JOB_METAFLAG_GETACCESS m = 0"
proof -
  have "m AND SCHEDI_JOB_METAFLAG_ACCESS = push_bit 28 (SCHEDI_JOB_METAFLAG_GETACCESS m)"
    by (rule bit_word_eqI) (auto simp only: field_bits le_add_diff_inverse)
  moreover have "SCHEDI_JOB_METAFLAG_GETACCESS m = drop_bit 28 (m AND SCHEDI_JOB_METAFLAG_ACCESS)"
    by (rule bit_word_eqI) (auto simp only: field_bits le_add_diff_inverse, simp)
  ultimately show ?thesis by (metis drop_bit_of_0 push_bit_of_0)
qed

lemma bit_less_16: "a < 16 \<Longrightarrow> bit (a :: u32) n \<Longrightarrow> n < 4"
  by (rule bit_below) (simp_all add: word_less_nat_alt)

lemma less_16_eq: "a < 16 \<Longrightarrow> (a :: u32) AND 15 = a"
  by (rule bit_word_eqI) (auto simp only: bit_and_iff bit_15_iff dest: bit_less_16)

lemma field_less_16:
  "SCHEDI_JOB_METAFLAG_GETAVSOCK x < 16" "SCHEDI_JOB_METAFLAG_GETWAIT x < 16"
  "SCHEDI_JOB_METAFLAG_GETAVJOBS x < 16" "SCHEDI_JOB_METAFLAG_GETACCESS x < 16"
proof -
  have "(y :: u32) AND 15 < 16" for y
    using word_and_le1[of y 15] by (simp add: word_less_nat_alt word_le_nat_alt)
  then show "SCHEDI_JOB_METAFLAG_GETAVSOCK x < 16" "SCHEDI_JOB_METAFLAG_GETWAIT x < 16"
    "SCHEDI_JOB_METAFLAG_GETAVJOBS x < 16" "SCHEDI_JOB_METAFLAG_GETACCESS x < 16"
    by (simp_all add: field_defs)
qed

text \<open>What a setter does to each bit, for a value that fits in the field.\<close>

lemma bit_setters:
  assumes "a < 16"
  shows "bit (SCHEDI_JOB_METAFLAG_SETAVSOCK x a) n \<longleftrightarrow>
      (if 9 \<le> n \<and> n < 13 then bit a (n - 9) else bit x n)"
    and "bit (SCHEDI_JOB_METAFLAG_SETWAIT x a) n \<longleftrightarrow>
      (if 13 \<le> n \<and> n < 17 then bit a (n - 13) else bit x n)"
    and "bit (SCHEDI_JOB_METAFLAG_SETAVJOBS x a) n \<longleftrightarrow>
      (if 17 \<le> n \<and> n < 21 then bit a (n - 17) else bit x n)"
    and "bit (SCHEDI_JOB_METAFLAG_SETACCESS x a) n \<longleftrightarrow>
      (if 28 \<le> n \<and> n < 32 then bit a (n - 28) else bit x n)"
  using bit_less_16[OF assms, of "n - 9"] bit_less_16[OF assms, of "n - 13"]
    bit_less_16[OF assms, of "n - 17"] bit_less_16[OF assms, of "n - 28"]
  by (auto simp only: field_bits split: if_splits) (auto dest: bit_imp_le_length)

lemma field_eqI:
  assumes "a < 16" "b < 16" "\<And>n. n < 4 \<Longrightarrow> bit a n = bit (b :: u32) n"
  shows "a = b"
  using assms by (intro bit_word_eqI) (metis bit_less_16)

lemma bit_getters:
  "bit (SCHEDI_JOB_METAFLAG_GETAVSOCK x) n \<longleftrightarrow> n < 4 \<and> bit x (n + 9)"
  "bit (SCHEDI_JOB_METAFLAG_GETWAIT x) n \<longleftrightarrow> n < 4 \<and> bit x (n + 13)"
  "bit (SCHEDI_JOB_METAFLAG_GETAVJOBS x) n \<longleftrightarrow> n < 4 \<and> bit x (n + 17)"
  "bit (SCHEDI_JOB_METAFLAG_GETACCESS x) n \<longleftrightarrow> n < 4 \<and> bit x (n + 28)"
  by (auto simp only: field_bits ac_simps)

lemma get_set_same [simp]:
  "a < 16 \<Longrightarrow> SCHEDI_JOB_METAFLAG_GETAVSOCK (SCHEDI_JOB_METAFLAG_SETAVSOCK x a) = a"
  "a < 16 \<Longrightarrow> SCHEDI_JOB_METAFLAG_GETWAIT (SCHEDI_JOB_METAFLAG_SETWAIT x a) = a"
  "a < 16 \<Longrightarrow> SCHEDI_JOB_METAFLAG_GETAVJOBS (SCHEDI_JOB_METAFLAG_SETAVJOBS x a) = a"
  "a < 16 \<Longrightarrow> SCHEDI_JOB_METAFLAG_GETACCESS (SCHEDI_JOB_METAFLAG_SETACCESS x a) = a"
  by (rule field_eqI; simp add: field_less_16 bit_getters bit_setters)+

lemma get_cong:
  "(\<And>n. 9 \<le> n \<Longrightarrow> n < 13 \<Longrightarrow> bit x n = bit y n) \<Longrightarrow>
     SCHEDI_JOB_METAFLAG_GETAVSOCK x = SCHEDI_JOB_METAFLAG_GETAVSOCK y"
  "(\<And>n. 13 \<le> n \<Longrightarrow> n < 17 \<Longrightarrow> bit x n = bit y n) \<Longrightarrow>
     SCHEDI_JOB_METAFLAG_GETWAIT x = SCHEDI_JOB_METAFLAG_GETWAIT y"
  "(\<And>n. 17 \<le> n \<Longrightarrow> n < 21 \<Longrightarrow> bit x n = bit y n) \<Longrightarrow>
     SCHEDI_JOB_METAFLAG_GETAVJOBS x = SCHEDI_JOB_METAFLAG_GETAVJOBS y"
  "(\<And>n. 28 \<le> n \<Longrightarrow> n < 32 \<Longrightarrow> bit x n = bit y n) \<Longrightarrow>
     SCHEDI_JOB_METAFLAG_GETACCESS x = SCHEDI_JOB_METAFLAG_GETACCESS y"
  by (rule field_eqI; simp add: field_less_16 bit_getters)+

lemma bit_flags:
  "bit SCHEDI_JOB_METAFLAG_ALIVE n \<longleftrightarrow> n = 0"
  "bit SCHEDI_JOB_METAFLAG_UNSTABLE n \<longleftrightarrow> n = 1"
  "bit SCHEDI_JOB_METAFLAG_EXECUTING n \<longleftrightarrow> n = 2"
  "bit SCHEDI_JOB_METAFLAG_WLLDESTROY n \<longleftrightarrow> n = 3"
  "bit SCHEDI_JOB_METAFLAG_DESTROYNOTENT n \<longleftrightarrow> n = 4"
  "bit SCHEDI_JOB_METAFLAG_READY n \<longleftrightarrow> n = 5"
  "bit SCHEDI_JOB_METAFLAG_READYBASIC n \<longleftrightarrow> n = 6"
  "bit SCHEDI_JOB_METAFLAG_READYEPOLLTOOL n \<longleftrightarrow> n = 7"
  "bit SCHEDI_JOB_METAFLAG_READYEPOLLSOCK n \<longleftrightarrow> n = 8"
  "bit SCHEDI_JOB_METAFLAG_READYJOB n \<longleftrightarrow> n = 21"
  by (simp_all only: flag_defs, (subst bit_one_shifted; simp)+)

lemma meta_ban_zero_iff:
  "meta_ban banned ba m = 0 \<longleftrightarrow>
     m AND banned = 0 \<and> (ba \<longrightarrow> SCHEDI_JOB_METAFLAG_GETACCESS m = 0)"
  by (auto simp: meta_ban_def or_eq_0_iff access_zero_iff)

lemma allready_iff:
  "schedi_job_meta_flag_check_allready m \<longleftrightarrow> bit m 6 \<and> bit m 7 \<and> bit m 8 \<and> bit m 21"
proof -
  have "m AND r = r \<longleftrightarrow> (\<forall>n. bit r n \<longrightarrow> bit m n)" for r :: u32
  proof
    assume "m AND r = r"
    then show "\<forall>n. bit r n \<longrightarrow> bit m n" by (metis bit_and_iff)
  next
    assume "\<forall>n. bit r n \<longrightarrow> bit m n"
    then show "m AND r = r" by (intro bit_word_eqI) (auto simp: bit_and_iff)
  qed
  then show ?thesis
    by (auto simp: schedi_job_meta_flag_check_allready_def bit_or_iff bit_flags)
qed

section \<open>The effect of the loop bodies\<close>

text \<open>Flags that \<^verbatim>\<open>mark_readiness\<close> may set: everything below the derived bits.\<close>

definition basic_flag :: "u32 \<Rightarrow> bool" where
  "basic_flag flag \<longleftrightarrow> flag AND (mask 7) = flag"

lemma basic_flag_bit: "basic_flag flag \<Longrightarrow> bit flag n \<Longrightarrow> n < 7"
  unfolding basic_flag_def by (metis bit_and_iff bit_mask_iff)

lemma bit_cas_update_desired:
  assumes "0 \<le> avail" "avail \<le> 15" "0 \<le> waiting" "waiting \<le> 15"
    and "0 \<le> jobcount" "jobcount \<le> 15" and flag: "basic_flag flag"
  shows "bit (cas_update_desired rs rj avail waiting jobcount flag m) n \<longleftrightarrow>
     (if n = 8 then rs \<le> avail
      else if n = 7 then waiting = 0
      else if n = 21 then rj \<le> jobcount
      else if 9 \<le> n \<and> n < 13 then bit (word_of_int avail :: u32) (n - 9)
      else if 13 \<le> n \<and> n < 17 then bit (word_of_int waiting :: u32) (n - 13)
      else if 17 \<le> n \<and> n < 21 then bit (word_of_int jobcount :: u32) (n - 17)
      else bit m n \<or> bit flag n)"
proof -
  have less: "(word_of_int k :: u32) < 16" if "0 \<le> k" "k \<le> 15" for k
    using that by (simp add: word_less_alt uint_word_of_int)
  define d3 where "d3 = SCHEDI_JOB_METAFLAG_SETAVJOBS (SCHEDI_JOB_METAFLAG_SETWAIT
      (SCHEDI_JOB_METAFLAG_SETAVSOCK m (word_of_int avail)) (word_of_int waiting))
      (word_of_int jobcount)"
  have d3: "bit d3 n \<longleftrightarrow>
     (if 9 \<le> n \<and> n < 13 then bit (word_of_int avail :: u32) (n - 9)
      else if 13 \<le> n \<and> n < 17 then bit (word_of_int waiting :: u32) (n - 13)
      else if 17 \<le> n \<and> n < 21 then bit (word_of_int jobcount :: u32) (n - 17)
      else bit m n)"
    using less assms(1-6) by (auto simp: d3_def bit_setters)
  have "bit (cas_update_desired rs rj avail waiting jobcount flag m) n \<longleftrightarrow>
      n = 8 \<and> rs \<le> avail \<or> n = 7 \<and> waiting = 0 \<or> n = 21 \<and> rj \<le> jobcount
      \<or> (bit d3 n \<or> bit flag n) \<and> n \<noteq> 7 \<and> n \<noteq> 8 \<and> n \<noteq> 21"
    using bit_imp_le_length[of d3 n] bit_imp_le_length[of flag n]
    unfolding cas_update_desired_def Let_def d3_def[symmetric]
    by (auto simp: bit_or_iff bit_and_iff bit_not_iff bit_flags)
  moreover have "bit flag n \<Longrightarrow> n < 7" using flag by (rule basic_flag_bit)
  ultimately show ?thesis unfolding d3 by auto
qed

text \<open>
  The counts after an update and the derived bits that follow from them, for a
  flag that is not one of the derived ones.
\<close>

lemma cas_update_desired_fields:
  assumes "0 \<le> avail" "avail \<le> 15" "0 \<le> waiting" "waiting \<le> 15"
    and "0 \<le> jobcount" "jobcount \<le> 15" and flag: "basic_flag flag"
    and d_def: "d = cas_update_desired rs rj avail waiting jobcount flag m"
  shows "uint (SCHEDI_JOB_METAFLAG_GETAVSOCK d) = avail"
    and "uint (SCHEDI_JOB_METAFLAG_GETWAIT d) = waiting"
    and "uint (SCHEDI_JOB_METAFLAG_GETAVJOBS d) = jobcount"
    and "SCHEDI_JOB_METAFLAG_GETACCESS d = SCHEDI_JOB_METAFLAG_GETACCESS m"
proof -
  note bits = bit_cas_update_desired[OF assms(1-7), of rs rj m, folded d_def]
  note [simp] = bits
  have less: "(word_of_int k :: u32) < 16" "uint (word_of_int k :: u32) = k"
    if "0 \<le> k" "k \<le> 15" for k
    using that by (simp_all add: word_less_alt uint_word_of_int)
  have "SCHEDI_JOB_METAFLAG_GETAVSOCK d = word_of_int avail"
    "SCHEDI_JOB_METAFLAG_GETWAIT d = word_of_int waiting"
    "SCHEDI_JOB_METAFLAG_GETAVJOBS d = word_of_int jobcount"
    by (rule field_eqI; simp add: field_less_16 less assms(1-6) bit_getters)+
  then show "uint (SCHEDI_JOB_METAFLAG_GETAVSOCK d) = avail"
    "uint (SCHEDI_JOB_METAFLAG_GETWAIT d) = waiting"
    "uint (SCHEDI_JOB_METAFLAG_GETAVJOBS d) = jobcount"
    using less assms(1-6) by simp_all
  show "SCHEDI_JOB_METAFLAG_GETACCESS d = SCHEDI_JOB_METAFLAG_GETACCESS m"
    by (intro get_cong) (auto dest: basic_flag_bit[OF flag])
qed

text \<open>Both outcomes of an update: early return, or the swap with its effect.\<close>

lemma cas_update_body_cases:
  obtains (banned) "meta_ban banned ba m \<noteq> 0"
      "cas_update_body rs rj sd wd jd flag banned ba m = CasReturn (sint (meta_ban banned ba m), False)"
  | (range) "meta_ban banned ba m = 0"
      "cas_update_body rs rj sd wd jd flag banned ba m = CasReturn (-1, False)"
      "\<not> (uint (SCHEDI_JOB_METAFLAG_GETAVSOCK m) + sd \<in> {0..15}
         \<and> uint (SCHEDI_JOB_METAFLAG_GETWAIT m) + wd \<in> {0..15}
         \<and> uint (SCHEDI_JOB_METAFLAG_GETAVJOBS m) + jd \<in> {0..15})"
  | (swap) d where "meta_ban banned ba m = 0"
      "uint (SCHEDI_JOB_METAFLAG_GETAVSOCK m) + sd \<in> {0..15}"
      "uint (SCHEDI_JOB_METAFLAG_GETWAIT m) + wd \<in> {0..15}"
      "uint (SCHEDI_JOB_METAFLAG_GETAVJOBS m) + jd \<in> {0..15}"
      "d = cas_update_desired rs rj (uint (SCHEDI_JOB_METAFLAG_GETAVSOCK m) + sd)
         (uint (SCHEDI_JOB_METAFLAG_GETWAIT m) + wd)
         (uint (SCHEDI_JOB_METAFLAG_GETAVJOBS m) + jd) flag m"
      "cas_update_body rs rj sd wd jd flag banned ba m = CasTry d (0,
         \<not> schedi_job_meta_flag_check_allready m \<and> schedi_job_meta_flag_check_allready d)"
  unfolding cas_update_body_def Let_def
  by (cases "meta_ban banned ba m = 0"; fastforce split: if_splits)

text \<open>What a swap tells about the counts and the word.\<close>

lemma cas_update_body_tryD:
  assumes "cas_update_body rs rj sd wd jd flag banned ba m = CasTry d r"
  shows "0 \<le> uint (SCHEDI_JOB_METAFLAG_GETAVSOCK m) + sd" "uint (SCHEDI_JOB_METAFLAG_GETAVSOCK m) + sd \<le> 15"
    and "0 \<le> uint (SCHEDI_JOB_METAFLAG_GETWAIT m) + wd" "uint (SCHEDI_JOB_METAFLAG_GETWAIT m) + wd \<le> 15"
    and "0 \<le> uint (SCHEDI_JOB_METAFLAG_GETAVJOBS m) + jd" "uint (SCHEDI_JOB_METAFLAG_GETAVJOBS m) + jd \<le> 15"
    and "d = cas_update_desired rs rj (uint (SCHEDI_JOB_METAFLAG_GETAVSOCK m) + sd)
      (uint (SCHEDI_JOB_METAFLAG_GETWAIT m) + wd) (uint (SCHEDI_JOB_METAFLAG_GETAVJOBS m) + jd) flag m"
    and "r = (0, \<not> schedi_job_meta_flag_check_allready m \<and> schedi_job_meta_flag_check_allready d)"
  using assms by (auto simp: cas_update_body_def Let_def split: if_splits)

text \<open>
  The derived readiness bits agree with the packed counts (the relation that the
  header states of READYEPOLLTOOL, READYEPOLLSOCK and READYJOB).
\<close>

definition derived_ok :: "int \<Rightarrow> int \<Rightarrow> u32 \<Rightarrow> bool" where
  "derived_ok rs rj m \<longleftrightarrow>
     (m AND SCHEDI_JOB_METAFLAG_READYEPOLLTOOL \<noteq> 0 \<longleftrightarrow> SCHEDI_JOB_METAFLAG_GETWAIT m = 0)
   \<and> (m AND SCHEDI_JOB_METAFLAG_READYEPOLLSOCK \<noteq> 0
        \<longleftrightarrow> rs \<le> uint (SCHEDI_JOB_METAFLAG_GETAVSOCK m))
   \<and> (m AND SCHEDI_JOB_METAFLAG_READYJOB \<noteq> 0
        \<longleftrightarrow> rj \<le> uint (SCHEDI_JOB_METAFLAG_GETAVJOBS m))"

lemma derived_ok_bits:
  "derived_ok rs rj m \<longleftrightarrow> (bit m 7 \<longleftrightarrow> SCHEDI_JOB_METAFLAG_GETWAIT m = 0)
     \<and> (bit m 8 \<longleftrightarrow> rs \<le> uint (SCHEDI_JOB_METAFLAG_GETAVSOCK m))
     \<and> (bit m 21 \<longleftrightarrow> rj \<le> uint (SCHEDI_JOB_METAFLAG_GETAVJOBS m))"
  by (simp add: derived_ok_def flag_clear_iff)

lemma derived_ok_cong:
  assumes "\<And>n. 7 \<le> n \<Longrightarrow> n < 28 \<Longrightarrow> bit x n = bit y n"
  shows "derived_ok rs rj x = derived_ok rs rj y"
proof -
  have "SCHEDI_JOB_METAFLAG_GETWAIT x = SCHEDI_JOB_METAFLAG_GETWAIT y"
    "SCHEDI_JOB_METAFLAG_GETAVSOCK x = SCHEDI_JOB_METAFLAG_GETAVSOCK y"
    "SCHEDI_JOB_METAFLAG_GETAVJOBS x = SCHEDI_JOB_METAFLAG_GETAVJOBS y"
    by (rule get_cong; simp add: assms)+
  with assms[of 7] assms[of 8] assms[of 21] show ?thesis by (simp add: derived_ok_bits)
qed

text \<open>
  Every update re-establishes the agreement, from any word: the update is where
  the derived bits are computed.
\<close>

lemma cas_update_body_derived_ok:
  assumes "cas_update_body rs rj sd wd jd flag banned ba m = CasTry d r" "basic_flag flag"
  shows "derived_ok rs rj d"
proof -
  let ?a = "uint (SCHEDI_JOB_METAFLAG_GETAVSOCK m) + sd"
  let ?w = "uint (SCHEDI_JOB_METAFLAG_GETWAIT m) + wd"
  let ?j = "uint (SCHEDI_JOB_METAFLAG_GETAVJOBS m) + jd"
  note rng = cas_update_body_tryD(1-6)[OF assms(1)] and d = cas_update_body_tryD(7)[OF assms(1)]
  note f = cas_update_desired_fields[OF rng assms(2) d]
  note b = bit_cas_update_desired[OF rng assms(2), of rs rj m, folded d]
  have "SCHEDI_JOB_METAFLAG_GETWAIT d = 0 \<longleftrightarrow> ?w = 0" using f(2) by (metis uint_0_iff)
  with f b[of 7] b[of 8] b[of 21] show ?thesis by (simp add: derived_ok_bits)
qed

section \<open>All operations on the word, interleaved\<close>

text \<open>
  The compare-and-swap operations that the sources run on a job's word, each
  with the flags and bans of its caller; \<open>OpCount\<close> is an update of the packed
  counts (\<^verbatim>\<open>schedi_job_meta_flag_cas_update\<close> with no flag and no bans).
\<close>

datatype meta_op =
    OpMarkAlive | OpMarkExecuting | OpUnmarkExecuting | OpMarkUnstable
  | OpMarkWlldestroy | OpUnmarkWlldestroy | OpMarkDestroynotent
  | OpMarkReady | OpUnmarkReady | OpMarkReadybasic | OpUnmarkReadybasic
  | OpMarkAccess | OpUnmarkAccess | OpCount int int int

fun map_result :: "('a \<Rightarrow> 'b) \<Rightarrow> ('a, 'w) cas_step \<Rightarrow> ('b, 'w) cas_step" where
  "map_result f (CasReturn r) = CasReturn (f r)"
| "map_result f (CasTry w r) = CasTry w (f r)"

abbreviation flag_result :: "(u32, u32) cas_step \<Rightarrow> (int \<times> bool, u32) cas_step" where
  "flag_result \<equiv> map_result (\<lambda>r. (uint r, False))"

fun meta_body :: "int \<Rightarrow> int \<Rightarrow> meta_op \<Rightarrow> u32 \<Rightarrow> (int \<times> bool, u32) cas_step" where
  "meta_body rs rj OpMarkAlive m = flag_result
     (mark_or_body SCHEDI_JOB_METAFLAG_ALIVE SCHEDI_JOB_METAFLAG_UNSTABLE False m)"
| "meta_body rs rj OpMarkExecuting m = flag_result
     (mark_or_body SCHEDI_JOB_METAFLAG_EXECUTING
        (SCHEDI_JOB_METAFLAG_UNSTABLE OR SCHEDI_JOB_METAFLAG_EXECUTING) False m)"
| "meta_body rs rj OpUnmarkExecuting m = flag_result
     (unmark_or_body SCHEDI_JOB_METAFLAG_EXECUTING SCHEDI_JOB_METAFLAG_UNSTABLE False m)"
| "meta_body rs rj OpMarkUnstable m = flag_result
     (mark_or_body SCHEDI_JOB_METAFLAG_UNSTABLE
        (SCHEDI_JOB_METAFLAG_UNSTABLE OR SCHEDI_JOB_METAFLAG_EXECUTING
          OR SCHEDI_JOB_METAFLAG_READY) True m)"
| "meta_body rs rj OpMarkWlldestroy m = flag_result
     (mark_or_body SCHEDI_JOB_METAFLAG_WLLDESTROY SCHEDI_JOB_METAFLAG_UNSTABLE False m)"
| "meta_body rs rj OpUnmarkWlldestroy m = flag_result
     (unmark_or_body SCHEDI_JOB_METAFLAG_WLLDESTROY SCHEDI_JOB_METAFLAG_UNSTABLE False m)"
| "meta_body rs rj OpMarkDestroynotent m = flag_result
     (mark_or_body SCHEDI_JOB_METAFLAG_DESTROYNOTENT SCHEDI_JOB_METAFLAG_UNSTABLE False m)"
| "meta_body rs rj OpMarkReady m = flag_result
     (mark_or_body SCHEDI_JOB_METAFLAG_READY
        (SCHEDI_JOB_METAFLAG_UNSTABLE OR SCHEDI_JOB_METAFLAG_WLLDESTROY
          OR SCHEDI_JOB_METAFLAG_READY) False m)"
| "meta_body rs rj OpUnmarkReady m = flag_result
     (unmark_or_body SCHEDI_JOB_METAFLAG_READY
        (SCHEDI_JOB_METAFLAG_UNSTABLE OR SCHEDI_JOB_METAFLAG_WLLDESTROY) False m)"
| "meta_body rs rj OpMarkReadybasic m =
     cas_update_body rs rj 0 0 0 SCHEDI_JOB_METAFLAG_READYBASIC
        (SCHEDI_JOB_METAFLAG_UNSTABLE OR SCHEDI_JOB_METAFLAG_WLLDESTROY) False m"
| "meta_body rs rj OpUnmarkReadybasic m = flag_result
     (unmark_or_body SCHEDI_JOB_METAFLAG_READYBASIC
        (SCHEDI_JOB_METAFLAG_UNSTABLE OR SCHEDI_JOB_METAFLAG_WLLDESTROY) False m)"
| "meta_body rs rj OpMarkAccess m = flag_result (mark_access_body m)"
| "meta_body rs rj OpUnmarkAccess m = flag_result (unmark_access_body m)"
| "meta_body rs rj (OpCount sd wd jd) m = cas_update_body rs rj sd wd jd 0 0 False m"

lemma map_result_try:
  "map_result f s = CasTry w r \<longleftrightarrow> (\<exists>r'. s = CasTry w r' \<and> r = f r')"
  by (cases s) auto

lemma basic_flags [simp]:
  "basic_flag 0" "basic_flag SCHEDI_JOB_METAFLAG_ALIVE" "basic_flag SCHEDI_JOB_METAFLAG_UNSTABLE"
  "basic_flag SCHEDI_JOB_METAFLAG_EXECUTING" "basic_flag SCHEDI_JOB_METAFLAG_WLLDESTROY"
  "basic_flag SCHEDI_JOB_METAFLAG_DESTROYNOTENT" "basic_flag SCHEDI_JOB_METAFLAG_READY"
  "basic_flag SCHEDI_JOB_METAFLAG_READYBASIC"
  by (simp_all add: basic_flag_def flag_defs mask_eq_exp_minus_1)

lemma mark_or_body_try:
  "mark_or_body flag banned ba m = CasTry d r \<longleftrightarrow>
     meta_ban banned ba m = 0 \<and> d = m OR flag \<and> r = 0"
  by (auto simp: mark_or_body_def Let_def)

lemma unmark_or_body_try:
  "unmark_or_body flag banned ba m = CasTry d r \<longleftrightarrow>
     meta_ban banned ba m = 0 \<and> m AND flag \<noteq> 0 \<and> d = m AND NOT flag \<and> r = 0"
  by (auto simp: unmark_or_body_def Let_def)

lemma mark_access_body_try:
  "mark_access_body m = CasTry d r \<longleftrightarrow> \<not> bit m 1 \<and> \<not> bit m 3
     \<and> SCHEDI_JOB_METAFLAG_GETACCESS m \<noteq> 15
     \<and> d = SCHEDI_JOB_METAFLAG_SETACCESS m (SCHEDI_JOB_METAFLAG_GETACCESS m + 1) \<and> r = 0"
  by (auto simp: mark_access_body_def Let_def ban_iffs)

lemma unmark_access_body_try:
  "unmark_access_body m = CasTry d r \<longleftrightarrow> \<not> bit m 1
     \<and> d = SCHEDI_JOB_METAFLAG_SETACCESS m (SCHEDI_JOB_METAFLAG_GETACCESS m - 1) \<and> r = 0"
  by (auto simp: unmark_access_body_def Let_def ban_iffs)

lemmas body_try = map_result_try mark_or_body_try unmark_or_body_try
  mark_access_body_try unmark_access_body_try

lemma derived_ok_mark: "basic_flag flag \<Longrightarrow> derived_ok rs rj (m OR flag) = derived_ok rs rj m"
  by (rule derived_ok_cong) (auto simp: bit_or_iff dest: basic_flag_bit)

lemma derived_ok_unmark:
  "basic_flag flag \<Longrightarrow> derived_ok rs rj (m AND NOT flag) = derived_ok rs rj m"
  by (rule derived_ok_cong)
    (auto simp: bit_and_iff bit_not_iff dest: basic_flag_bit bit_imp_le_length)

lemma bit_set_access: "n < 28 \<Longrightarrow> bit (SCHEDI_JOB_METAFLAG_SETACCESS m a) n = bit m n"
  by (auto simp only: field_bits, simp_all)

lemma derived_ok_access: "derived_ok rs rj (SCHEDI_JOB_METAFLAG_SETACCESS m a) = derived_ok rs rj m"
  by (rule derived_ok_cong) (simp add: bit_set_access)

lemma meta_body_derived_ok:
  "derived_ok rs rj v \<Longrightarrow> meta_body rs rj op v = CasTry w r \<Longrightarrow> derived_ok rs rj w"
  by (cases op)
    (auto simp: body_try derived_ok_mark derived_ok_unmark derived_ok_access
      dest: cas_update_body_derived_ok)

interpretation meta_word: atomic_word "meta_body rs rj" "derived_ok rs rj" for rs rj
  by unfold_locales (rule meta_body_derived_ok)

subsection \<open>An unstable job is left alone\<close>

text \<open>
  With UNSTABLE set, every mark, unmark and access operation returns the flag and
  writes nothing; only the count updates, which ban nothing, still write.
\<close>

fun is_count :: "meta_op \<Rightarrow> bool" where
  "is_count (OpCount _ _ _) = True"
| "is_count _ = False"

lemma unstable_blocks:
  "bit m 1 \<Longrightarrow> \<not> is_count op \<Longrightarrow> meta_body rs rj op m \<noteq> CasTry w r"
  by (cases op)
    (auto simp: body_try meta_ban_zero_iff ban_iffs cas_update_body_def Let_def split: if_splits)

lemma count_keeps_unstable:
  assumes "meta_body rs rj (OpCount sd wd jd) m = CasTry w r"
  shows "bit w 1 = bit m 1"
proof -
  note d = cas_update_body_tryD[OF assms[unfolded meta_body.simps]]
  from bit_cas_update_desired[OF d(1-6), of 0 rs rj m 1] d(7) show ?thesis by simp
qed

text \<open>UNSTABLE is never cleared by an operation: only the slot's owner stores it away.\<close>

lemma meta_body_keeps_unstable:
  "bit v 1 \<Longrightarrow> meta_body rs rj op v = CasTry w r \<Longrightarrow> bit w 1"
  using unstable_blocks[of v op rs rj w r] count_keeps_unstable[of rs rj _ _ _ v w r]
  by (cases op) auto

interpretation unstable_word: atomic_word "meta_body rs rj" "\<lambda>v. bit v 1" for rs rj
  by unfold_locales (rule meta_body_keeps_unstable)

lemma unstable_history:
  assumes "seq_word (meta_body rs rj) m h = Some m'" "bit m 1" "(op, r) \<in> set h"
  shows "is_count op"
  using assms
proof (induction h arbitrary: m)
  case (Cons e h)
  obtain op' r' where e: "e = (op', r')" by (cases e)
  from Cons.prems(1) e obtain w where w: "meta_body rs rj op' m = CasTry w r'"
    and rest: "seq_word (meta_body rs rj) w h = Some m'"
    by (auto split: cas_step.splits if_splits)
  have "is_count op'" using unstable_blocks[OF Cons.prems(2)] w by blast
  moreover have "bit w 1" using Cons.prems(2) w by (rule meta_body_keeps_unstable)
  ultimately show ?case using Cons.IH[OF rest] Cons.prems(3) e by auto
qed simp

lemma no_count_history_unchanged:
  assumes "seq_word (meta_body rs rj) m h = Some m'" "bit m 1" "\<forall>e \<in> set h. \<not> is_count (fst e)"
  shows "m' = m"
proof (cases h)
  case (Cons e h')
  with assms unstable_history[OF assms(1,2), of "fst e" "snd e"] show ?thesis by simp
qed (use assms in simp)

subsection \<open>The access count counts\<close>

text \<open>The accesses held after a history, if no access is given back that was not taken.\<close>

fun held :: "nat \<Rightarrow> meta_op list \<Rightarrow> nat option" where
  "held a [] = Some a"
| "held a (OpMarkAccess # ops) = held (Suc a) ops"
| "held a (OpUnmarkAccess # ops) = (if a = 0 then None else held (a - 1) ops)"
| "held a (op # ops) = held a ops"

lemma access_inc:
  assumes "SCHEDI_JOB_METAFLAG_GETACCESS m \<noteq> 15"
  shows "unat (SCHEDI_JOB_METAFLAG_GETACCESS
      (SCHEDI_JOB_METAFLAG_SETACCESS m (SCHEDI_JOB_METAFLAG_GETACCESS m + 1)))
    = Suc (unat (SCHEDI_JOB_METAFLAG_GETACCESS m))"
proof -
  let ?a = "SCHEDI_JOB_METAFLAG_GETACCESS m"
  have "unat ?a < 16" using field_less_16(4)[of m] by (simp add: word_less_nat_alt)
  moreover have "unat ?a \<noteq> 15" using assms by (simp add: word_unat_eq_iff)
  ultimately have lt: "unat ?a < 15" by simp
  then have "unat (?a + 1) = Suc (unat ?a)" by (simp add: unat_word_ariths)
  moreover from this lt have "?a + 1 < 16" by (simp add: word_less_nat_alt)
  ultimately show ?thesis by simp
qed

lemma access_dec:
  assumes "unat (SCHEDI_JOB_METAFLAG_GETACCESS m) \<noteq> 0"
  shows "unat (SCHEDI_JOB_METAFLAG_GETACCESS
      (SCHEDI_JOB_METAFLAG_SETACCESS m (SCHEDI_JOB_METAFLAG_GETACCESS m - 1)))
    = unat (SCHEDI_JOB_METAFLAG_GETACCESS m) - 1"
proof -
  let ?a = "SCHEDI_JOB_METAFLAG_GETACCESS m"
  have "unat ?a < 16" using field_less_16(4)[of m] by (simp add: word_less_nat_alt)
  moreover from assms have "unat (?a - 1) = unat ?a - 1"
    by (metis unat_eq_zero unat_minus_one)
  ultimately have "?a - 1 < 16" by (simp add: word_less_nat_alt)
  with \<open>unat (?a - 1) = unat ?a - 1\<close> show ?thesis by simp
qed

lemma access_other:
  assumes "meta_body rs rj op m = CasTry w r" "op \<noteq> OpMarkAccess" "op \<noteq> OpUnmarkAccess"
  shows "SCHEDI_JOB_METAFLAG_GETACCESS w = SCHEDI_JOB_METAFLAG_GETACCESS m"
proof -
  have mark: "SCHEDI_JOB_METAFLAG_GETACCESS (m OR f) = SCHEDI_JOB_METAFLAG_GETACCESS m"
    "SCHEDI_JOB_METAFLAG_GETACCESS (m AND NOT f) = SCHEDI_JOB_METAFLAG_GETACCESS m"
    if "basic_flag f" for f
    by (rule get_cong; auto simp: bit_or_iff bit_and_iff bit_not_iff dest: basic_flag_bit[OF that])+
  have upd: "SCHEDI_JOB_METAFLAG_GETACCESS w = SCHEDI_JOB_METAFLAG_GETACCESS m"
    if "cas_update_body rs rj sd wd jd f b ba m = CasTry w r" "basic_flag f" for sd wd jd f b ba
    using that(1) cas_update_desired_fields(4)[OF _ _ _ _ _ _ that(2) refl]
    by (auto simp: cas_update_body_def Let_def split: if_splits)
  from assms mark show ?thesis by (cases op) (auto simp: body_try intro: upd)
qed

lemma access_count_exact:
  assumes "seq_word (meta_body rs rj) m h = Some m'"
    and "held (unat (SCHEDI_JOB_METAFLAG_GETACCESS m)) (map fst h) = Some a"
  shows "unat (SCHEDI_JOB_METAFLAG_GETACCESS m') = a"
  using assms
proof (induction h arbitrary: m)
  case (Cons e h)
  obtain op r where e: "e = (op, r)" by (cases e)
  from Cons.prems(1) e obtain w where w: "meta_body rs rj op m = CasTry w r"
    and rest: "seq_word (meta_body rs rj) w h = Some m'"
    by (auto split: cas_step.splits if_splits)
  have "held (unat (SCHEDI_JOB_METAFLAG_GETACCESS w)) (map fst h) = Some a"
  proof (cases op)
    case OpMarkAccess
    with w have "SCHEDI_JOB_METAFLAG_GETACCESS m \<noteq> 15"
      "w = SCHEDI_JOB_METAFLAG_SETACCESS m (SCHEDI_JOB_METAFLAG_GETACCESS m + 1)"
      by (auto simp: body_try)
    with OpMarkAccess Cons.prems(2) e access_inc show ?thesis by simp
  next
    case OpUnmarkAccess
    with w Cons.prems(2) e access_dec[of m] show ?thesis
      by (auto simp: body_try split: if_splits)
  qed (use Cons.prems(2) e access_other[OF w] in simp_all)
  from Cons.IH[OF rest this] show ?case .
qed simp

subsection \<open>A flag that is set and cleared in turns\<close>

text \<open>
  \<open>flag_after on off st ops\<close>: the flag after \<open>ops\<close>, if \<open>on\<close> only happens while it
  is clear and \<open>off\<close> only while it is set.
\<close>

fun flag_after :: "meta_op \<Rightarrow> meta_op \<Rightarrow> bool \<Rightarrow> meta_op list \<Rightarrow> bool option" where
  "flag_after on off st [] = Some st"
| "flag_after on off st (op # ops) =
     (if op = on then (if st then None else flag_after on off True ops)
      else if op = off then (if st then flag_after on off False ops else None)
      else flag_after on off st ops)"

lemma cas_update_body_bit:
  assumes "cas_update_body rs rj sd wd jd flag banned ba m = CasTry w r" "basic_flag flag" "n < 7"
  shows "bit w n = (bit m n \<or> bit flag n)"
proof -
  note d = cas_update_body_tryD[OF assms(1)]
  from bit_cas_update_desired[OF d(1-6) assms(2), of rs rj m n] d(7) assms(3) show ?thesis by simp
qed

lemma meta_body_executing:
  assumes "meta_body rs rj op m = CasTry w r"
  shows "(op = OpMarkExecuting \<longrightarrow> \<not> bit m 2 \<and> bit w 2)
    \<and> (op = OpUnmarkExecuting \<longrightarrow> bit m 2 \<and> \<not> bit w 2)
    \<and> (op \<noteq> OpMarkExecuting \<and> op \<noteq> OpUnmarkExecuting \<longrightarrow> bit w 2 = bit m 2)"
  using assms cas_update_body_bit[of rs rj _ _ _ _ _ _ m w r 2]
  by (cases op) (auto simp: body_try meta_ban_zero_iff ban_iffs bit_or_iff bit_and_iff bit_not_iff
      bit_flags bit_set_access)

lemma meta_body_ready:
  assumes "meta_body rs rj op m = CasTry w r"
  shows "(op = OpMarkReady \<longrightarrow> \<not> bit m 5 \<and> bit w 5)
    \<and> (op = OpUnmarkReady \<longrightarrow> bit m 5 \<and> \<not> bit w 5)
    \<and> (op \<noteq> OpMarkReady \<and> op \<noteq> OpUnmarkReady \<longrightarrow> bit w 5 = bit m 5)"
  using assms cas_update_body_bit[of rs rj _ _ _ _ _ _ m w r 5]
  by (cases op) (auto simp: body_try meta_ban_zero_iff ban_iffs bit_or_iff bit_and_iff bit_not_iff
      bit_flags bit_set_access)

lemma flag_after_history:
  assumes "\<And>op m w r. meta_body rs rj op m = CasTry w r \<Longrightarrow>
      (op = on \<longrightarrow> \<not> bit m n \<and> bit w n) \<and> (op = off \<longrightarrow> bit m n \<and> \<not> bit w n)
      \<and> (op \<noteq> on \<and> op \<noteq> off \<longrightarrow> bit w n = bit m n)"
    and "seq_word (meta_body rs rj) m h = Some m'"
  shows "flag_after on off (bit m n) (map fst h) = Some (bit m' n)"
  using assms(2)
proof (induction h arbitrary: m)
  case (Cons e h)
  obtain op r where e: "e = (op, r)" by (cases e)
  from Cons.prems e obtain w where w: "meta_body rs rj op m = CasTry w r"
    and rest: "seq_word (meta_body rs rj) w h = Some m'"
    by (auto split: cas_step.splits if_splits)
  from assms(1)[OF w] Cons.IH[OF rest] e show ?case by (cases "bit m n") auto
qed simp

section \<open>Properties\<close>


lemma count_swap_example:
  "meta_body 1 0 (OpCount 1 0 0) 0x200081 = CasTry 0x200381 (0, False)"
  by code_simp


text \<open>
  Once UNSTABLE is set, in every interleaving it stays set, and of all the
  operations on the word only updates of the packed counts still take effect:
  no mark, unmark or access operation changes a job that is being set up or torn
  down.
\<close>

lemma unstable_job_left_alone:
  assumes "cas_run (meta_body rs rj) m0 c" "m0 AND SCHEDI_JOB_METAFLAG_UNSTABLE \<noteq> 0"
  shows "fst c AND SCHEDI_JOB_METAFLAG_UNSTABLE \<noteq> 0
    \<and> list_all (\<lambda>(op, r). is_count op) (snd (snd c))
    \<and> (snd (snd c) = [] \<longrightarrow> fst c = m0)"
proof -
  have m0: "bit m0 1" using assms(2) by (simp add: flag_clear_iff)
  note seq = cas_run_linearisable[OF assms(1)]
  have "list_all (\<lambda>(op, r). is_count op) (snd (snd c))"
    using unstable_history[OF seq m0] by (auto simp: list_all_iff)
  with unstable_word.run_keeps[OF assms(1) m0] seq show ?thesis by (auto simp: flag_clear_iff)
qed

lemma unstable_swap_example:
  "meta_body 0 0 (OpCount 0 1 0) 0x200182 = CasTry 0x202102 (0, False)"
  by code_simp

text \<open>
  C20: The access count counts: in every interleaving in which no access is given
  back that was not taken, the packed field is exactly the number of accesses
  held, so it neither loses an update nor wraps.
\<close>

theorem access_count_is_accesses_held:
  assumes "cas_run (meta_body rs rj) m0 c"
    and "held (unat (SCHEDI_JOB_METAFLAG_GETACCESS m0)) (map fst (snd (snd c))) = Some a"
  shows "unat (SCHEDI_JOB_METAFLAG_GETACCESS (fst c)) = a \<and> a \<le> 15"
proof -
  have "unat (SCHEDI_JOB_METAFLAG_GETACCESS (fst c)) = a"
    using cas_run_linearisable[OF assms(1)] assms(2) by (rule access_count_exact)
  with field_less_16(4)[of "fst c"] show ?thesis by (auto simp: word_less_nat_alt)
qed

lemma access_swap_example: "meta_body 0 0 OpMarkAccess 0x10000001 = CasTry 0x20000001 (0, False)"
  by code_simp

theorem access_count_is_accesses_held_witness:
  "cas_run (meta_body 0 0) 0x10000001 (0x20000001, \<lambda>_. None, [(OpMarkAccess, (0, False))])
   \<and> unat (SCHEDI_JOB_METAFLAG_GETACCESS 0x10000001) = 1
   \<and> unat (SCHEDI_JOB_METAFLAG_GETACCESS 0x20000001) = 2"
proof -
  note run = cas_run_one[of "meta_body 0 0", OF access_swap_example]
  have "unat (SCHEDI_JOB_METAFLAG_GETACCESS 0x10000001) = 1" by code_simp
  with access_count_is_accesses_held[OF run, of 2] run show ?thesis by simp
qed

text \<open>
  The readiness update on every branch: it returns the banned flags that are
  set, or -1 when a packed count would leave 0..15, without writing; otherwise
  it writes exactly the three new counts, keeps the access count, recomputes the
  derived bits, returns 0, and calls for \<^verbatim>\<open>schedi_job_setready\<close> exactly when this
  update completes the readiness set.
\<close>

lemma cas_update_every_branch:
  assumes "basic_flag flag"
  shows "case cas_update_body rs rj sd wd jd flag banned ba m of
      CasReturn (r, call) \<Rightarrow> \<not> call \<and>
        (if meta_ban banned ba m \<noteq> 0 then r = sint (meta_ban banned ba m)
         else r = -1 \<and> \<not> (uint (SCHEDI_JOB_METAFLAG_GETAVSOCK m) + sd \<in> {0..15}
           \<and> uint (SCHEDI_JOB_METAFLAG_GETWAIT m) + wd \<in> {0..15}
           \<and> uint (SCHEDI_JOB_METAFLAG_GETAVJOBS m) + jd \<in> {0..15}))
    | CasTry d (r, call) \<Rightarrow> meta_ban banned ba m = 0 \<and> r = 0
        \<and> uint (SCHEDI_JOB_METAFLAG_GETAVSOCK d) = uint (SCHEDI_JOB_METAFLAG_GETAVSOCK m) + sd
        \<and> uint (SCHEDI_JOB_METAFLAG_GETWAIT d) = uint (SCHEDI_JOB_METAFLAG_GETWAIT m) + wd
        \<and> uint (SCHEDI_JOB_METAFLAG_GETAVJOBS d) = uint (SCHEDI_JOB_METAFLAG_GETAVJOBS m) + jd
        \<and> SCHEDI_JOB_METAFLAG_GETACCESS d = SCHEDI_JOB_METAFLAG_GETACCESS m
        \<and> derived_ok rs rj d
        \<and> (call \<longleftrightarrow> \<not> schedi_job_meta_flag_check_allready m \<and> schedi_job_meta_flag_check_allready d)"
proof (cases rule: cas_update_body_cases[of banned ba m rs rj sd wd jd flag])
  case (swap d)
  note f = cas_update_desired_fields[OF _ _ _ _ _ _ assms swap(5)]
  show ?thesis using swap f cas_update_body_derived_ok[OF swap(6) assms] by auto
qed auto

text \<open>
  At most one worker runs a job and at most one thread caches it: in every
  interleaving, EXECUTING is marked only while it is clear and unmarked only
  while it is set, and so is READY; the flags say at every moment whether the
  last mark has been undone.
\<close>

lemma executing_and_ready_exclusive:
  assumes "cas_run (meta_body rs rj) m0 c"
  shows "flag_after OpMarkExecuting OpUnmarkExecuting (m0 AND SCHEDI_JOB_METAFLAG_EXECUTING \<noteq> 0)
      (map fst (snd (snd c))) = Some (fst c AND SCHEDI_JOB_METAFLAG_EXECUTING \<noteq> 0)
    \<and> flag_after OpMarkReady OpUnmarkReady (m0 AND SCHEDI_JOB_METAFLAG_READY \<noteq> 0)
      (map fst (snd (snd c))) = Some (fst c AND SCHEDI_JOB_METAFLAG_READY \<noteq> 0)"
  using flag_after_history[OF meta_body_executing cas_run_linearisable[OF assms]]
    flag_after_history[OF meta_body_ready cas_run_linearisable[OF assms]]
  by (simp add: flag_clear_iff)

lemma executing_swap_example: "meta_body 0 0 OpMarkExecuting 0x10000001 = CasTry 0x10000005 (0, False)"
  by code_simp

end
