(* ===== verification/Destroy_Queue.thy ===== *)
theory Destroy_Queue
  imports Schedi_Prelude "HOL-Library.Signed_Division"
begin

text \<open>
  The destroy queue of \<^verbatim>\<open>src/src/jobs.c\<close>: a ring of \<^verbatim>\<open>SCHEDI_DQ_SIZE\<close> job pointers
  whose head, tail, count and label are packed in one 64-bit word, updated by
  compare-and-swap. A job pointer is the index of its slot; its address, which
  only goes into the label, is given by a function \<open>addr\<close>. The relation
  \<open>dq_repr\<close> says which sequence of jobs a queue state holds; the operations are
  shown to append to it and to take from its front.
\<close>

unbundle bit_operations_syntax

section \<open>Data\<close>

definition SCHEDI_DQ_SIZE :: nat where
  "SCHEDI_DQ_SIZE = 1024"

record dqueue =
  dq_buf :: "nat option list"
  dq_ready :: "bool list"
  dq_htc :: u64

definition dq_init :: dqueue where
  "dq_init = \<lparr>dq_buf = replicate SCHEDI_DQ_SIZE None,
              dq_ready = replicate SCHEDI_DQ_SIZE False, dq_htc = 0\<rparr>"

text \<open>The macros read the word with an arithmetic shift (\<^verbatim>\<open>long long\<close>) and a 16-bit mask.\<close>

definition HTC_HEAD :: "u64 \<Rightarrow> u64" where
  [field_defs]: "HTC_HEAD x = signed_drop_bit 48 x AND mask 16"
definition HTC_TAIL :: "u64 \<Rightarrow> u64" where
  [field_defs]: "HTC_TAIL x = signed_drop_bit 32 x AND mask 16"
definition HTC_COUNT :: "u64 \<Rightarrow> u64" where
  [field_defs]: "HTC_COUNT x = signed_drop_bit 16 x AND mask 16"
definition HTC_LABEL :: "u64 \<Rightarrow> u64" where
  [field_defs]: "HTC_LABEL x = x AND mask 16"

record HTC =
  h_head :: u32
  h_tail :: u32
  h_count :: u32
  h_label :: u32

definition PACK_HTC :: "HTC \<Rightarrow> u64" where
  "PACK_HTC htc = push_bit 48 (ucast (h_head htc)) OR push_bit 32 (ucast (h_tail htc))
     OR push_bit 16 (ucast (h_count htc)) OR ucast (h_label htc)"

section \<open>Operations\<close>

text \<open>
  \<open>super\<close> selects between \<^verbatim>\<open>dq_push_atomic\<close> (\<open>_des.count += 1\<close>) and
  \<^verbatim>\<open>dq_super_push_atomic\<close> (count unchanged). The result of a successful swap is
  the position to fill. Addresses are signed 64-bit values and \<open>%\<close> truncates, so
  the label arithmetic is on \<open>int\<close> with \<open>smod\<close>.
\<close>

definition new_label :: "u32 \<Rightarrow> u32 \<Rightarrow> int \<Rightarrow> u32 \<Rightarrow> u32" where
  "new_label label k a head =
     word_of_int ((uint (label + k) + a smod 65200 + uint (head mod 5)) smod 65536)"

definition dq_push_body :: "bool \<Rightarrow> int \<Rightarrow> u64 \<Rightarrow> (int + u32, u64) cas_step" where
  "dq_push_body super a htc =
     (let count = ucast (HTC_COUNT htc) :: u32
      in if count \<ge> 1024 then CasReturn (Inl (-1))
         else let old = \<lparr>h_head = ucast (HTC_HEAD htc), h_tail = ucast (HTC_TAIL htc),
                          h_count = count, h_label = ucast (HTC_LABEL htc)\<rparr>;
                  des = old\<lparr>h_head := (h_head old + 1) mod 1024\<rparr>;
                  des = (if super then des else des\<lparr>h_count := h_count des + 1\<rparr>);
                  des = des\<lparr>h_label := new_label (h_label des) 5 a (h_head des)\<rparr>
              in CasTry (PACK_HTC des) (Inr (h_head old)))"

definition dq_push_gen :: "bool \<Rightarrow> (nat \<Rightarrow> int) \<Rightarrow> dqueue \<Rightarrow> nat \<Rightarrow> int \<times> dqueue" where
  "dq_push_gen super addr q job =
     (case cas_seq (dq_push_body super (addr job)) (dq_htc q) of
        (Inl r, _) \<Rightarrow> (r, q)
      | (Inr h, htc') \<Rightarrow>
          (0, q\<lparr>dq_htc := htc', dq_buf := (dq_buf q)[unat h := Some job],
                dq_ready := (dq_ready q)[unat h := True]\<rparr>))"

text \<open>
  The address of the buffered pointer, 0 for NULL. The body also reads the
  \<^verbatim>\<open>ready\<close> flag of the tail and the buffered pointer.
\<close>

definition ptr_addr :: "(nat \<Rightarrow> int) \<Rightarrow> nat option \<Rightarrow> int" where
  "ptr_addr addr p = (case p of None \<Rightarrow> 0 | Some j \<Rightarrow> addr j)"

definition dq_pop_body ::
  "bool \<Rightarrow> (nat \<Rightarrow> int) \<Rightarrow> nat option list \<Rightarrow> bool list \<Rightarrow> u64 \<Rightarrow> (u32 option, u64) cas_step" where
  "dq_pop_body super addr buf rdy htc =
     (let count = ucast (HTC_COUNT htc) :: u32;
          tail = ucast (HTC_TAIL htc) :: u32;
          ready = rdy ! unat tail
      in if count = 0 \<or> \<not> ready then CasReturn None
         else let old = \<lparr>h_head = ucast (HTC_HEAD htc), h_tail = tail,
                          h_count = count, h_label = ucast (HTC_LABEL htc)\<rparr>
              in if h_tail old = h_head old then CasReturn None
                 else let des = old\<lparr>h_tail := (h_tail old + 1) mod 1024\<rparr>;
                          des = (if super then des else des\<lparr>h_count := h_count des - 1\<rparr>);
                          des = des\<lparr>h_label := new_label (h_label des) 3
                                  (ptr_addr addr (buf ! unat tail)) (h_head des)\<rparr>
                      in CasTry (PACK_HTC des) (Some tail))"

definition dq_pop_gen :: "bool \<Rightarrow> (nat \<Rightarrow> int) \<Rightarrow> dqueue \<Rightarrow> nat option \<times> dqueue" where
  "dq_pop_gen super addr q =
     (case cas_seq (dq_pop_body super addr (dq_buf q) (dq_ready q)) (dq_htc q) of
        (None, _) \<Rightarrow> (None, q)
      | (Some t, htc') \<Rightarrow>
          (dq_buf q ! unat t, q\<lparr>dq_htc := htc', dq_ready := (dq_ready q)[unat t := False]\<rparr>))"

definition dq_push :: "(nat \<Rightarrow> int) \<Rightarrow> dqueue \<Rightarrow> nat \<Rightarrow> int \<times> dqueue" where
  "dq_push addr q job = dq_push_gen False addr q job"
definition dq_super_push :: "(nat \<Rightarrow> int) \<Rightarrow> dqueue \<Rightarrow> nat \<Rightarrow> int \<times> dqueue" where
  "dq_super_push addr q job = dq_push_gen True addr q job"
definition dq_pop :: "(nat \<Rightarrow> int) \<Rightarrow> dqueue \<Rightarrow> nat option \<times> dqueue" where
  "dq_pop addr q = dq_pop_gen False addr q"
definition dq_super_pop :: "(nat \<Rightarrow> int) \<Rightarrow> dqueue \<Rightarrow> nat option \<times> dqueue" where
  "dq_super_pop addr q = dq_pop_gen True addr q"

text \<open>
  \<^verbatim>\<open>uint16_t count\<close> is decremented at 16 bits; \<^verbatim>\<open>count<<16\<close> is computed as a signed
  32-bit \<^verbatim>\<open>int\<close> and sign-extended when it is or-ed into the word.
\<close>

definition dq_dec_count_body :: "u64 \<Rightarrow> (unit, u64) cas_step" where
  "dq_dec_count_body htc =
     (let count = (ucast (HTC_COUNT htc) :: u16) - 1;
          shifted = push_bit 16 (ucast count :: u32)
      in CasTry ((htc AND NOT (push_bit 16 (mask 16))) OR scast shifted) ())"

definition dq_dec_count :: "dqueue \<Rightarrow> dqueue" where
  "dq_dec_count q = q\<lparr>dq_htc := snd (cas_seq dq_dec_count_body (dq_htc q))\<rparr>"

section \<open>The packed word\<close>

lemma HTC_fields_bits:
  "bit (HTC_HEAD x) n \<longleftrightarrow> n < 16 \<and> bit x (n + 48)"
  "bit (HTC_TAIL x) n \<longleftrightarrow> n < 16 \<and> bit x (n + 32)"
  "bit (HTC_COUNT x) n \<longleftrightarrow> n < 16 \<and> bit x (n + 16)"
  "bit (HTC_LABEL x) n \<longleftrightarrow> n < 16 \<and> bit x n"
  by (auto simp: field_defs bit_and_iff bit_mask_word bit_signed_drop_bit_iff ac_simps)

lemma HTC_fields_less:
  "unat (HTC_HEAD x) < 65536" "unat (HTC_TAIL x) < 65536"
  "unat (HTC_COUNT x) < 65536" "unat (HTC_LABEL x) < 65536"
proof -
  have "unat ((y :: u64) AND mask 16) < 65536" for y
    using and_mask_less'[of 16 y] by (simp add: word_less_nat_alt)
  then show "unat (HTC_HEAD x) < 65536" "unat (HTC_TAIL x) < 65536"
    "unat (HTC_COUNT x) < 65536" "unat (HTC_LABEL x) < 65536"
    by (simp_all add: field_defs)
qed

lemma unat_ucast_field:
  "unat (x :: u64) < 65536 \<Longrightarrow> unat (ucast x :: u32) = unat x"
  by (rule unat_ucast_small) simp

lemma HTC_PACK:
  assumes "unat (h_head h) < 65536" "unat (h_tail h) < 65536"
    and "unat (h_count h) < 65536" "unat (h_label h) < 65536"
  shows "HTC_HEAD (PACK_HTC h) = ucast (h_head h)" "HTC_TAIL (PACK_HTC h) = ucast (h_tail h)"
    and "HTC_COUNT (PACK_HTC h) = ucast (h_count h)" "HTC_LABEL (PACK_HTC h) = ucast (h_label h)"
proof -
  have b: "bit (h_head h) n \<Longrightarrow> n < 16" "bit (h_tail h) n \<Longrightarrow> n < 16"
    "bit (h_count h) n \<Longrightarrow> n < 16" "bit (h_label h) n \<Longrightarrow> n < 16" for n
    by (rule bit_below; use assms in simp)+
  show "HTC_HEAD (PACK_HTC h) = ucast (h_head h)" "HTC_TAIL (PACK_HTC h) = ucast (h_tail h)"
    "HTC_COUNT (PACK_HTC h) = ucast (h_count h)" "HTC_LABEL (PACK_HTC h) = ucast (h_label h)"
    by (rule bit_word_eqI;
        auto simp: HTC_fields_bits PACK_HTC_def bit_or_iff bit_push_bit_iff bit_ucast_iff dest: b)+
qed

text \<open>The label of a non-negative address stays within its 16 bits.\<close>

lemma new_label_less:
  assumes "0 \<le> a"
  shows "unat (new_label l k a h) < 65536"
proof -
  have s: "0 \<le> x \<Longrightarrow> x smod y = x mod y" if "0 < y" for x y :: int
    using that by (cases "x = 0")
      (simp_all add: signed_modulo_int_def signed_divide_int_def minus_div_mult_eq_mod)
  have "0 \<le> uint (l + k) + a smod 65200 + uint (h mod 5)"
    using assms s[of 65200 a] by simp
  then have "new_label l k a h
      = word_of_int ((uint (l + k) + a smod 65200 + uint (h mod 5)) mod 65536)"
    by (simp add: new_label_def s)
  moreover have "unat (word_of_int (y mod 65536) :: u32) < 65536" for y
    by (simp add: unsigned_of_int take_bit_eq_mod nat_less_iff mod_mod_cancel)
  ultimately show ?thesis by simp
qed

section \<open>The sequence of jobs a queue holds\<close>

abbreviation qhead :: "dqueue \<Rightarrow> nat" where "qhead q \<equiv> unat (HTC_HEAD (dq_htc q))"
abbreviation qtail :: "dqueue \<Rightarrow> nat" where "qtail q \<equiv> unat (HTC_TAIL (dq_htc q))"
abbreviation qcount :: "dqueue \<Rightarrow> nat" where "qcount q \<equiv> unat (HTC_COUNT (dq_htc q))"

text \<open>
  \<open>dq_repr q xs out\<close>: the queue holds the jobs \<open>xs\<close>, oldest first, and \<open>out\<close> more
  have been taken by a super pop and not been put back or counted off yet.
\<close>

definition dq_repr :: "dqueue \<Rightarrow> nat list \<Rightarrow> nat \<Rightarrow> bool" where
  "dq_repr q xs out \<longleftrightarrow>
     length (dq_buf q) = SCHEDI_DQ_SIZE \<and> length (dq_ready q) = SCHEDI_DQ_SIZE
   \<and> qtail q < SCHEDI_DQ_SIZE
   \<and> qhead q = (qtail q + length xs) mod SCHEDI_DQ_SIZE
   \<and> qcount q = length xs + out \<and> length xs + out \<le> SCHEDI_DQ_SIZE
   \<and> (\<forall>k < SCHEDI_DQ_SIZE. dq_ready q ! ((qtail q + k) mod SCHEDI_DQ_SIZE) = (k < length xs))
   \<and> (\<forall>k < length xs. dq_buf q ! ((qtail q + k) mod SCHEDI_DQ_SIZE) = Some (xs ! k))"

lemma dq_repr_init: "dq_repr dq_init [] 0"
  by (simp add: dq_repr_def dq_init_def SCHEDI_DQ_SIZE_def field_defs)

lemma unat_inc_mod:
  "unat (x :: u32) < 1024 \<Longrightarrow> unat ((x + 1) mod 1024) = (unat x + 1) mod 1024"
  by (simp add: unat_mod unat_word_ariths)

text \<open>One push: the word afterwards, and the position that is filled.\<close>

lemma dq_push_body_effect:
  assumes "unat (HTC_COUNT htc) < 1024" "unat (HTC_HEAD htc) < 1024" "0 \<le> a"
  obtains htc' where "dq_push_body super a htc = CasTry htc' (Inr (ucast (HTC_HEAD htc)))"
    and "unat (HTC_HEAD htc') = (unat (HTC_HEAD htc) + 1) mod 1024"
    and "HTC_TAIL htc' = HTC_TAIL htc"
    and "unat (HTC_COUNT htc') = unat (HTC_COUNT htc) + (if super then 0 else 1)"
proof -
  define des where "des = \<lparr>h_head = (ucast (HTC_HEAD htc) + 1) mod 1024, h_tail = ucast (HTC_TAIL htc),
     h_count = (if super then ucast (HTC_COUNT htc) else ucast (HTC_COUNT htc) + 1),
     h_label = new_label (ucast (HTC_LABEL htc)) 5 a ((ucast (HTC_HEAD htc) + 1) mod 1024)\<rparr>"
  note lt = HTC_fields_less[of htc]
  have c: "unat (h_count des) = unat (HTC_COUNT htc) + (if super then 0 else 1)"
    using assms(1) lt by (auto simp: des_def unat_ucast_field unat_word_ariths)
  have h: "unat (h_head des) = (unat (HTC_HEAD htc) + 1) mod 1024"
    using assms(2) by (simp add: des_def unat_inc_mod unat_ucast_field)
  have "unat (h_head des) < 1024" unfolding h by simp
  then have "unat (h_head des) < 65536" by simp
  moreover have "unat (h_tail des) < 65536" using lt by (simp add: des_def unat_ucast_field)
  moreover have "unat (h_count des) < 65536" using c assms(1) by simp
  moreover have "unat (h_label des) < 65536" using assms(3) by (simp add: des_def new_label_less)
  ultimately have pack: "HTC_HEAD (PACK_HTC des) = ucast (h_head des)"
    "HTC_TAIL (PACK_HTC des) = ucast (h_tail des)" "HTC_COUNT (PACK_HTC des) = ucast (h_count des)"
    by (simp_all add: HTC_PACK)
  have "dq_push_body super a htc = CasTry (PACK_HTC des) (Inr (ucast (HTC_HEAD htc)))"
    using assms(1) lt
    by (simp add: dq_push_body_def Let_def des_def word_le_nat_alt unat_ucast_field)
  moreover have "unat (HTC_HEAD (PACK_HTC des)) = (unat (HTC_HEAD htc) + 1) mod 1024"
    using h by (simp add: pack unat_ucast_up)
  moreover have "HTC_TAIL (PACK_HTC des) = HTC_TAIL htc"
    unfolding pack using lt by (simp add: des_def word_unat_eq_iff unat_ucast_up unat_ucast_field)
  moreover have "unat (HTC_COUNT (PACK_HTC des))
      = unat (HTC_COUNT htc) + (if super then 0 else 1)"
    using c by (simp add: pack unat_ucast_up)
  ultimately show ?thesis by (rule that)
qed

lemma dq_pop_body_effect:
  assumes "unat (HTC_COUNT htc) \<noteq> 0" "rdy ! unat (HTC_TAIL htc)" "HTC_TAIL htc \<noteq> HTC_HEAD htc"
    and "unat (HTC_TAIL htc) < 1024" "0 \<le> ptr_addr addr (buf ! unat (HTC_TAIL htc))"
  obtains htc' where "dq_pop_body super addr buf rdy htc = CasTry htc' (Some (ucast (HTC_TAIL htc)))"
    and "HTC_HEAD htc' = HTC_HEAD htc"
    and "unat (HTC_TAIL htc') = (unat (HTC_TAIL htc) + 1) mod 1024"
    and "unat (HTC_COUNT htc') = unat (HTC_COUNT htc) - (if super then 0 else 1)"
proof -
  define des where "des = \<lparr>h_head = ucast (HTC_HEAD htc), h_tail = (ucast (HTC_TAIL htc) + 1) mod 1024,
     h_count = (if super then ucast (HTC_COUNT htc) else ucast (HTC_COUNT htc) - 1),
     h_label = new_label (ucast (HTC_LABEL htc)) 3 (ptr_addr addr (buf ! unat (HTC_TAIL htc)))
       (ucast (HTC_HEAD htc))\<rparr>"
  note lt = HTC_fields_less[of htc]
  have c0: "unat (ucast (HTC_COUNT htc) :: u32) \<noteq> 0" using assms(1) lt by (simp add: unat_ucast_field)
  then have c1: "(ucast (HTC_COUNT htc) :: u32) \<noteq> 0" by (metis unat_0)
  then have "unat ((ucast (HTC_COUNT htc) :: u32) - 1) = unat (HTC_COUNT htc) - 1"
    using lt by (metis unat_0 unat_minus_one unat_ucast_field)
  then have c: "unat (h_count des) = unat (HTC_COUNT htc) - (if super then 0 else 1)"
    using lt by (simp add: des_def unat_ucast_field)
  have t: "unat (h_tail des) = (unat (HTC_TAIL htc) + 1) mod 1024"
    using assms(4) by (simp add: des_def unat_inc_mod unat_ucast_field)
  have "unat (h_tail des) < 1024" unfolding t by simp
  then have "unat (h_tail des) < 65536" by simp
  moreover have "unat (h_head des) < 65536" using lt by (simp add: des_def unat_ucast_field)
  moreover have "unat (h_count des) < 65536" using c lt by simp
  moreover have "unat (h_label des) < 65536" using assms(5) by (simp add: des_def new_label_less)
  ultimately have pack: "HTC_HEAD (PACK_HTC des) = ucast (h_head des)"
    "HTC_TAIL (PACK_HTC des) = ucast (h_tail des)" "HTC_COUNT (PACK_HTC des) = ucast (h_count des)"
    by (simp_all add: HTC_PACK)
  have ne: "(ucast (HTC_TAIL htc) :: u32) \<noteq> ucast (HTC_HEAD htc)"
    using assms(3) lt by (metis unat_ucast_field word_unat_eq_iff)
  have "dq_pop_body super addr buf rdy htc = CasTry (PACK_HTC des) (Some (ucast (HTC_TAIL htc)))"
    using assms(2) lt ne c1
    by (simp add: dq_pop_body_def Let_def des_def unat_ucast_field)
  moreover have "HTC_HEAD (PACK_HTC des) = HTC_HEAD htc"
    unfolding pack using lt by (simp add: des_def word_unat_eq_iff unat_ucast_up unat_ucast_field)
  moreover have "unat (HTC_TAIL (PACK_HTC des)) = (unat (HTC_TAIL htc) + 1) mod 1024"
    using t by (simp add: pack unat_ucast_up)
  moreover have "unat (HTC_COUNT (PACK_HTC des))
      = unat (HTC_COUNT htc) - (if super then 0 else 1)"
    using c by (simp add: pack unat_ucast_up)
  ultimately show ?thesis by (rule that)
qed

subsection \<open>Push appends\<close>

lemma dq_repr_upd_push:
  assumes r: "dq_repr q xs out" and room: "length xs < SCHEDI_DQ_SIZE"
    and h': "unat (HTC_HEAD htc') = (qhead q + 1) mod SCHEDI_DQ_SIZE"
    and t': "HTC_TAIL htc' = HTC_TAIL (dq_htc q)"
    and c': "unat (HTC_COUNT htc') = length xs + 1 + out'" "length xs + 1 + out' \<le> SCHEDI_DQ_SIZE"
  shows "dq_repr (q\<lparr>dq_htc := htc', dq_buf := (dq_buf q)[qhead q := Some j],
      dq_ready := (dq_ready q)[qhead q := True]\<rparr>) (xs @ [j]) out'"
proof -
  let ?N = SCHEDI_DQ_SIZE
  from r have l: "length (dq_buf q) = ?N" "length (dq_ready q) = ?N"
    and t: "qtail q < ?N" and h: "qhead q = (qtail q + length xs) mod ?N"
    and rdy: "\<And>k. k < ?N \<Longrightarrow> dq_ready q ! ((qtail q + k) mod ?N) = (k < length xs)"
    and buf: "\<And>k. k < length xs \<Longrightarrow> dq_buf q ! ((qtail q + k) mod ?N) = Some (xs ! k)"
    by (auto simp: dq_repr_def)
  have N: "0 < ?N" by (simp add: SCHEDI_DQ_SIZE_def)
  have lt: "qhead q < ?N" using N by (simp add: h)
  have idx: "(qtail q + k) mod ?N = qhead q \<longleftrightarrow> k = length xs" if "k < ?N" for k
    using that room by (simp add: h)
  have "unat (HTC_HEAD htc') = (qtail q + length (xs @ [j])) mod ?N"
    by (simp add: h' h mod_Suc_eq)
  moreover have "(dq_ready q)[qhead q := True] ! ((qtail q + k) mod ?N) = (k < length (xs @ [j]))"
    if "k < ?N" for k
    using that rdy[OF that] idx[OF that] l lt by (auto simp: nth_list_update)
  moreover have "(dq_buf q)[qhead q := Some j] ! ((qtail q + k) mod ?N) = Some ((xs @ [j]) ! k)"
    if "k < length (xs @ [j])" for k
    using that room idx[of k] buf[of k] l lt by (auto simp: nth_list_update nth_append)
  ultimately show ?thesis using l t c' by (simp add: dq_repr_def t')
qed

lemma dq_push_gen_repr:
  assumes r: "dq_repr q xs out" and a: "0 \<le> addr j" and room: "qcount q < SCHEDI_DQ_SIZE"
    and out: "super \<Longrightarrow> 0 < out"
  shows "fst (dq_push_gen super addr q j) = 0 \<and>
    dq_repr (snd (dq_push_gen super addr q j)) (xs @ [j]) (if super then out - 1 else out)"
proof -
  have c: "qcount q = length xs + out" "length xs + out \<le> SCHEDI_DQ_SIZE"
    and h: "qhead q < SCHEDI_DQ_SIZE"
    using r by (auto simp: dq_repr_def SCHEDI_DQ_SIZE_def)
  obtain htc' where b: "dq_push_body super (addr j) (dq_htc q) = CasTry htc' (Inr (ucast (HTC_HEAD (dq_htc q))))"
    and h': "unat (HTC_HEAD htc') = (qhead q + 1) mod 1024"
    and t': "HTC_TAIL htc' = HTC_TAIL (dq_htc q)"
    and c': "unat (HTC_COUNT htc') = qcount q + (if super then 0 else 1)"
    using dq_push_body_effect[of "dq_htc q" "addr j" super] room h a
    by (auto simp: SCHEDI_DQ_SIZE_def)
  have u: "unat (ucast (HTC_HEAD (dq_htc q)) :: u32) = qhead q"
    by (simp add: unat_ucast_field HTC_fields_less)
  have "dq_repr (q\<lparr>dq_htc := htc', dq_buf := (dq_buf q)[qhead q := Some j],
      dq_ready := (dq_ready q)[qhead q := True]\<rparr>) (xs @ [j]) (if super then out - 1 else out)"
    by (rule dq_repr_upd_push[OF r]) (use room c c' h' t' out in \<open>auto simp: SCHEDI_DQ_SIZE_def\<close>)
  then show ?thesis using b by (simp add: dq_push_gen_def u)
qed

lemma dq_push_gen_full:
  assumes "SCHEDI_DQ_SIZE \<le> qcount q"
  shows "dq_push_gen super addr q j = (- 1, q)"
proof -
  have "dq_push_body super (addr j) (dq_htc q) = CasReturn (Inl (-1))"
    using assms HTC_fields_less(3)[of "dq_htc q"]
    by (simp add: dq_push_body_def Let_def word_le_nat_alt unat_ucast_field SCHEDI_DQ_SIZE_def)
  then show ?thesis by (simp add: dq_push_gen_def)
qed

subsection \<open>Pop takes from the front\<close>

lemma dq_repr_upd_pop:
  assumes r: "dq_repr q (x # xs) out" and part: "length (x # xs) < SCHEDI_DQ_SIZE"
    and h': "HTC_HEAD htc' = HTC_HEAD (dq_htc q)"
    and t': "unat (HTC_TAIL htc') = (qtail q + 1) mod SCHEDI_DQ_SIZE"
    and c': "unat (HTC_COUNT htc') = length xs + out'" "length xs + out' \<le> SCHEDI_DQ_SIZE"
  shows "dq_repr (q\<lparr>dq_htc := htc', dq_ready := (dq_ready q)[qtail q := False]\<rparr>) xs out'"
proof -
  let ?N = SCHEDI_DQ_SIZE
  from r have l: "length (dq_buf q) = ?N" "length (dq_ready q) = ?N"
    and t: "qtail q < ?N" and h: "qhead q = (qtail q + length (x # xs)) mod ?N"
    and rdy: "\<And>k. k < ?N \<Longrightarrow> dq_ready q ! ((qtail q + k) mod ?N) = (k < length (x # xs))"
    and buf: "\<And>k. k < length (x # xs) \<Longrightarrow>
      dq_buf q ! ((qtail q + k) mod ?N) = Some ((x # xs) ! k)"
    by (auto simp: dq_repr_def)
  have pos: "((qtail q + 1) mod ?N + k) mod ?N = (qtail q + Suc k) mod ?N" for k
    by (simp add: mod_add_left_eq)
  have "(dq_ready q)[qtail q := False] ! ((qtail q + Suc k) mod ?N) = (k < length xs)"
    if "k < ?N" for k
  proof (cases "Suc k < ?N")
    case True
    then have "(qtail q + Suc k) mod ?N \<noteq> qtail q"
      using ring_index_neq_start[of "Suc k" ?N "qtail q"] t by simp
    with rdy[OF True] show ?thesis by simp
  next
    case False
    with that have "Suc k = ?N" by simp
    with t l part show ?thesis by simp
  qed
  moreover have "dq_buf q ! ((qtail q + Suc k) mod ?N) = Some (xs ! k)" if "k < length xs" for k
    using buf[of "Suc k"] that by simp
  moreover have "unat (HTC_TAIL htc') < ?N" by (simp add: t' SCHEDI_DQ_SIZE_def)
  ultimately show ?thesis using l c' h by (simp add: dq_repr_def h' t' pos[simplified])
qed

lemma dq_pop_gen_repr:
  assumes r: "dq_repr q (x # xs) out" and a: "0 \<le> addr x"
    and part: "length (x # xs) < SCHEDI_DQ_SIZE"
  shows "fst (dq_pop_gen super addr q) = Some x \<and>
    dq_repr (snd (dq_pop_gen super addr q)) xs (if super then out + 1 else out)"
proof -
  from r have c: "qcount q = length (x # xs) + out" "length (x # xs) + out \<le> SCHEDI_DQ_SIZE"
    and t: "qtail q < SCHEDI_DQ_SIZE" and h: "qhead q = (qtail q + length (x # xs)) mod SCHEDI_DQ_SIZE"
    and rdy: "dq_ready q ! (qtail q mod SCHEDI_DQ_SIZE)" and buf: "dq_buf q ! (qtail q mod SCHEDI_DQ_SIZE) = Some x"
    by (auto simp: dq_repr_def dest: spec[of _ 0] simp: SCHEDI_DQ_SIZE_def)
  have ne: "HTC_TAIL (dq_htc q) \<noteq> HTC_HEAD (dq_htc q)"
  proof
    assume "HTC_TAIL (dq_htc q) = HTC_HEAD (dq_htc q)"
    then have "(qtail q + length (x # xs)) mod SCHEDI_DQ_SIZE = qtail q mod SCHEDI_DQ_SIZE"
      using h t by simp
    with part show False using ring_index_neq_start[of "length (x # xs)"] by blast
  qed
  obtain htc' where b: "dq_pop_body super addr (dq_buf q) (dq_ready q) (dq_htc q)
      = CasTry htc' (Some (ucast (HTC_TAIL (dq_htc q))))"
    and h': "HTC_HEAD htc' = HTC_HEAD (dq_htc q)"
    and t': "unat (HTC_TAIL htc') = (qtail q + 1) mod 1024"
    and c': "unat (HTC_COUNT htc') = qcount q - (if super then 0 else 1)"
    using dq_pop_body_effect[of "dq_htc q" "dq_ready q" addr "dq_buf q" super] ne c t rdy buf a
    by (auto simp: SCHEDI_DQ_SIZE_def ptr_addr_def)
  have u: "unat (ucast (HTC_TAIL (dq_htc q)) :: u32) = qtail q"
    by (simp add: unat_ucast_field HTC_fields_less)
  have "dq_repr (q\<lparr>dq_htc := htc', dq_ready := (dq_ready q)[qtail q := False]\<rparr>) xs
      (if super then out + 1 else out)"
    by (rule dq_repr_upd_pop[OF r part]) (use c c' h' t' in \<open>auto simp: SCHEDI_DQ_SIZE_def\<close>)
  then show ?thesis using b buf t by (simp add: dq_pop_gen_def u)
qed

lemma dq_pop_gen_empty:
  assumes "dq_repr q [] out"
  shows "dq_pop_gen super addr q = (None, q)"
proof -
  from assms have "\<not> dq_ready q ! qtail q"
    by (auto simp: dq_repr_def dest: spec[of _ 0])
  then have "dq_pop_body super addr (dq_buf q) (dq_ready q) (dq_htc q) = CasReturn None"
    by (simp add: dq_pop_body_def Let_def unat_ucast_field HTC_fields_less)
  then show ?thesis by (simp add: dq_pop_gen_def)
qed

text \<open>
  A queue filled to its last position has head equal to tail, which the
  \<^verbatim>\<open>oversell control\<close> takes for an empty one.
\<close>

lemma dq_pop_gen_full:
  assumes "dq_repr q xs out" "length xs = SCHEDI_DQ_SIZE"
  shows "dq_pop_gen super addr q = (None, q)"
proof -
  from assms have "HTC_HEAD (dq_htc q) = HTC_TAIL (dq_htc q)"
    by (simp add: dq_repr_def word_unat_eq_iff)
  then have "dq_pop_body super addr (dq_buf q) (dq_ready q) (dq_htc q) = CasReturn None"
    by (simp add: dq_pop_body_def Let_def)
  then show ?thesis by (simp add: dq_pop_gen_def)
qed

subsection \<open>Counting a super-popped job off\<close>

lemma dq_dec_count_fields:
  assumes "0 < unat (HTC_COUNT htc)" "unat (HTC_COUNT htc) \<le> 1024"
    and htc': "dq_dec_count_body htc = CasTry htc' ()"
  shows "HTC_HEAD htc' = HTC_HEAD htc" "HTC_TAIL htc' = HTC_TAIL htc"
    and "unat (HTC_COUNT htc') = unat (HTC_COUNT htc) - 1"
proof -
  define c where "c = (ucast (HTC_COUNT htc) :: u16) - 1"
  have u: "unat (ucast (HTC_COUNT htc) :: u16) = unat (HTC_COUNT htc)"
    using assms(2) by (intro unat_ucast_small) simp
  then have "unat c = unat (HTC_COUNT htc) - 1"
    unfolding c_def using assms(1) by (metis less_numeral_extra(3) unat_0 unat_minus_one)
  with assms have c: "unat c = unat (HTC_COUNT htc) - 1" "unat c < 2 ^ 11" by simp_all
  have b: "bit c n \<Longrightarrow> n < 11" for n using c(2) by (rule bit_below)
  have htc'_eq: "htc' = (htc AND NOT (push_bit 16 (mask 16))) OR scast (push_bit 16 (ucast c :: u32))"
    using htc' by (simp add: dq_dec_count_body_def c_def Let_def)
  have bits: "bit htc' n \<longleftrightarrow> (if 16 \<le> n \<and> n < 32 then bit c (n - 16) else bit htc n)"
    if "n < 64" for n
    using that b[of 15] b[of "n - 16"]
    by (auto simp: htc'_eq bit_or_iff bit_and_iff bit_not_iff bit_push_bit_iff bit_mask_word
        bit_signed_iff bit_ucast_iff min_def)
  show "HTC_HEAD htc' = HTC_HEAD htc" "HTC_TAIL htc' = HTC_TAIL htc"
    by (rule bit_word_eqI; auto simp: HTC_fields_bits bits)+
  have "HTC_COUNT htc' = ucast c"
  proof (rule bit_word_eqI)
    fix n
    show "bit (HTC_COUNT htc') n = bit (ucast c :: u64) n" if "n < LENGTH(64)"
      using bits[of "n + 16"] b[of n] that by (auto simp: HTC_fields_bits bit_ucast_iff)
  qed
  then show "unat (HTC_COUNT htc') = unat (HTC_COUNT htc) - 1"
    using c by (simp add: unat_ucast_up)
qed

lemma dq_dec_count_repr:
  assumes "dq_repr q xs (Suc out)"
  shows "dq_repr (dq_dec_count q) xs out"
proof -
  obtain htc' where b: "dq_dec_count_body (dq_htc q) = CasTry htc' ()"
    by (simp add: dq_dec_count_body_def Let_def)
  have c: "qcount q = length xs + Suc out" "length xs + Suc out \<le> SCHEDI_DQ_SIZE"
    using assms by (auto simp: dq_repr_def)
  then have "0 < qcount q" "qcount q \<le> 1024" by (auto simp: SCHEDI_DQ_SIZE_def)
  note f = dq_dec_count_fields[OF this b]
  from assms c show ?thesis by (simp add: dq_repr_def dq_dec_count_def b f)
qed

section \<open>The contract of a bounded FIFO\<close>

text \<open>
  What the rest of the program relies on. \<open>repr q xs\<close> relates a queue to the jobs
  in it; \<open>cap\<close> is the number of jobs that can be pushed. A pop is only promised
  to succeed below \<open>cap\<close>.
\<close>

locale bounded_fifo =
  fixes repr :: "'q \<Rightarrow> nat list \<Rightarrow> bool"
    and push :: "'q \<Rightarrow> nat \<Rightarrow> int \<times> 'q"
    and pop :: "'q \<Rightarrow> nat option \<times> 'q"
    and cap :: nat
  assumes push_ok: "repr q xs \<Longrightarrow> length xs < cap \<Longrightarrow>
      fst (push q j) = 0 \<and> repr (snd (push q j)) (xs @ [j])"
    and push_full: "repr q xs \<Longrightarrow> length xs = cap \<Longrightarrow> push q j = (-1, q)"
    and pop_ok: "repr q (x # xs) \<Longrightarrow> length (x # xs) < cap \<Longrightarrow>
      fst (pop q) = Some x \<and> repr (snd (pop q)) xs"
    and pop_empty: "repr q [] \<Longrightarrow> pop q = (None, q)"
begin

fun push_all :: "'q \<Rightarrow> nat list \<Rightarrow> 'q" where
  "push_all q [] = q"
| "push_all q (j # js) = push_all (snd (push q j)) js"

fun pop_all :: "'q \<Rightarrow> nat \<Rightarrow> nat list \<times> 'q" where
  "pop_all q 0 = ([], q)"
| "pop_all q (Suc n) =
     (case pop q of
        (None, q') \<Rightarrow> ([], q')
      | (Some j, q') \<Rightarrow> let (js, q'') = pop_all q' n in (j # js, q''))"

lemma repr_push_all:
  "repr q xs \<Longrightarrow> length (xs @ js) \<le> cap \<Longrightarrow> repr (push_all q js) (xs @ js)"
proof (induction js arbitrary: q xs)
  case (Cons j js)
  then have "repr (snd (push q j)) (xs @ [j])" using push_ok[of q xs j] by simp
  from Cons.IH[OF this] Cons.prems(2) show ?case by simp
qed simp

lemma pop_all_repr:
  "repr q (js @ xs) \<Longrightarrow> length (js @ xs) < cap \<Longrightarrow>
    fst (pop_all q (length js)) = js \<and> repr (snd (pop_all q (length js))) xs"
proof (induction js arbitrary: q)
  case (Cons j js)
  then have p: "fst (pop q) = Some j" "repr (snd (pop q)) (js @ xs)"
    using pop_ok[of q j "js @ xs"] by simp_all
  with Cons.IH[OF p(2)] Cons.prems(2) show ?case
    by (cases "pop q") (simp add: case_prod_beta)
qed simp

lemma fifo_order:
  assumes "repr q []" "length js < cap"
  shows "fst (pop_all (push_all q js) (length js)) = js"
    and "repr (snd (pop_all (push_all q js) (length js))) []"
  using pop_all_repr[of "push_all q js" js "[]"] repr_push_all[of q "[]" js] assms by simp_all

end

text \<open>The addresses of jobs are user-space addresses, so non-negative as signed 64-bit values.\<close>

definition addr_ok :: "(nat \<Rightarrow> int) \<Rightarrow> bool" where
  "addr_ok addr \<longleftrightarrow> (\<forall>j. 0 \<le> addr j)"

lemma addr_okD [simp]: "addr_ok addr \<Longrightarrow> 0 \<le> addr j"
  by (simp add: addr_ok_def)

lemma dq_push_repr:
  assumes "addr_ok addr" "dq_repr q xs out" "length xs + out < SCHEDI_DQ_SIZE"
  shows "fst (dq_push addr q j) = 0 \<and> dq_repr (snd (dq_push addr q j)) (xs @ [j]) out"
  using dq_push_gen_repr[where addr = addr and super = False and j = j, OF assms(2)] assms
  by (simp add: dq_push_def dq_repr_def)

lemma dq_push_at_capacity:
  assumes "dq_repr q xs out" "length xs + out = SCHEDI_DQ_SIZE"
  shows "dq_push addr q j = (- 1, q)"
  using dq_push_gen_full[of q False addr j] assms by (simp add: dq_push_def dq_repr_def)

lemma dq_pop_repr:
  assumes "addr_ok addr" "dq_repr q (x # xs) out" "length (x # xs) < SCHEDI_DQ_SIZE"
  shows "fst (dq_pop addr q) = Some x \<and> dq_repr (snd (dq_pop addr q)) xs out"
  using dq_pop_gen_repr[where addr = addr and super = False, OF assms(2)] assms
  by (simp add: dq_pop_def)

lemma dq_pop_at_empty: "dq_repr q [] out \<Longrightarrow> dq_pop addr q = (None, q)"
  using dq_pop_gen_empty[of q out False addr] by (simp add: dq_pop_def)

lemma dq_super_push_repr:
  assumes "addr_ok addr" "dq_repr q xs (Suc out)" "length xs + Suc out < SCHEDI_DQ_SIZE"
  shows "fst (dq_super_push addr q j) = 0 \<and> dq_repr (snd (dq_super_push addr q j)) (xs @ [j]) out"
  using dq_push_gen_repr[where addr = addr and super = True and j = j, OF assms(2)] assms
  by (simp add: dq_super_push_def dq_repr_def)

lemma dq_super_pop_repr:
  assumes "addr_ok addr" "dq_repr q (x # xs) out" "length (x # xs) < SCHEDI_DQ_SIZE"
  shows "fst (dq_super_pop addr q) = Some x \<and> dq_repr (snd (dq_super_pop addr q)) xs (Suc out)"
  using dq_pop_gen_repr[where addr = addr and super = True, OF assms(2)] assms
  by (simp add: dq_super_pop_def)

lemma dq_super_pop_at_empty: "dq_repr q [] out \<Longrightarrow> dq_super_pop addr q = (None, q)"
  using dq_pop_gen_empty[of q out True addr] by (simp add: dq_super_pop_def)

text \<open>The queue of the sources keeps the contract, for every non-negative address map.\<close>

interpretation dq_fifo: bounded_fifo "\<lambda>q xs. dq_repr q xs 0" "dq_push (\<lambda>j. int (addr j))"
    "dq_pop (\<lambda>j. int (addr j))" SCHEDI_DQ_SIZE
  for addr :: "nat \<Rightarrow> nat"
  by unfold_locales
    (simp_all add: dq_push_repr dq_push_at_capacity dq_pop_repr dq_pop_at_empty addr_ok_def)

section \<open>Properties\<close>



text \<open>
  A completely full destroy queue is stuck: with \<^verbatim>\<open>SCHEDI_DQ_SIZE\<close> jobs in it
  head and tail coincide, so push reports it full and both pops report it empty,
  and none of them changes anything.
\<close>

lemma dq_full_is_stuck:
  assumes "dq_repr q xs 0" "length xs = SCHEDI_DQ_SIZE"
  shows "dq_push addr q j = (-1, q) \<and> dq_pop addr q = (None, q) \<and> dq_super_pop addr q = (None, q)"
  using dq_push_at_capacity[OF assms(1), of addr j] dq_pop_gen_full[OF assms(1), where addr = addr] assms(2)
  by (simp add: dq_pop_def dq_super_pop_def)

end
