(* ===== verification/Job_Data.thy ===== *)
theory Job_Data
  imports Meta_Flag Destroy_Queue
begin

text \<open>
  The data of \<^verbatim>\<open>src/include/schedi/jobs.h\<close> and the static state of
  \<^verbatim>\<open>src/src/jobs.c\<close>. A job pointer is the index of its slot in the job array and
  NULL is \<open>None\<close>; the array is a store from indices to jobs. Function and
  context pointers are opaque numbers; calls of a destructor are recorded in
  \<open>dtor_calls\<close>. \<open>readyjob_signals\<close> counts the signals sent on
  \<^verbatim>\<open>readyjob_cond\<close>.
\<close>

definition SCHEDI_MAXIMUM_JOBS :: nat where
  "SCHEDI_MAXIMUM_JOBS = 256"
definition SCHEDI_MAXIMUM_EMPTY_SECTIONS :: nat where
  "SCHEDI_MAXIMUM_EMPTY_SECTIONS = 64"
definition SCHEDI_JOBS_CACHE_CHECK :: nat where
  "SCHEDI_JOBS_CACHE_CHECK = 16"
definition SCHEDI_JOB_ARRAY_SECTION_WARN :: u32 where
  "SCHEDI_JOB_ARRAY_SECTION_WARN = 1"
definition SCHEDI_JOB_ARRAY_FULL :: u32 where
  "SCHEDI_JOB_ARRAY_FULL = push_bit 2 1"

datatype job_state =
    schedi_job_state_nulljob
  | schedi_job_state_suspended
  | schedi_job_state_readywaiting
  | schedi_job_state_working
  | schedi_job_state_destroying

record job =
  phase :: int
  gen :: u64
  state :: job_state
  meta_flag :: u32
  total_req :: u32
  ret_count :: u32
  err_count :: u32
  required_available_sockets :: int
  requested_job :: "nat option"
  requested_job_gen :: u64
  required_available_jobs :: int
  completion_indicator :: "nat option"
  run_fn :: nat
  job_context :: nat
  dtor :: "nat option"

record schedi_section =
  sec_a :: nat
  sec_b :: nat
  active :: bool

record job_array =
  jobs :: "nat \<Rightarrow> job"
  empty_sections :: "schedi_section list"
  ja_flags :: u32
  reorganize_counter :: u32
  ready_jobs_cache :: "nat option list"
  job_count :: u64

text \<open>
  The state of the job system: the job array, the destroy queue, and what the
  operations do to the outside: signals, destructor calls and the
  \<^verbatim>\<open>completion\<close> fields of the completion indicators.
\<close>

record jobsys = job_array +
  destroy_q :: dqueue
  readyjob_signals :: nat
  dtor_calls :: "(nat \<times> nat) list"
  completed :: "nat \<Rightarrow> bool"

text \<open>
  The build options of the sources, the value that
  \<^verbatim>\<open>pthread_mutex_unlock(&readyjob_mutex)\<close> returns, and the addresses of the
  slots of the job array (the labels of the destroy queue are computed from them).
\<close>

record build =
  lockless_readyjob :: bool
  ext_timeout :: bool
  readyjob_unlock_ret :: int
  job_addr :: "nat \<Rightarrow> int"

text \<open>Static storage: every slot, section, cache entry and counter is zero.\<close>

definition null_job :: job where
  "null_job = \<lparr>phase = 0, gen = 0, state = schedi_job_state_nulljob, meta_flag = 0,
     total_req = 0, ret_count = 0, err_count = 0, required_available_sockets = 0,
     requested_job = None, requested_job_gen = 0, required_available_jobs = 0,
     completion_indicator = None, run_fn = 0, job_context = 0, dtor = None\<rparr>"

definition null_section :: schedi_section where
  "null_section = \<lparr>sec_a = 0, sec_b = 0, active = False\<rparr>"

definition static_jobsys :: jobsys where
  "static_jobsys = \<lparr>jobs = (\<lambda>_. null_job),
     empty_sections = replicate SCHEDI_MAXIMUM_EMPTY_SECTIONS null_section,
     ja_flags = 0, reorganize_counter = 0,
     ready_jobs_cache = replicate SCHEDI_MAXIMUM_JOBS None, job_count = 0,
     destroy_q = dq_init, readyjob_signals = 0, dtor_calls = [], completed = (\<lambda>_. False)\<rparr>"

section \<open>Access to one job\<close>

definition upd_job :: "nat \<Rightarrow> (job \<Rightarrow> job) \<Rightarrow> 'a job_array_scheme \<Rightarrow> 'a job_array_scheme" where
  "upd_job j f s = s\<lparr>jobs := (jobs s)(j := f (jobs s j))\<rparr>"

lemma upd_job_simps [simp]:
  "jobs (upd_job j f s) = (jobs s)(j := f (jobs s j))"
  "empty_sections (upd_job j f s) = empty_sections s"
  "ja_flags (upd_job j f s) = ja_flags s"
  "reorganize_counter (upd_job j f s) = reorganize_counter s"
  "ready_jobs_cache (upd_job j f s) = ready_jobs_cache s"
  "job_count (upd_job j f s) = job_count s"
  by (simp_all add: upd_job_def)

lemma upd_job_sys_simps [simp]:
  "destroy_q (upd_job j f s) = destroy_q s"
  "readyjob_signals (upd_job j f s) = readyjob_signals s"
  "dtor_calls (upd_job j f s) = dtor_calls s"
  "completed (upd_job j f s) = completed s"
  by (simp_all add: upd_job_def)

text \<open>A compare-and-swap loop on the meta flag of a job, without interference.\<close>

definition meta_cas ::
  "(u32 \<Rightarrow> ('r, u32) cas_step) \<Rightarrow> 'a job_array_scheme \<Rightarrow> nat \<Rightarrow> 'r \<times> 'a job_array_scheme" where
  "meta_cas body s j =
     (let (r, m) = cas_seq body (meta_flag (jobs s j))
      in (r, upd_job j (\<lambda>x. x\<lparr>meta_flag := m\<rparr>) s))"

end
