(* ===== verification/Slot_Sections.thy ===== *)
theory Slot_Sections
  imports Job_Data
begin

text \<open>
  The allocator of job slots (\<^verbatim>\<open>sections_init\<close>, \<^verbatim>\<open>section_claim\<close>,
  \<^verbatim>\<open>section_release\<close> of \<^verbatim>\<open>src/src/jobs.c\<close>): free slots are kept as half-open
  intervals in a table of \<^verbatim>\<open>SCHEDI_MAXIMUM_EMPTY_SECTIONS\<close> entries. The two
  loops over the table are recursions over it. The locale \<open>slot_allocator\<close>
  states what the job system relies on.
\<close>

section \<open>Operations\<close>

definition sections_init :: "'a job_array_scheme \<Rightarrow> 'a job_array_scheme" where
  "sections_init s = s\<lparr>empty_sections :=
     (empty_sections s)[0 := \<lparr>sec_a = 0, sec_b = SCHEDI_MAXIMUM_JOBS, active = True\<rparr>]\<rparr>"

fun claim_scan :: "schedi_section list \<Rightarrow> (nat \<times> schedi_section list) option" where
  "claim_scan [] = None"
| "claim_scan (s # ss) =
     (if \<not> active s then map_option (\<lambda>(i, ss'). (i, s # ss')) (claim_scan ss)
      else let idx = sec_a s;
               s1 = s\<lparr>sec_a := sec_a s + 1\<rparr>;
               s2 = (if sec_a s1 \<ge> sec_b s1 then s1\<lparr>active := False\<rparr> else s1)
           in Some (idx, s2 # ss))"

definition section_claim :: "'a job_array_scheme \<Rightarrow> nat option \<times> 'a job_array_scheme" where
  "section_claim s =
     (case claim_scan (empty_sections s) of
        None \<Rightarrow> (None, s)
      | Some (idx, ss) \<Rightarrow>
          (Some idx, upd_job idx (\<lambda>j. j\<lparr>meta_flag := SCHEDI_JOB_METAFLAG_UNSTABLE\<rparr>)
                       (s\<lparr>empty_sections := ss\<rparr>)))"

text \<open>The first loop of \<^verbatim>\<open>section_release\<close>: grow the first adjacent section.\<close>

fun release_merge :: "nat \<Rightarrow> schedi_section list \<Rightarrow> schedi_section list option" where
  "release_merge idx [] = None"
| "release_merge idx (s # ss) =
     (if \<not> active s then map_option ((#) s) (release_merge idx ss)
      else if idx + 1 = sec_a s then Some (s\<lparr>sec_a := idx\<rparr> # ss)
      else if sec_b s = idx then Some (s\<lparr>sec_b := idx + 1\<rparr> # ss)
      else map_option ((#) s) (release_merge idx ss))"

text \<open>The second loop: open a new section in the first inactive entry.\<close>

fun release_insert :: "nat \<Rightarrow> schedi_section list \<Rightarrow> schedi_section list option" where
  "release_insert idx [] = None"
| "release_insert idx (s # ss) =
     (if active s then map_option ((#) s) (release_insert idx ss)
      else Some (s\<lparr>sec_a := idx, sec_b := idx + 1, active := True\<rparr> # ss))"

definition section_release :: "'a job_array_scheme \<Rightarrow> nat \<Rightarrow> 'a job_array_scheme" where
  "section_release s idx =
     (case release_merge idx (empty_sections s) of
        Some ss \<Rightarrow> s\<lparr>empty_sections := ss\<rparr>
      | None \<Rightarrow>
          (case release_insert idx (empty_sections s) of
             Some ss \<Rightarrow> s\<lparr>empty_sections := ss\<rparr>
           | None \<Rightarrow> s\<lparr>ja_flags := ja_flags s OR SCHEDI_JOB_ARRAY_SECTION_WARN\<rparr>))"

section \<open>The free slots\<close>

definition sec_set :: "schedi_section \<Rightarrow> nat set" where
  "sec_set s = (if active s then {sec_a s ..< sec_b s} else {})"

definition free_set :: "schedi_section list \<Rightarrow> nat set" where
  "free_set ss = (\<Union>s \<in> set ss. sec_set s)"

lemma free_set_simps [simp]:
  "free_set [] = {}" "free_set (s # ss) = sec_set s \<union> free_set ss"
  by (auto simp: free_set_def)

text \<open>Every active section is non-empty and within the array, and no two overlap.\<close>

fun sections_wf :: "schedi_section list \<Rightarrow> bool" where
  "sections_wf [] = True"
| "sections_wf (s # ss) =
     ((active s \<longrightarrow> sec_a s < sec_b s \<and> sec_b s \<le> SCHEDI_MAXIMUM_JOBS)
      \<and> sec_set s \<inter> free_set ss = {} \<and> sections_wf ss)"

abbreviation free_slots :: "'a job_array_scheme \<Rightarrow> nat set" where
  "free_slots s \<equiv> free_set (empty_sections s)"

definition sections_ok :: "'a job_array_scheme \<Rightarrow> bool" where
  "sections_ok s \<longleftrightarrow> sections_wf (empty_sections s)
     \<and> length (empty_sections s) = SCHEDI_MAXIMUM_EMPTY_SECTIONS"

lemma free_set_bound: "sections_wf ss \<Longrightarrow> i \<in> free_set ss \<Longrightarrow> i < SCHEDI_MAXIMUM_JOBS"
  by (induction ss) (auto simp: sec_set_def split: if_splits)

lemma free_set_replicate_null [simp]: "free_set (replicate n null_section) = {}"
  by (induction n) (auto simp: null_section_def sec_set_def)

lemma sections_wf_replicate_null [simp]: "sections_wf (replicate n null_section)"
  by (induction n) (auto simp: null_section_def sec_set_def)

lemma sections_init_ok:
  assumes "empty_sections s = replicate SCHEDI_MAXIMUM_EMPTY_SECTIONS null_section"
  shows "sections_ok (sections_init s)" "free_slots (sections_init s) = {..<SCHEDI_MAXIMUM_JOBS}"
proof -
  have "replicate SCHEDI_MAXIMUM_EMPTY_SECTIONS null_section
      = null_section # replicate (SCHEDI_MAXIMUM_EMPTY_SECTIONS - 1) null_section"
    by (simp add: SCHEDI_MAXIMUM_EMPTY_SECTIONS_def flip: replicate_Suc)
  then have "empty_sections (sections_init s)
      = \<lparr>sec_a = 0, sec_b = SCHEDI_MAXIMUM_JOBS, active = True\<rparr>
        # replicate (SCHEDI_MAXIMUM_EMPTY_SECTIONS - 1) null_section"
    using assms by (simp add: sections_init_def)
  then show "sections_ok (sections_init s)" "free_slots (sections_init s) = {..<SCHEDI_MAXIMUM_JOBS}"
    by (auto simp: sections_ok_def sec_set_def SCHEDI_MAXIMUM_JOBS_def
        SCHEDI_MAXIMUM_EMPTY_SECTIONS_def)
qed

subsection \<open>Claim\<close>

lemma claim_scan_None: "sections_wf ss \<Longrightarrow> claim_scan ss = None \<longleftrightarrow> free_set ss = {}"
  by (induction ss) (auto simp: sec_set_def Let_def)

lemma claim_scan_Some:
  "claim_scan ss = Some (i, ss') \<Longrightarrow> sections_wf ss \<Longrightarrow>
    i \<in> free_set ss \<and> free_set ss' = free_set ss - {i} \<and> sections_wf ss' \<and> length ss' = length ss"
proof (induction ss arbitrary: ss')
  case (Cons s ss)
  show ?case
  proof (cases "active s")
    case True
    with Cons.prems(2) have "sec_set s = insert (sec_a s) {sec_a s + 1 ..< sec_b s}"
      by (auto simp: sec_set_def)
    with Cons.prems True show ?thesis
      by (auto simp: Let_def sec_set_def split: if_splits)
  next
    case False
    with Cons.prems obtain ss0 where "claim_scan ss = Some (i, ss0)" "ss' = s # ss0" by auto
    with Cons.IH[of ss0] Cons.prems(2) False show ?thesis by (auto simp: sec_set_def)
  qed
qed simp

subsection \<open>Release\<close>

lemma release_merge_Some:
  "release_merge i ss = Some ss' \<Longrightarrow> sections_wf ss \<Longrightarrow> i \<notin> free_set ss \<Longrightarrow>
    i < SCHEDI_MAXIMUM_JOBS \<Longrightarrow>
    free_set ss' = insert i (free_set ss) \<and> sections_wf ss' \<and> length ss' = length ss"
proof (induction ss arbitrary: ss')
  case (Cons s ss)
  consider (skip) ss0 where "release_merge i ss = Some ss0" "ss' = s # ss0"
    | (low) "active s" "i + 1 = sec_a s" "ss' = s\<lparr>sec_a := i\<rparr> # ss"
    | (high) "active s" "sec_b s = i" "ss' = s\<lparr>sec_b := i + 1\<rparr> # ss"
    using Cons.prems(1) by (auto split: if_splits)
  then show ?case
  proof cases
    case skip
    with Cons.IH[of ss0] Cons.prems show ?thesis by (auto simp: sec_set_def)
  next
    case low
    then have "sec_set (s\<lparr>sec_a := i\<rparr>) = insert i (sec_set s)"
      using Cons.prems(2) by (auto simp: sec_set_def)
    with low Cons.prems show ?thesis by auto
  next
    case high
    then have "sec_set (s\<lparr>sec_b := i + 1\<rparr>) = insert i (sec_set s)"
      using Cons.prems(2) by (auto simp: sec_set_def)
    with high Cons.prems show ?thesis by auto
  qed
qed simp

lemma release_insert_Some:
  "release_insert i ss = Some ss' \<Longrightarrow> sections_wf ss \<Longrightarrow> i \<notin> free_set ss \<Longrightarrow>
    i < SCHEDI_MAXIMUM_JOBS \<Longrightarrow>
    free_set ss' = insert i (free_set ss) \<and> sections_wf ss' \<and> length ss' = length ss"
proof (induction ss arbitrary: ss')
  case (Cons s ss)
  show ?case
  proof (cases "active s")
    case True
    with Cons.prems(1) obtain ss0 where "release_insert i ss = Some ss0" "ss' = s # ss0" by auto
    with Cons.IH[of ss0] Cons.prems(2-4) show ?thesis by auto
  next
    case False
    with Cons.prems show ?thesis by (auto simp: sec_set_def)
  qed
qed simp

lemma release_insert_None: "release_insert i ss = None \<longleftrightarrow> (\<forall>s \<in> set ss. active s)"
  by (induction ss) auto

lemma release_merge_None:
  "release_merge i ss = None \<longleftrightarrow> (\<forall>s \<in> set ss. active s \<longrightarrow> i + 1 \<noteq> sec_a s \<and> sec_b s \<noteq> i)"
  by (induction ss) auto

text \<open>
  The slot is lost, and SECTION_WARN raised instead, exactly when the table has
  no inactive entry and no section is adjacent to the slot.
\<close>

definition release_leaks :: "'a job_array_scheme \<Rightarrow> nat \<Rightarrow> bool" where
  "release_leaks s i \<longleftrightarrow> (\<forall>x \<in> set (empty_sections s). active x \<and> i + 1 \<noteq> sec_a x \<and> sec_b x \<noteq> i)"

lemma section_release_effect:
  assumes "sections_ok s" "i \<notin> free_slots s" "i < SCHEDI_MAXIMUM_JOBS"
  shows "sections_ok (section_release s i)"
    and "free_slots (section_release s i) =
      (if release_leaks s i then free_slots s else insert i (free_slots s))"
    and "ja_flags (section_release s i) =
      (if release_leaks s i then ja_flags s OR SCHEDI_JOB_ARRAY_SECTION_WARN else ja_flags s)"
proof -
  note w = assms(1)[unfolded sections_ok_def, THEN conjunct1]
  have l: "release_leaks s i \<longleftrightarrow>
      release_merge i (empty_sections s) = None \<and> release_insert i (empty_sections s) = None"
    by (auto simp: release_leaks_def release_merge_None release_insert_None)
  note m = release_merge_Some[OF _ w assms(2,3)] and n = release_insert_Some[OF _ w assms(2,3)]
  show "sections_ok (section_release s i)"
    using assms(1) m n by (auto simp: section_release_def sections_ok_def split: option.split)
  show "free_slots (section_release s i) =
      (if release_leaks s i then free_slots s else insert i (free_slots s))"
    using m n by (auto simp: section_release_def l split: option.split)
  show "ja_flags (section_release s i) =
      (if release_leaks s i then ja_flags s OR SCHEDI_JOB_ARRAY_SECTION_WARN else ja_flags s)"
    by (auto simp: section_release_def l split: option.split)
qed

lemma section_claim_None:
  assumes "sections_ok s"
  shows "fst (section_claim s) = None \<longleftrightarrow> free_slots s = {}"
  using claim_scan_None[of "empty_sections s"] assms
  by (auto simp: section_claim_def sections_ok_def split: option.splits)

lemma section_claim_Some:
  assumes "sections_ok s" "fst (section_claim s) = Some i"
  shows "i \<in> free_slots s" "free_slots (snd (section_claim s)) = free_slots s - {i}"
    and "sections_ok (snd (section_claim s))"
    and "jobs (snd (section_claim s))
      = (jobs s)(i := (jobs s i)\<lparr>meta_flag := SCHEDI_JOB_METAFLAG_UNSTABLE\<rparr>)"
  using assms claim_scan_Some[of "empty_sections s" i]
  by (auto simp: section_claim_def sections_ok_def split: option.splits)

lemma section_claim_None_same: "fst (section_claim s) = None \<Longrightarrow> snd (section_claim s) = s"
  by (auto simp: section_claim_def split: option.splits)

text \<open>Frames: what the allocator does not touch.\<close>

lemma section_release_frame [simp]:
  "jobs (section_release s i) = jobs s"
  "ready_jobs_cache (section_release s i) = ready_jobs_cache s"
  "job_count (section_release s i) = job_count s"
  "reorganize_counter (section_release s i) = reorganize_counter s"
  by (simp_all add: section_release_def split: option.split)

lemma section_release_sys_frame [simp]:
  "destroy_q (section_release s i) = destroy_q s"
  "readyjob_signals (section_release s i) = readyjob_signals s"
  "dtor_calls (section_release s i) = dtor_calls s"
  "completed (section_release s i) = completed s"
  by (simp_all add: section_release_def split: option.split)

lemma section_claim_frame [simp]:
  "ready_jobs_cache (snd (section_claim s)) = ready_jobs_cache s"
  "job_count (snd (section_claim s)) = job_count s"
  "reorganize_counter (snd (section_claim s)) = reorganize_counter s"
  "ja_flags (snd (section_claim s)) = ja_flags s"
  by (simp_all add: section_claim_def split: option.split prod.split)

lemma section_claim_sys_frame [simp]:
  "destroy_q (snd (section_claim s)) = destroy_q s"
  "readyjob_signals (snd (section_claim s)) = readyjob_signals s"
  "dtor_calls (snd (section_claim s)) = dtor_calls s"
  "completed (snd (section_claim s)) = completed s"
  by (simp_all add: section_claim_def split: option.split prod.split)

section \<open>The contract of a slot allocator\<close>

text \<open>
  A client claims slots and gives back slots that it holds, in any order;
  \<open>alloc_session\<close> are the states it can reach and the slots it then holds.
\<close>

inductive alloc_session ::
  "('s \<Rightarrow> nat option \<times> 's) \<Rightarrow> ('s \<Rightarrow> nat \<Rightarrow> 's) \<Rightarrow> 's \<Rightarrow> 's \<Rightarrow> nat set \<Rightarrow> bool"
  for claim release s0
where
  start: "alloc_session claim release s0 s0 {}"
| claim: "alloc_session claim release s0 s H \<Longrightarrow> claim s = (Some i, s') \<Longrightarrow>
    alloc_session claim release s0 s' (insert i H)"
| release: "alloc_session claim release s0 s H \<Longrightarrow> i \<in> H \<Longrightarrow>
    alloc_session claim release s0 (release s i) (H - {i})"

locale slot_allocator =
  fixes claim :: "'s \<Rightarrow> nat option \<times> 's"
    and release :: "'s \<Rightarrow> nat \<Rightarrow> 's"
    and free :: "'s \<Rightarrow> nat set"
    and inv :: "'s \<Rightarrow> bool"
    and cap :: nat
  assumes free_bound: "inv s \<Longrightarrow> i \<in> free s \<Longrightarrow> i < cap"
    and claim_None: "inv s \<Longrightarrow> fst (claim s) = None \<longleftrightarrow> free s = {}"
    and claim_Some: "inv s \<Longrightarrow> claim s = (Some i, s') \<Longrightarrow>
      i \<in> free s \<and> free s' = free s - {i} \<and> inv s'"
    and release: "inv s \<Longrightarrow> i \<notin> free s \<Longrightarrow> i < cap \<Longrightarrow>
      inv (release s i) \<and> free (release s i) \<subseteq> insert i (free s)"
begin

lemma session_sound:
  assumes "alloc_session claim release s0 s H" "inv s0"
  shows "inv s \<and> H \<inter> free s = {} \<and> H \<subseteq> {..<cap}"
  using assms
proof (induction rule: alloc_session.induct)
  case (claim s H i s')
  then show ?case using claim_Some[of s i s'] free_bound[of s i] by auto
next
  case (release s H i)
  then have "i \<notin> free s" "i < cap" "inv s" by auto
  with release show ?case using slot_allocator.release[OF slot_allocator_axioms, of s i] by fastforce
qed simp

lemma never_claimed_twice:
  assumes "alloc_session claim release s0 s H" "inv s0" "claim s = (Some i, s')"
  shows "i \<notin> H \<and> i < cap"
  using session_sound[OF assms(1,2)] claim_Some[of s i s'] free_bound[of s i] assms(3) by auto

lemma session_bounded:
  assumes "alloc_session claim release s0 s H" "inv s0"
  shows "card H \<le> cap"
  using session_sound[OF assms] card_mono[of "{..<cap}" H] by simp

end

interpretation sections: slot_allocator section_claim section_release free_slots sections_ok
    SCHEDI_MAXIMUM_JOBS
proof unfold_locales
  fix s s' :: "'a job_array_scheme" and i
  show "i \<in> free_slots s \<Longrightarrow> i < SCHEDI_MAXIMUM_JOBS" if "sections_ok s"
    using that free_set_bound by (auto simp: sections_ok_def)
  show "fst (section_claim s) = None \<longleftrightarrow> free_slots s = {}" if "sections_ok s"
    using that by (rule section_claim_None)
  show "i \<in> free_slots s \<and> free_slots s' = free_slots s - {i} \<and> sections_ok s'"
    if "sections_ok s" "section_claim s = (Some i, s')"
    using section_claim_Some[of s i] that by simp
  show "sections_ok (section_release s i)
      \<and> free_slots (section_release s i) \<subseteq> insert i (free_slots s)"
    if "sections_ok s" "i \<notin> free_slots s" "i < SCHEDI_MAXIMUM_JOBS"
    using section_release_effect[OF that] by auto
qed

section \<open>Properties\<close>

text \<open>
  C11: The slot allocator never hands out a slot that is in use: in every sequence
  of claims and releases of claimed slots from initialisation on, a claimed slot
  is a slot of the array that is not held already, a claim fails only when no
  free slot is recorded, and at most \<^verbatim>\<open>SCHEDI_MAXIMUM_JOBS\<close> slots are held.
\<close>

theorem slots_claimed_once:
  fixes s :: jobsys
  assumes "alloc_session section_claim section_release (sections_init static_jobsys) s H"
  shows "card H \<le> SCHEDI_MAXIMUM_JOBS \<and> H \<inter> free_slots s = {}
    \<and> (case fst (section_claim s) of
         None \<Rightarrow> free_slots s = {}
       | Some i \<Rightarrow> i < SCHEDI_MAXIMUM_JOBS \<and> i \<notin> H)"
proof -
  have ok: "sections_ok (sections_init static_jobsys)"
    using sections_init_ok(1)[of static_jobsys] by (simp add: static_jobsys_def)
  note sound = sections.session_sound[OF assms ok]
  show ?thesis
    using sound sections.session_bounded[OF assms ok] section_claim_None[of s]
      sections.never_claimed_twice[OF assms ok, of _ "snd (section_claim s)"]
    by (cases "section_claim s") (auto split: option.split)
qed

lemma first_claim: "fst (section_claim (sections_init static_jobsys)) = Some 0"
  by code_simp

theorem slots_claimed_once_witness:
  "\<exists>s. alloc_session section_claim section_release (sections_init static_jobsys) s {0}
     \<and> (case fst (section_claim s) of None \<Rightarrow> free_slots s = {} | Some i \<Rightarrow> i < SCHEDI_MAXIMUM_JOBS \<and> i \<notin> {0})"
proof -
  let ?s0 = "sections_init static_jobsys :: jobsys"
  have "section_claim ?s0 = (Some 0, snd (section_claim ?s0))"
    using first_claim by (metis prod.collapse)
  then have "alloc_session section_claim section_release ?s0 (snd (section_claim ?s0)) (insert 0 {})"
    by (intro alloc_session.claim[where s = ?s0]) (rule alloc_session.start)
  then have "alloc_session section_claim section_release ?s0 (snd (section_claim ?s0)) {0}" by simp
  with slots_claimed_once[OF this] show ?thesis by blast
qed

text \<open>
  Releasing a slot makes it claimable again and keeps the section table
  well-formed, except in one case: when all sections of the table are in use and
  none touches the slot, the slot is lost for good and
  \<^verbatim>\<open>SCHEDI_JOB_ARRAY_SECTION_WARN\<close> is raised.
\<close>

lemma release_frees_or_warns:
  assumes "sections_ok s" "i \<notin> free_slots s" "i < SCHEDI_MAXIMUM_JOBS"
  shows "sections_ok (section_release s i)
    \<and> (if \<forall>x \<in> set (empty_sections s). active x \<and> i + 1 \<noteq> sec_a x \<and> sec_b x \<noteq> i
       then free_slots (section_release s i) = free_slots s
         \<and> ja_flags (section_release s i) = ja_flags s OR SCHEDI_JOB_ARRAY_SECTION_WARN
       else free_slots (section_release s i) = insert i (free_slots s)
         \<and> ja_flags (section_release s i) = ja_flags s)"
  using section_release_effect[OF assms] by (simp add: release_leaks_def)

end
