(* ===== verification/Ready_Cache.thy ===== *)
theory Ready_Cache
  imports Job_Data "HOL-Library.Multiset"
begin

text \<open>
  The cache of ready jobs (\<^verbatim>\<open>schedi_cache_job_ready\<close>, \<^verbatim>\<open>schedi_cache_job_ready_pop\<close>
  and \<^verbatim>\<open>schedi_ready_jobs_cache_reorganize\<close> with its tick, \<^verbatim>\<open>src/src/jobs.c\<close>):
  an array of pointers that jobs are put into at the first free place and taken
  out of by looking at the first \<^verbatim>\<open>SCHEDI_JOBS_CACHE_CHECK\<close> places only, and the
  compaction that keeps jobs within reach of that look.
\<close>

section \<open>Operations\<close>

text \<open>Low 32 bits: the number of cached jobs. High 32 bits: the highest it has been.\<close>

definition add_job_count_body :: "u64 \<Rightarrow> (unit, u64) cas_step" where
  "add_job_count_body x =
     (let peaked = ucast (drop_bit 32 x AND mask 32) :: u32;
          count = ucast (x AND mask 32) + 1 :: u32;
          peaked' = (if count > peaked then count else peaked)
      in CasTry (ucast count OR push_bit 32 (ucast peaked')) ())"

definition schedi_ready_jobs_cache_add_job_count :: "'a job_array_scheme \<Rightarrow> 'a job_array_scheme" where
  "schedi_ready_jobs_cache_add_job_count s =
     s\<lparr>reorganize_counter := reorganize_counter s + 1,
       job_count := snd (cas_seq add_job_count_body (job_count s))\<rparr>"

definition sub_job_count_body :: "u64 \<Rightarrow> (unit, u64) cas_step" where
  "sub_job_count_body x =
     (let peaked = ucast (drop_bit 32 x AND mask 32) :: u32;
          count = ucast (x AND mask 32) - 1 :: u32
      in CasTry (ucast count OR push_bit 32 (ucast peaked)) ())"

definition schedi_ready_jobs_cache_sub_job_count :: "'a job_array_scheme \<Rightarrow> 'a job_array_scheme" where
  "schedi_ready_jobs_cache_sub_job_count s =
     s\<lparr>reorganize_counter := reorganize_counter s + 1,
       job_count := snd (cas_seq sub_job_count_body (job_count s))\<rparr>"

text \<open>The loop on one entry when taking: stop at NULL, otherwise swap NULL in.\<close>

definition cache_take_body :: "nat option \<Rightarrow> (nat option, nat option) cas_step" where
  "cache_take_body v = (case v of None \<Rightarrow> CasReturn None | Some j \<Rightarrow> CasTry None (Some j))"

text \<open>The loop on one entry when putting: stop at a pointer, otherwise swap the job in.\<close>

definition cache_put_body :: "nat \<Rightarrow> nat option \<Rightarrow> (bool, nat option) cas_step" where
  "cache_put_body job v = (if v \<noteq> None then CasReturn False else CasTry (Some job) True)"

text \<open>The scan over the first \<open>n\<close> entries.\<close>

fun cache_take_scan :: "nat \<Rightarrow> nat option list \<Rightarrow> (nat \<times> nat option list) option" where
  "cache_take_scan 0 c = None"
| "cache_take_scan (Suc n) [] = None"
| "cache_take_scan (Suc n) (v # c) =
     (case cas_seq cache_take_body v of
        (Some j, v') \<Rightarrow> Some (j, v' # c)
      | (None, _) \<Rightarrow> map_option (\<lambda>(j, c'). (j, v # c')) (cache_take_scan n c))"

definition schedi_cache_job_ready_pop :: "'a job_array_scheme \<Rightarrow> nat option \<times> 'a job_array_scheme" where
  "schedi_cache_job_ready_pop s =
     (if job_count s AND mask 32 = 0 then (None, s)
      else case cache_take_scan SCHEDI_JOBS_CACHE_CHECK (ready_jobs_cache s) of
             None \<Rightarrow> (None, s)
           | Some (j, c) \<Rightarrow>
               let s1 = schedi_ready_jobs_cache_sub_job_count (s\<lparr>ready_jobs_cache := c\<rparr>)
               in (Some j, s1\<lparr>ja_flags := ja_flags s1 AND NOT SCHEDI_JOB_ARRAY_FULL\<rparr>))"

fun cache_put_scan :: "nat \<Rightarrow> nat option list \<Rightarrow> nat option list option" where
  "cache_put_scan job [] = None"
| "cache_put_scan job (v # c) =
     (case cas_seq (cache_put_body job) v of
        (True, v') \<Rightarrow> Some (v' # c)
      | (False, _) \<Rightarrow> map_option ((#) v) (cache_put_scan job c))"

definition schedi_cache_job_ready :: "'a job_array_scheme \<Rightarrow> nat \<Rightarrow> int \<times> 'a job_array_scheme" where
  "schedi_cache_job_ready s job =
     (case cache_put_scan job (ready_jobs_cache s) of
        Some c \<Rightarrow> (0, schedi_ready_jobs_cache_add_job_count (s\<lparr>ready_jobs_cache := c\<rparr>))
      | None \<Rightarrow> (-1, s\<lparr>ja_flags := ja_flags s OR SCHEDI_JOB_ARRAY_FULL\<rparr>))"

definition schedi_ready_jobs_cache_pop_specific ::
  "'a job_array_scheme \<Rightarrow> nat \<Rightarrow> nat option \<times> 'a job_array_scheme" where
  "schedi_ready_jobs_cache_pop_specific s indice =
     (case cas_seq cache_take_body (ready_jobs_cache s ! indice) of
        (None, _) \<Rightarrow> (None, s)
      | (Some j, v') \<Rightarrow>
          (Some j, schedi_ready_jobs_cache_sub_job_count
             (s\<lparr>ready_jobs_cache := (ready_jobs_cache s)[indice := v']\<rparr>)))"

definition schedi_wake_job_waiter :: "'a jobsys_scheme \<Rightarrow> 'a jobsys_scheme" where
  "schedi_wake_job_waiter s = s\<lparr>readyjob_signals := readyjob_signals s + 1\<rparr>"

text \<open>
  The loop of \<^verbatim>\<open>schedi_ready_jobs_cache_reorganize\<close> from index \<open>i\<close> (the argument is
  \<open>i + 1\<close>) down to 0; \<open>r\<close> is \<^verbatim>\<open>reorganized_jobs\<close>, and \<^verbatim>\<open>i <= reorganized_jobs\<close> compares
  as unsigned.
\<close>

fun reorganize_loop :: "build \<Rightarrow> nat \<Rightarrow> u32 \<Rightarrow> 'a jobsys_scheme \<Rightarrow> 'a jobsys_scheme" where
  "reorganize_loop b 0 r s = s"
| "reorganize_loop b (Suc i) r s =
     (case schedi_ready_jobs_cache_pop_specific s i of
        (None, s1) \<Rightarrow> reorganize_loop b i r s1
      | (Some job, s1) \<Rightarrow>
          let s2 = snd (schedi_cache_job_ready s1 job);
              s3 = (if lockless_readyjob b then s2 else schedi_wake_job_waiter s2);
              r' = r + 1
          in if of_nat i \<le> r' then s3 else reorganize_loop b i r' s3)"

definition schedi_ready_jobs_cache_reorganize :: "build \<Rightarrow> 'a jobsys_scheme \<Rightarrow> 'a jobsys_scheme" where
  "schedi_ready_jobs_cache_reorganize b s =
     (let peaked = ucast (drop_bit 32 (job_count s) AND mask 32) :: u32
      in reorganize_loop b (nat (sint (peaked - 1) + 1)) 0 s)"

definition reorganize_tick_body :: "u32 \<Rightarrow> (bool, u32) cas_step" where
  "reorganize_tick_body counter =
     (if sint counter < int SCHEDI_JOBS_CACHE_CHECK then CasReturn False else CasTry 0 True)"

definition schedi_ready_jobs_cache_reorganize_tick :: "build \<Rightarrow> 'a jobsys_scheme \<Rightarrow> 'a jobsys_scheme" where
  "schedi_ready_jobs_cache_reorganize_tick b s =
     (let (won, c) = cas_seq reorganize_tick_body (reorganize_counter s);
          s1 = s\<lparr>reorganize_counter := c\<rparr>
      in if won then schedi_ready_jobs_cache_reorganize b s1 else s1)"

section \<open>The entries\<close>

lemma cache_body_seq [simp]:
  "cas_seq (cache_put_body j) None = (True, Some j)"
  "cas_seq (cache_put_body j) (Some i) = (False, Some i)"
  "cas_seq cache_take_body None = (None, None)"
  "cas_seq cache_take_body (Some j) = (Some j, None)"
  by (simp_all add: cas_seq_def cache_put_body_def cache_take_body_def)

lemma nth_update: "k < length xs \<Longrightarrow> xs[i := x] ! k = (if i = k then x else xs ! k)"
  by (cases "i < length xs") (auto simp: nth_list_update)

text \<open>The jobs in the cache, the first free place, and the holes below a job.\<close>

definition cached :: "nat option list \<Rightarrow> nat list" where
  "cached c = map the (filter (\<lambda>v. v \<noteq> None) c)"

definition first_free :: "nat option list \<Rightarrow> nat" where
  "first_free c = length (takeWhile (\<lambda>v. v \<noteq> None) c)"

definition gap_set :: "nat option list \<Rightarrow> nat set" where
  "gap_set c = {k. k < length c \<and> c ! k = None \<and> (\<exists>l < length c. k < l \<and> c ! l \<noteq> None)}"

lemma cached_simps [simp]:
  "cached [] = []" "cached (None # c) = cached c" "cached (Some j # c) = j # cached c"
  "cached (c @ d) = cached c @ cached d"
  by (simp_all add: cached_def)

lemma cached_empty_iff: "cached c = [] \<longleftrightarrow> (\<forall>i < length c. c ! i = None)"
  by (auto simp: cached_def filter_empty_conv all_set_conv_all_nth)

lemma finite_gap_set [simp]: "finite (gap_set c)"
  by (simp add: gap_set_def)

lemma first_free_le: "first_free c \<le> length c"
  by (simp add: first_free_def length_takeWhile_le)

lemma below_first_free: "i < first_free c \<Longrightarrow> c ! i \<noteq> None"
proof -
  assume i: "i < first_free c"
  let ?t = "takeWhile (\<lambda>v. v \<noteq> None) c"
  from i have "?t ! i \<in> set ?t" unfolding first_free_def by (rule nth_mem)
  moreover from i have "?t ! i = c ! i" unfolding first_free_def by (rule takeWhile_nth)
  ultimately have "c ! i \<in> set ?t" by simp
  then show "c ! i \<noteq> None" by (metis (mono_tags) set_takeWhileD)
qed

lemma at_first_free: "first_free c < length c \<Longrightarrow> c ! first_free c = None"
  unfolding first_free_def by (metis (mono_tags) nth_length_takeWhile)

lemma first_free_geI: "n \<le> length c \<Longrightarrow> (\<And>i. i < n \<Longrightarrow> c ! i \<noteq> None) \<Longrightarrow> n \<le> first_free c"
  by (metis at_first_free le_eq_less_or_eq less_le_trans not_less)

lemma cache_put_scan_eq:
  "cache_put_scan j c =
     (if first_free c < length c then Some (c[first_free c := Some j]) else None)"
proof (induction c)
  case (Cons v c)
  then show ?case by (cases v) (auto simp: first_free_def)
qed (simp add: first_free_def)

lemma cache_take_scan_None:
  "cache_take_scan n c = None \<longleftrightarrow> (\<forall>i < min n (length c). c ! i = None)"
proof (induction n c rule: cache_take_scan.induct)
  case (3 n v c)
  then show ?case
    by (cases v) (auto simp: less_Suc_eq_0_disj)
qed auto

lemma cache_take_scan_Some:
  "cache_take_scan n c = Some (j, c') \<Longrightarrow>
    \<exists>i. i < n \<and> i < length c \<and> c ! i = Some j \<and> c' = c[i := None] \<and> (\<forall>k < i. c ! k = None)"
proof (induction n c arbitrary: c' rule: cache_take_scan.induct)
  case (3 n v c)
  show ?case
  proof (cases v)
    case None
    with 3 obtain c0 where c0: "cache_take_scan n c = Some (j, c0)" "c' = v # c0"
      by auto
    with "3.IH"[of None None c0] None obtain i where "i < n" "i < length c" "c ! i = Some j"
      "c0 = c[i := None]" "\<forall>k < i. c ! k = None"
      by auto
    with None c0 show ?thesis
      by (intro exI[of _ "Suc i"]) (auto simp: less_Suc_eq_0_disj)
  qed (use 3 in auto)
qed auto

text \<open>Putting and taking one entry, in the jobs that are cached.\<close>

lemma mset_cached_put:
  "i < length c \<Longrightarrow> c ! i = None \<Longrightarrow> mset (cached (c[i := Some j])) = add_mset j (mset (cached c))"
proof (induction c arbitrary: i)
  case (Cons v c)
  then show ?case by (cases i; cases v) auto
qed simp

lemma mset_cached_take:
  "i < length c \<Longrightarrow> c ! i = Some j \<Longrightarrow> mset (cached c) = add_mset j (mset (cached (c[i := None])))"
proof (induction c arbitrary: i)
  case (Cons v c)
  then show ?case by (cases i; cases v) auto
qed simp

lemma gap_set_put: "gap_set (c[first_free c := Some j]) \<subseteq> gap_set c"
proof
  fix k assume k: "k \<in> gap_set (c[first_free c := Some j])"
  then obtain l where l: "l < length c" "k < l" "c[first_free c := Some j] ! l \<noteq> None"
    and kn: "k < length c" "c[first_free c := Some j] ! k = None"
    by (auto simp: gap_set_def)
  from kn have "k \<noteq> first_free c" and ck: "c ! k = None" by (auto simp: nth_update split: if_splits)
  then have "first_free c < k" using below_first_free[of k c] by force
  with l have "c ! l \<noteq> None" by (auto simp: nth_update split: if_splits)
  with l kn ck show "k \<in> gap_set c" by (auto simp: gap_set_def)
qed

lemma gap_set_take: "gap_set (c[i := None]) \<subseteq> insert i (gap_set c)"
  by (auto simp: gap_set_def nth_update split: if_splits)

lemma card_gap_set_put: "card (gap_set (c[first_free c := Some j])) \<le> card (gap_set c)"
  by (intro card_mono gap_set_put finite_gap_set)

lemma card_gap_set_take: "card (gap_set (c[i := None])) \<le> Suc (card (gap_set c))"
proof -
  have "card (gap_set (c[i := None])) \<le> card (insert i (gap_set c))"
    by (intro card_mono gap_set_take finite.insertI finite_gap_set)
  also have "\<dots> \<le> Suc (card (gap_set c))" by (rule card_insert_le_m1) simp_all
  finally show ?thesis .
qed

text \<open>With fewer holes than places looked at, the look finds a job if there is one.\<close>

lemma few_gaps_in_reach:
  assumes "card (gap_set c) < n" "n \<le> length c" "cached c \<noteq> []"
  shows "cache_take_scan n c \<noteq> None"
proof
  assume none: "cache_take_scan n c = None"
  with assms(2) have "\<forall>i < n. c ! i = None" by (simp add: cache_take_scan_None)
  moreover obtain l where l: "l < length c" "c ! l \<noteq> None" using assms(3) cached_empty_iff by auto
  ultimately have "n \<le> l" by (metis not_less)
  with l \<open>\<forall>i < n. c ! i = None\<close> assms(2) have "{..<n} \<subseteq> gap_set c"
    unfolding gap_set_def by (auto intro: less_le_trans)
  then have "n \<le> card (gap_set c)" using card_mono[OF finite_gap_set, of "{..<n}" c] by simp
  with assms(1) show False by simp
qed

lemma gap_free_iff: "gap_set c = {} \<longleftrightarrow> (\<forall>l < length c. c ! l \<noteq> None \<longrightarrow> l < first_free c)"
proof
  assume "gap_set c = {}"
  then show "\<forall>l < length c. c ! l \<noteq> None \<longrightarrow> l < first_free c"
    using at_first_free[of c] by (auto simp: gap_set_def) (metis linorder_neqE_nat option.distinct(1) order_less_trans)
next
  assume "\<forall>l < length c. c ! l \<noteq> None \<longrightarrow> l < first_free c"
  then show "gap_set c = {}"
    unfolding gap_set_def by (auto, metis below_first_free less_trans option.distinct(1))
qed

section \<open>The counts\<close>

abbreviation cur :: "u64 \<Rightarrow> nat" where "cur x \<equiv> unat (x AND mask 32)"
abbreviation peak :: "u64 \<Rightarrow> nat" where "peak x \<equiv> unat (drop_bit 32 x AND mask 32)"

lemma count_word_fields:
  fixes c p :: u32
  shows "cur (ucast c OR push_bit 32 (ucast p)) = unat c"
    and "peak (ucast c OR push_bit 32 (ucast p)) = unat p"
proof -
  have b: "bit x n \<Longrightarrow> n < 32" for x :: u32 and n using bit_imp_le_length[of x n] by simp
  have "(ucast c OR push_bit 32 (ucast p)) AND mask 32 = (ucast c :: u64)"
    by (rule bit_word_eqI)
      (auto simp: bit_or_iff bit_and_iff bit_push_bit_iff bit_ucast_iff bit_mask_word dest: b)
  moreover have "drop_bit 32 (ucast c OR push_bit 32 (ucast p)) AND mask 32 = (ucast p :: u64)"
    by (rule bit_word_eqI)
      (auto simp: bit_or_iff bit_and_iff bit_push_bit_iff bit_drop_bit_eq bit_ucast_iff
        bit_mask_word dest: b)
  ultimately show "cur (ucast c OR push_bit 32 (ucast p)) = unat c"
    "peak (ucast c OR push_bit 32 (ucast p)) = unat p"
    by (simp_all add: unat_ucast_up)
qed

lemma count_field_less: "unat ((x :: u64) AND mask 32) < 2 ^ 32"
  using and_mask_less'[of 32 x] by (simp add: word_less_nat_alt)

lemma unat_ucast_count: "unat (ucast ((x :: u64) AND mask 32) :: u32) = unat (x AND mask 32)"
  using count_field_less[of x] by (intro unat_ucast_small) simp

lemma add_job_count_fields:
  assumes "cur x + 1 < 2 ^ 32"
  shows "cur (snd (cas_seq add_job_count_body x)) = cur x + 1"
    and "peak (snd (cas_seq add_job_count_body x)) = max (cur x + 1) (peak x)"
  using assms unfolding add_job_count_body_def cas_seq_def Let_def cas_step.case snd_conv
    count_word_fields
  by (simp_all add: unat_ucast_count unat_word_ariths word_less_nat_alt max_def)

lemma sub_job_count_fields:
  assumes "0 < cur x"
  shows "cur (snd (cas_seq sub_job_count_body x)) = cur x - 1"
    and "peak (snd (cas_seq sub_job_count_body x)) = peak x"
proof -
  have "(ucast (x AND mask 32) :: u32) \<noteq> 0"
    using assms by (metis less_numeral_extra(3) unat_0 unat_ucast_count)
  then have "unat ((ucast (x AND mask 32) :: u32) - 1) = cur x - 1"
    by (metis unat_minus_one unat_ucast_count)
  then show "cur (snd (cas_seq sub_job_count_body x)) = cur x - 1"
    "peak (snd (cas_seq sub_job_count_body x)) = peak x"
    unfolding sub_job_count_body_def cas_seq_def Let_def cas_step.case snd_conv count_word_fields
    by (simp_all add: unat_ucast_count)
qed

section \<open>The invariant of the cache\<close>

text \<open>
  The count is the number of cached jobs, and no job sits at or above the peak,
  which is what lets the compaction start there.
\<close>

definition cache_ok :: "'a job_array_scheme \<Rightarrow> bool" where
  "cache_ok s \<longleftrightarrow> length (ready_jobs_cache s) = SCHEDI_MAXIMUM_JOBS
     \<and> cur (job_count s) = length (cached (ready_jobs_cache s))
     \<and> peak (job_count s) \<le> SCHEDI_MAXIMUM_JOBS
     \<and> (\<forall>i < SCHEDI_MAXIMUM_JOBS. ready_jobs_cache s ! i \<noteq> None \<longrightarrow> i < peak (job_count s))"

lemma length_cached_card: "length (cached c) = card {i. i < length c \<and> c ! i \<noteq> None}"
  by (simp add: cached_def length_filter_conv_card)

lemma length_cached_le: "length (cached c) \<le> length c"
  by (simp add: cached_def)

lemma first_free_le_cached: "first_free c \<le> length (cached c)"
proof -
  have "{..<first_free c} \<subseteq> {i. i < length c \<and> c ! i \<noteq> None}"
    using first_free_le[of c] below_first_free[of _ c] by auto
  then have "card {..<first_free c} \<le> card {i. i < length c \<and> c ! i \<noteq> None}"
    by (intro card_mono) simp_all
  then show ?thesis by (simp add: length_cached_card)
qed

lemma cached_full_iff: "length (cached c) = length c \<longleftrightarrow> first_free c = length c"
proof
  assume "first_free c = length c"
  then show "length (cached c) = length c"
    using first_free_le_cached[of c] length_cached_le[of c] by simp
next
  assume "length (cached c) = length c"
  then have "None \<notin> set c"
    using length_filter_less[of None c "\<lambda>v. v \<noteq> None"] by (auto simp: cached_def)
  then have "\<forall>v \<in> set c. v \<noteq> None" by metis
  then have "takeWhile (\<lambda>v. v \<noteq> None) c = c" by (simp only: takeWhile_eq_all_conv)
  then show "first_free c = length c" unfolding first_free_def by (rule arg_cong)
qed

lemma length_cached_put:
  "i < length c \<Longrightarrow> c ! i = None \<Longrightarrow> length (cached (c[i := Some j])) = Suc (length (cached c))"
  using mset_cached_put[of i c j] by (metis size_add_mset size_mset)

lemma length_cached_take:
  "i < length c \<Longrightarrow> c ! i = Some j \<Longrightarrow> Suc (length (cached (c[i := None]))) = length (cached c)"
  using mset_cached_take[of i c j] by (metis size_add_mset size_mset)

lemma cache_ok_cur_le_peak: "cache_ok s \<Longrightarrow> cur (job_count s) \<le> peak (job_count s)"
proof -
  assume ok: "cache_ok s"
  let ?c = "ready_jobs_cache s"
  have "{i. i < length ?c \<and> ?c ! i \<noteq> None} \<subseteq> {..<peak (job_count s)}"
    using ok by (auto simp: cache_ok_def)
  then have "card {i. i < length ?c \<and> ?c ! i \<noteq> None} \<le> card {..<peak (job_count s)}"
    by (intro card_mono) simp_all
  with ok show ?thesis by (simp add: cache_ok_def length_cached_card)
qed

text \<open>Taking the job at one place, and putting a job at the first free place.\<close>

definition take_at :: "nat \<Rightarrow> 'a job_array_scheme \<Rightarrow> 'a job_array_scheme" where
  "take_at i s = schedi_ready_jobs_cache_sub_job_count
     (s\<lparr>ready_jobs_cache := (ready_jobs_cache s)[i := None]\<rparr>)"

definition put_first :: "nat \<Rightarrow> 'a job_array_scheme \<Rightarrow> 'a job_array_scheme" where
  "put_first j s = schedi_ready_jobs_cache_add_job_count
     (s\<lparr>ready_jobs_cache := (ready_jobs_cache s)[first_free (ready_jobs_cache s) := Some j]\<rparr>)"

lemma take_at_fields [simp]:
  "ready_jobs_cache (take_at i s) = (ready_jobs_cache s)[i := None]"
  "reorganize_counter (take_at i s) = reorganize_counter s + 1"
  "job_count (take_at i s) = snd (cas_seq sub_job_count_body (job_count s))"
  "jobs (take_at i s) = jobs s" "empty_sections (take_at i s) = empty_sections s"
  "ja_flags (take_at i s) = ja_flags s"
  by (simp_all add: take_at_def schedi_ready_jobs_cache_sub_job_count_def)

lemma put_first_fields [simp]:
  "ready_jobs_cache (put_first j s) = (ready_jobs_cache s)[first_free (ready_jobs_cache s) := Some j]"
  "reorganize_counter (put_first j s) = reorganize_counter s + 1"
  "job_count (put_first j s) = snd (cas_seq add_job_count_body (job_count s))"
  "jobs (put_first j s) = jobs s" "empty_sections (put_first j s) = empty_sections s"
  "ja_flags (put_first j s) = ja_flags s"
  by (simp_all add: put_first_def schedi_ready_jobs_cache_add_job_count_def)

lemma cache_ok_take_at:
  assumes "cache_ok s" "i < SCHEDI_MAXIMUM_JOBS" "ready_jobs_cache s ! i = Some j"
  shows "cache_ok (take_at i s)" "peak (job_count (take_at i s)) = peak (job_count s)"
proof -
  from assms have "Suc (length (cached ((ready_jobs_cache s)[i := None]))) = cur (job_count s)"
    by (simp add: cache_ok_def length_cached_take[of i _ j])
  moreover from this have "0 < cur (job_count s)" by simp
  note sub_job_count_fields[OF this]
  ultimately show "cache_ok (take_at i s)" "peak (job_count (take_at i s)) = peak (job_count s)"
    using assms by (auto simp: cache_ok_def nth_update split: if_splits)
qed

lemma cache_ok_put_first:
  assumes "cache_ok s" "first_free (ready_jobs_cache s) < SCHEDI_MAXIMUM_JOBS"
  shows "cache_ok (put_first j s)"
    and "peak (job_count (put_first j s)) = max (cur (job_count s) + 1) (peak (job_count s))"
proof -
  let ?c = "ready_jobs_cache s"
  from assms have len: "length ?c = 256" and cur: "cur (job_count s) = length (cached ?c)"
    by (simp_all add: cache_ok_def SCHEDI_MAXIMUM_JOBS_def)
  have f: "first_free ?c < length ?c" using assms len by (simp add: SCHEDI_MAXIMUM_JOBS_def)
  then have "length (cached ?c) \<noteq> length ?c" by (simp add: cached_full_iff)
  then have lt: "length (cached ?c) < 256" using length_cached_le[of ?c] len by simp
  then have "cur (job_count s) + 1 < 2 ^ 32" using cur by simp
  note add = add_job_count_fields[OF this]
  show "peak (job_count (put_first j s)) = max (cur (job_count s) + 1) (peak (job_count s))"
    by (simp add: add)
  have "length (cached (?c[first_free ?c := Some j])) = Suc (length (cached ?c))"
    using f at_first_free[OF f] by (rule length_cached_put)
  with assms lt add cur first_free_le_cached[of ?c] show "cache_ok (put_first j s)"
    by (auto simp: cache_ok_def nth_update SCHEDI_MAXIMUM_JOBS_def less_max_iff_disj split: if_splits)
qed

text \<open>The operations are one of the two, or leave the cache alone.\<close>

lemma cache_job_ready_eq:
  assumes "cache_ok s"
  shows "schedi_cache_job_ready s j =
    (if first_free (ready_jobs_cache s) < SCHEDI_MAXIMUM_JOBS then (0, put_first j s)
     else (-1, s\<lparr>ja_flags := ja_flags s OR SCHEDI_JOB_ARRAY_FULL\<rparr>))"
  using assms by (simp add: schedi_cache_job_ready_def cache_put_scan_eq put_first_def cache_ok_def)

lemma pop_specific_eq:
  "schedi_ready_jobs_cache_pop_specific s i =
    (case ready_jobs_cache s ! i of None \<Rightarrow> (None, s) | Some j \<Rightarrow> (Some j, take_at i s))"
  by (auto simp: schedi_ready_jobs_cache_pop_specific_def take_at_def split: option.split)

lemma cache_pop_cases:
  assumes "cache_ok s"
  obtains (none) "schedi_cache_job_ready_pop s = (None, s)"
      "\<forall>i < SCHEDI_JOBS_CACHE_CHECK. ready_jobs_cache s ! i = None"
  | (some) i j where "i < SCHEDI_JOBS_CACHE_CHECK" "ready_jobs_cache s ! i = Some j"
      "\<forall>k < i. ready_jobs_cache s ! k = None"
      "schedi_cache_job_ready_pop s =
        (Some j, (take_at i s)\<lparr>ja_flags := ja_flags s AND NOT SCHEDI_JOB_ARRAY_FULL\<rparr>)"
proof (cases "cache_take_scan SCHEDI_JOBS_CACHE_CHECK (ready_jobs_cache s)")
  case None
  with assms have "\<forall>i < SCHEDI_JOBS_CACHE_CHECK. ready_jobs_cache s ! i = None"
    by (simp add: cache_take_scan_None cache_ok_def SCHEDI_MAXIMUM_JOBS_def SCHEDI_JOBS_CACHE_CHECK_def)
  with None show ?thesis by (intro none) (simp_all add: schedi_cache_job_ready_pop_def)
next
  case (Some p)
  obtain j c where p: "p = (j, c)" by (cases p)
  with Some cache_take_scan_Some[of SCHEDI_JOBS_CACHE_CHECK "ready_jobs_cache s" j c]
  obtain i where i: "i < SCHEDI_JOBS_CACHE_CHECK" "i < length (ready_jobs_cache s)"
    "ready_jobs_cache s ! i = Some j" "c = (ready_jobs_cache s)[i := None]"
    "\<forall>k < i. ready_jobs_cache s ! k = None" by auto
  have "cached (ready_jobs_cache s) \<noteq> []" using i(2,3) cached_empty_iff by auto
  with assms have "job_count s AND mask 32 \<noteq> 0" by (auto simp: cache_ok_def)
  with i Some p show ?thesis
    by (intro some[of i j]) (simp_all add: schedi_cache_job_ready_pop_def take_at_def Let_def
        schedi_ready_jobs_cache_sub_job_count_def)
qed

section \<open>Compaction\<close>

text \<open>
  One step of the compaction: the job at place \<open>i\<close> moves to the first free place.
  \<open>below k c\<close> is what the loop keeps: there is no hole below a job, or every job
  lies below \<open>k\<close>.
\<close>

definition below :: "nat \<Rightarrow> nat option list \<Rightarrow> bool" where
  "below k c \<longleftrightarrow> gap_set c = {} \<or> (\<forall>l < length c. c ! l \<noteq> None \<longrightarrow> l < k)"

definition move_down :: "nat \<Rightarrow> nat \<Rightarrow> nat option list \<Rightarrow> nat option list" where
  "move_down i j c = (c[i := None])[first_free (c[i := None]) := Some j]"

lemma first_free_take_le: "i < length c \<Longrightarrow> first_free (c[i := None]) \<le> i"
  using below_first_free[of i "c[i := None]"] by (metis nth_list_update_eq not_le)

lemma first_free_take_ge:
  assumes "i < length c" "n \<le> i" "n \<le> first_free c"
  shows "n \<le> first_free (c[i := None])"
  by (rule first_free_geI) (use assms below_first_free[of _ c] in \<open>auto simp: nth_update\<close>)

lemma first_free_move_down:
  assumes "i < length c"
  shows "first_free (c[i := None]) < first_free (move_down i j c)"
proof -
  let ?p = "first_free (c[i := None])"
  have "?p < length c" using first_free_take_le[OF assms] assms by simp
  moreover have "move_down i j c ! k \<noteq> None" if "k < Suc ?p" for k
    using that \<open>?p < length c\<close> below_first_free[of k "c[i := None]"]
    by (cases "k = ?p") (simp_all add: move_down_def)
  ultimately have "Suc ?p \<le> first_free (move_down i j c)"
    by (intro first_free_geI) (simp_all add: move_down_def)
  then show ?thesis by simp
qed

lemma move_down_same:
  assumes "i < length c" "c ! i = Some j" "i \<le> first_free (c[i := None])"
  shows "move_down i j c = c"
proof -
  have "first_free (c[i := None]) = i" using first_free_take_le[OF assms(1)] assms(3) by simp
  with assms show ?thesis by (simp add: move_down_def list_update_same_conv)
qed

lemma mset_move_down:
  assumes "i < length c" "c ! i = Some j"
  shows "mset (cached (move_down i j c)) = mset (cached c)"
proof -
  have "first_free (c[i := None]) < length (c[i := None])"
    using first_free_take_le[OF assms(1)] assms(1) by simp
  from mset_cached_put[OF this at_first_free[OF this], of j] mset_cached_take[OF assms]
  show ?thesis by (simp add: move_down_def)
qed

lemma move_down_step:
  assumes i: "i < length c" "c ! i = Some j" and bl: "below (Suc i) c" and r: "r \<le> first_free c"
  shows "below i (move_down i j c)"
    and "i \<le> Suc r \<Longrightarrow> gap_set (move_down i j c) = {}"
    and "r < i \<Longrightarrow> Suc r \<le> first_free (move_down i j c)"
proof -
  let ?p = "first_free (c[i := None])"
  let ?d = "move_down i j c"
  have "below i ?d \<and> (i \<le> Suc r \<longrightarrow> gap_set ?d = {}) \<and> (r < i \<longrightarrow> Suc r \<le> first_free ?d)"
  proof (cases "i \<le> ?p")
    case True
    then have d: "?d = c" using i by (intro move_down_same)
    have full: "l < i \<Longrightarrow> c ! l \<noteq> None" for l
      using below_first_free[of l "c[i := None]"] True by simp
    have ff: "Suc i \<le> first_free c" using i full by (intro first_free_geI) (auto simp: less_Suc_eq)
    then have "gap_set c = {}"
      using bl unfolding below_def gap_free_iff by (auto dest: less_le_trans)
    with d ff show ?thesis by (auto simp: below_def)
  next
    case False
    have rp: "r \<le> ?p"
    proof (rule ccontr)
      assume "\<not> r \<le> ?p"
      then have "?p < r" "?p < length c" using False i by simp_all
      moreover from this have "c ! ?p = None"
        using at_first_free[of "c[i := None]"] False by (simp add: nth_update)
      ultimately show False using below_first_free[of ?p c] r by simp
    qed
    have ng: "gap_set c \<noteq> {}"
    proof
      assume "gap_set c = {}"
      then have "i < first_free c" using i by (simp add: gap_free_iff)
      then have "i \<le> ?p" using i(1) by (intro first_free_take_ge) simp_all
      with False show False by simp
    qed
    then have occ: "\<forall>l < length c. c ! l \<noteq> None \<longrightarrow> l < Suc i" using bl by (simp add: below_def)
    have occ': "l < i" if "l < length c" "?d ! l \<noteq> None" for l
      using that occ False i by (auto simp: move_down_def nth_update less_Suc_eq split: if_splits)
    have ff: "Suc ?p \<le> first_free ?d" using first_free_move_down[OF i(1), of j] by simp
    have "gap_set ?d = {}" if "i \<le> Suc r"
      unfolding gap_free_iff using occ' ff rp that by (fastforce simp: move_down_def)
    with occ' ff rp show ?thesis by (auto simp: below_def move_down_def)
  qed
  then show "below i ?d" "i \<le> Suc r \<Longrightarrow> gap_set ?d = {}" "r < i \<Longrightarrow> Suc r \<le> first_free ?d"
    by blast+
qed


text \<open>What no operation of the cache touches.\<close>

definition same_rest :: "'a jobsys_scheme \<Rightarrow> 'a jobsys_scheme \<Rightarrow> bool" where
  "same_rest s s' \<longleftrightarrow> jobs s' = jobs s \<and> empty_sections s' = empty_sections s
     \<and> destroy_q s' = destroy_q s \<and> dtor_calls s' = dtor_calls s \<and> completed s' = completed s
     \<and> jobsys.more s' = jobsys.more s"

lemma same_rest_refl [simp]: "same_rest s s"
  by (simp add: same_rest_def)

lemma same_rest_trans [trans]: "same_rest s t \<Longrightarrow> same_rest t u \<Longrightarrow> same_rest s u"
  by (simp add: same_rest_def)

lemma same_rest_ops [simp]:
  "same_rest s (take_at i s)" "same_rest s (put_first j s)" "same_rest s (schedi_wake_job_waiter s)"
  "same_rest s (s\<lparr>ja_flags := f\<rparr>)" "same_rest s (s\<lparr>reorganize_counter := c\<rparr>)"
  by (simp_all add: same_rest_def take_at_def put_first_def schedi_wake_job_waiter_def
      schedi_ready_jobs_cache_sub_job_count_def schedi_ready_jobs_cache_add_job_count_def)

lemma wake_fields [simp]:
  "ready_jobs_cache (schedi_wake_job_waiter s) = ready_jobs_cache s"
  "job_count (schedi_wake_job_waiter s) = job_count s"
  "reorganize_counter (schedi_wake_job_waiter s) = reorganize_counter s"
  "ja_flags (schedi_wake_job_waiter s) = ja_flags s"
  "jobs (schedi_wake_job_waiter s) = jobs s"
  "cache_ok (schedi_wake_job_waiter s) = cache_ok s"
  by (simp_all add: schedi_wake_job_waiter_def cache_ok_def)

text \<open>One pass of the loop that finds a job moves it down.\<close>

lemma reorganize_move:
  assumes ok: "cache_ok s" and i: "i < SCHEDI_MAXIMUM_JOBS" "ready_jobs_cache s ! i = Some j"
    and s': "s' = snd (schedi_cache_job_ready (take_at i s) j)"
  shows "ready_jobs_cache s' = move_down i j (ready_jobs_cache s)"
    and "cache_ok s'"
    and "peak (job_count s') = peak (job_count s)"
    and "reorganize_counter s' = reorganize_counter s + 2" "ja_flags s' = ja_flags s"
    and "same_rest s s'"
proof -
  let ?c = "ready_jobs_cache s"
  have len: "length ?c = SCHEDI_MAXIMUM_JOBS" using ok by (simp add: cache_ok_def)
  note ok1 = cache_ok_take_at[OF ok i]
  have ff: "first_free (ready_jobs_cache (take_at i s)) < SCHEDI_MAXIMUM_JOBS"
    using first_free_take_le[of i ?c] i len by simp
  have s'': "s' = put_first j (take_at i s)" using s' ff by (simp add: cache_job_ready_eq[OF ok1(1)])
  note ok2 = cache_ok_put_first[OF ok1(1) ff, of j]
  have "Suc (length (cached (?c[i := None]))) = length (cached ?c)"
    using i len by (intro length_cached_take) simp_all
  then have "cur (job_count (take_at i s)) + 1 = cur (job_count s)"
    using ok ok1(1) by (simp add: cache_ok_def)
  with ok1(2) ok2(2) cache_ok_cur_le_peak[OF ok] s''
  show "peak (job_count s') = peak (job_count s)" by (simp add: max_def)
  show "ready_jobs_cache s' = move_down i j ?c" "reorganize_counter s' = reorganize_counter s + 2"
    "ja_flags s' = ja_flags s" using s'' by (simp_all add: move_down_def)
  show "cache_ok s'" using s'' ok2(1) by simp
  show "same_rest s s'" unfolding s'' by (rule same_rest_trans[of _ "take_at i s"]) simp_all
qed

text \<open>
  What the compaction does: no hole is left below a job, no job is lost or
  doubled, the counts stay right and only the counter of cache changes moves.
\<close>

definition compacted :: "nat \<Rightarrow> 'a jobsys_scheme \<Rightarrow> 'a jobsys_scheme \<Rightarrow> bool" where
  "compacted k s s' \<longleftrightarrow> cache_ok s' \<and> same_rest s s'
     \<and> mset (cached (ready_jobs_cache s')) = mset (cached (ready_jobs_cache s))
     \<and> peak (job_count s') = peak (job_count s) \<and> ja_flags s' = ja_flags s
     \<and> (\<exists>n \<le> 2 * k. reorganize_counter s' = reorganize_counter s + of_nat n)"

lemma below_SucD: "below (Suc i) c \<Longrightarrow> c ! i = None \<Longrightarrow> below i c"
  by (auto simp: below_def less_Suc_eq)

lemma compacted_step:
  assumes "compacted 1 s t" "compacted k t u"
  shows "compacted (Suc k) s u"
proof -
  from assms obtain m n where "m \<le> 2" "n \<le> 2 * k"
    "reorganize_counter t = reorganize_counter s + of_nat m"
    "reorganize_counter u = reorganize_counter t + of_nat n"
    by (auto simp: compacted_def)
  then have "m + n \<le> 2 * Suc k" "reorganize_counter u = reorganize_counter s + of_nat (m + n)"
    by simp_all
  with assms show ?thesis
    unfolding compacted_def by (auto intro: same_rest_trans)
qed

lemma compacted_mono: "compacted k s t \<Longrightarrow> k \<le> l \<Longrightarrow> compacted l s t"
  unfolding compacted_def by (meson le_trans mult_le_mono2)

lemma reorganize_loop_compacts:
  assumes "cache_ok s" "k \<le> SCHEDI_MAXIMUM_JOBS" "below k (ready_jobs_cache s)"
    and "unat r \<le> first_free (ready_jobs_cache s)"
  shows "compacted k s (reorganize_loop b k r s)
    \<and> gap_set (ready_jobs_cache (reorganize_loop b k r s)) = {}"
  using assms
proof (induction k arbitrary: r s)
  case 0
  then show ?case by (auto simp: compacted_def below_def gap_set_def)
next
  case (Suc i)
  let ?c = "ready_jobs_cache s"
  have len: "length ?c = SCHEDI_MAXIMUM_JOBS" using Suc.prems(1) by (simp add: cache_ok_def)
  have i: "i < SCHEDI_MAXIMUM_JOBS" using Suc.prems(2) by simp
  show ?case
  proof (cases "?c ! i")
    case None
    have "compacted 1 s s" using Suc.prems(1) by (auto simp: compacted_def)
    moreover have "below i ?c" using Suc.prems(3) None by (rule below_SucD)
    note Suc.IH[OF Suc.prems(1) less_imp_le[OF i] this Suc.prems(4)]
    ultimately show ?thesis
      using compacted_step[of s s i "reorganize_loop b i r s"] by (simp add: pop_specific_eq None)
  next
    case (Some j)
    define s2 where "s2 = snd (schedi_cache_job_ready (take_at i s) j)"
    define s3 where "s3 = (if lockless_readyjob b then s2 else schedi_wake_job_waiter s2)"
    note mv = reorganize_move[OF Suc.prems(1) i Some s2_def]
    have c3: "ready_jobs_cache s3 = move_down i j ?c" "cache_ok s3" using mv by (simp_all add: s3_def)
    have one: "compacted 1 s s3"
      unfolding compacted_def s3_def using mv i Some len
      by (auto simp: mset_move_down intro!: exI[of _ 2] intro: same_rest_trans)
    have il: "i < length ?c" using i len by simp
    note st = move_down_step[OF il Some Suc.prems(3,4)]
    have rle: "unat r \<le> 256" using Suc.prems(4) first_free_le[of ?c] len
      by (simp add: SCHEDI_MAXIMUM_JOBS_def)
    then have r1: "unat (r + 1) = Suc (unat r)" by (simp add: unat_word_ariths)
    have i1: "unat (of_nat i :: u32) = i"
      using i by (simp add: SCHEDI_MAXIMUM_JOBS_def unat_of_nat)
    have loop: "reorganize_loop b (Suc i) r s =
        (if of_nat i \<le> r + 1 then s3 else reorganize_loop b i (r + 1) s3)"
      by (simp add: pop_specific_eq Some s2_def s3_def Let_def)
    show ?thesis
    proof (cases "of_nat i \<le> r + 1")
      case True
      then have "i \<le> Suc (unat r)" by (simp add: word_le_nat_alt i1 r1)
      moreover have "reorganize_loop b (Suc i) r s = s3" unfolding loop using True by (rule if_P)
      ultimately show ?thesis using st(2) c3 compacted_mono[OF one, of "Suc i"] by simp
    next
      case False
      then have lt: "Suc (unat r) < i" by (simp add: word_le_nat_alt i1 r1)
      have "below i (ready_jobs_cache s3)" using st(1) c3 by simp
      moreover have "unat (r + 1) \<le> first_free (ready_jobs_cache s3)"
        using st(3) lt c3 r1 by simp
      ultimately show ?thesis
        using Suc.IH[OF c3(2) less_imp_le[OF i]] compacted_step[OF one, of i "reorganize_loop b i (r + 1) s3"]
        unfolding loop if_not_P[OF False] by simp
    qed
  qed
qed


lemma reorganize_start:
  assumes "peak x \<le> SCHEDI_MAXIMUM_JOBS"
  shows "nat (sint ((ucast (drop_bit 32 x AND mask 32) :: u32) - 1) + 1) = peak x"
proof (cases "peak x = 0")
  case True
  then have "drop_bit 32 x AND mask 32 = 0" by (metis unat_eq_zero)
  then show ?thesis using True by simp
next
  case False
  let ?p = "ucast (drop_bit 32 x AND mask 32) :: u32"
  have p: "unat ?p = peak x" by (rule unat_ucast_count)
  with False have "unat (?p - 1) = peak x - 1" by (metis unat_eq_zero unat_minus_one)
  then have "uint (?p - 1) = int (peak x - 1)" by (metis uint_nat)
  moreover from this assms have "sint (?p - 1) = uint (?p - 1)"
    by (simp add: sint_uint signed_take_bit_int_eq_self SCHEDI_MAXIMUM_JOBS_def)
  ultimately show ?thesis using False by simp
qed

lemma reorganize_compacts:
  assumes "cache_ok s"
  shows "compacted SCHEDI_MAXIMUM_JOBS s (schedi_ready_jobs_cache_reorganize b s)"
    and "gap_set (ready_jobs_cache (schedi_ready_jobs_cache_reorganize b s)) = {}"
proof -
  let ?k = "peak (job_count s)"
  have k: "?k \<le> SCHEDI_MAXIMUM_JOBS" using assms by (simp add: cache_ok_def)
  have "below ?k (ready_jobs_cache s)" using assms by (auto simp: below_def cache_ok_def)
  moreover have "unat (0 :: u32) \<le> first_free (ready_jobs_cache s)" by simp
  ultimately have "compacted ?k s (reorganize_loop b ?k 0 s)
      \<and> gap_set (ready_jobs_cache (reorganize_loop b ?k 0 s)) = {}"
    by (rule reorganize_loop_compacts[OF assms k])
  moreover have "schedi_ready_jobs_cache_reorganize b s = reorganize_loop b ?k 0 s"
    unfolding schedi_ready_jobs_cache_reorganize_def Let_def reorganize_start[OF k] ..
  ultimately show "compacted SCHEDI_MAXIMUM_JOBS s (schedi_ready_jobs_cache_reorganize b s)"
    "gap_set (ready_jobs_cache (schedi_ready_jobs_cache_reorganize b s)) = {}"
    using compacted_mono[OF _ k] by auto
qed

lemma reorganize_tick_eq:
  "schedi_ready_jobs_cache_reorganize_tick b s =
     (if sint (reorganize_counter s) < int SCHEDI_JOBS_CACHE_CHECK then s
      else schedi_ready_jobs_cache_reorganize b (s\<lparr>reorganize_counter := 0\<rparr>))"
  by (simp add: schedi_ready_jobs_cache_reorganize_tick_def reorganize_tick_body_def cas_seq_def)

section \<open>Cached jobs stay in reach\<close>

text \<open>
  The counter of cache changes bounds the number of holes: a change makes at most
  one, and a tick removes all of them once the counter has reached the number
  of places that are looked at. \<open>n\<close> is the number of changes since the last tick.
\<close>

definition reach_ok :: "nat \<Rightarrow> 'a jobsys_scheme \<Rightarrow> bool" where
  "reach_ok n s \<longleftrightarrow> cache_ok s
     \<and> card (gap_set (ready_jobs_cache s)) \<le> unat (reorganize_counter s)
     \<and> unat (reorganize_counter s) \<le> 2 * SCHEDI_MAXIMUM_JOBS + n"

lemma sint_counter: "unat (x :: u32) < 2 ^ 31 \<Longrightarrow> sint x = int (unat x)"
proof -
  assume "unat x < 2 ^ 31"
  then have "int (unat x) < 2 ^ 31" by (metis of_nat_less_iff of_nat_numeral of_nat_power)
  moreover have "- (2 ^ 31) \<le> int (unat x)" by (rule order_trans[of _ 0]) simp_all
  ultimately have "signed_take_bit 31 (int (unat x)) = int (unat x)"
    by (intro signed_take_bit_int_eq_self)
  then show "sint x = int (unat x)" by (simp add: sint_uint)
qed

lemma counter_inc: "unat (x :: u32) \<le> 512 + n \<Longrightarrow> n < 2 ^ 30 \<Longrightarrow> unat (x + 1) = Suc (unat x)"
  by (simp add: unat_word_ariths)

lemma cache_ok_flags [simp]: "cache_ok (s\<lparr>ja_flags := f\<rparr>) = cache_ok s"
  by (simp add: cache_ok_def)

lemma cache_ok_counter [simp]: "cache_ok (s\<lparr>reorganize_counter := f\<rparr>) = cache_ok s"
  by (simp add: cache_ok_def)

lemma reach_ok_put:
  assumes "reach_ok n s" "n < 2 ^ 30"
  shows "reach_ok (Suc n) (snd (schedi_cache_job_ready s j))"
proof -
  have ok: "cache_ok s" using assms by (simp add: reach_ok_def)
  have "unat (reorganize_counter s + 1) = Suc (unat (reorganize_counter s))"
    by (rule counter_inc[of _ n]) (use assms in \<open>simp_all add: reach_ok_def SCHEDI_MAXIMUM_JOBS_def\<close>)
  then show ?thesis
    using assms cache_ok_put_first(1)[OF ok] card_gap_set_put[of "ready_jobs_cache s" j]
    by (auto simp: cache_job_ready_eq[OF ok] reach_ok_def)
qed

lemma reach_ok_pop:
  assumes "reach_ok n s" "n < 2 ^ 30"
  shows "reach_ok (Suc n) (snd (schedi_cache_job_ready_pop s))"
proof -
  have ok: "cache_ok s" using assms by (simp add: reach_ok_def)
  from ok show ?thesis
  proof (cases rule: cache_pop_cases)
    case none
    then show ?thesis using assms by (simp add: reach_ok_def)
  next
    case (some i j)
    have "i < SCHEDI_MAXIMUM_JOBS"
      using some(1) by (simp add: SCHEDI_MAXIMUM_JOBS_def SCHEDI_JOBS_CACHE_CHECK_def)
    from cache_ok_take_at(1)[OF ok this some(2)]
    have "cache_ok (take_at i s)" .
    moreover have "unat (reorganize_counter s + 1) = Suc (unat (reorganize_counter s))"
      by (rule counter_inc[of _ n])
        (use assms in \<open>simp_all add: reach_ok_def SCHEDI_MAXIMUM_JOBS_def\<close>)
    ultimately show ?thesis
      using assms card_gap_set_take[of "ready_jobs_cache s" i] some(4) by (simp add: reach_ok_def)
  qed
qed

lemma tick_cached:
  assumes "cache_ok s"
  shows "mset (cached (ready_jobs_cache (schedi_ready_jobs_cache_reorganize_tick b s))) =
      mset (cached (ready_jobs_cache s))"
    and "cache_ok (schedi_ready_jobs_cache_reorganize_tick b s)"
    and "same_rest s (schedi_ready_jobs_cache_reorganize_tick b s)"
  using assms reorganize_compacts(1)[of "s\<lparr>reorganize_counter := 0\<rparr>" b]
    same_rest_trans[of s "s\<lparr>reorganize_counter := 0\<rparr>"]
  by (auto simp: reorganize_tick_eq compacted_def)

lemma reach_ok_tick:
  assumes "reach_ok n s" "n < 2 ^ 30"
  shows "reach_ok 0 (schedi_ready_jobs_cache_reorganize_tick b s)"
    and "card (gap_set (ready_jobs_cache (schedi_ready_jobs_cache_reorganize_tick b s)))
      < SCHEDI_JOBS_CACHE_CHECK"
proof -
  have ok: "cache_ok s" and small: "unat (reorganize_counter s) < 2 ^ 31"
    using assms by (simp_all add: reach_ok_def SCHEDI_MAXIMUM_JOBS_def)
  have "reach_ok 0 (schedi_ready_jobs_cache_reorganize_tick b s)
      \<and> card (gap_set (ready_jobs_cache (schedi_ready_jobs_cache_reorganize_tick b s)))
        < SCHEDI_JOBS_CACHE_CHECK"
  proof (cases "sint (reorganize_counter s) < int SCHEDI_JOBS_CACHE_CHECK")
    case True
    then have "unat (reorganize_counter s) < 16"
      unfolding sint_counter[OF small] SCHEDI_JOBS_CACHE_CHECK_def of_nat_less_iff .
    with True assms show ?thesis
      by (simp add: reorganize_tick_eq reach_ok_def SCHEDI_MAXIMUM_JOBS_def SCHEDI_JOBS_CACHE_CHECK_def)
  next
    case False
    let ?t = "schedi_ready_jobs_cache_reorganize b (s\<lparr>reorganize_counter := 0\<rparr>)"
    have ok0: "cache_ok (s\<lparr>reorganize_counter := 0\<rparr>)" using ok by simp
    from reorganize_compacts(1)[OF ok0, of b] obtain m where
      "m \<le> 2 * SCHEDI_MAXIMUM_JOBS" "reorganize_counter ?t = of_nat m" "cache_ok ?t"
      by (auto simp: compacted_def)
    moreover from this have "unat (reorganize_counter ?t) = m"
      by (simp add: SCHEDI_MAXIMUM_JOBS_def unat_of_nat)
    ultimately show ?thesis using False reorganize_compacts(2)[OF ok0, of b]
      by (simp add: reorganize_tick_eq reach_ok_def SCHEDI_JOBS_CACHE_CHECK_def)
  qed
  then show "reach_ok 0 (schedi_ready_jobs_cache_reorganize_tick b s)"
    "card (gap_set (ready_jobs_cache (schedi_ready_jobs_cache_reorganize_tick b s)))
      < SCHEDI_JOBS_CACHE_CHECK" by simp_all
qed

lemma pop_finds:
  assumes "cache_ok s" "card (gap_set (ready_jobs_cache s)) < SCHEDI_JOBS_CACHE_CHECK"
  shows "fst (schedi_cache_job_ready_pop s) = None \<longleftrightarrow> cached (ready_jobs_cache s) = []"
proof
  assume none: "fst (schedi_cache_job_ready_pop s) = None"
  from assms(1) have "\<forall>i < SCHEDI_JOBS_CACHE_CHECK. ready_jobs_cache s ! i = None"
    by (cases rule: cache_pop_cases) (use none in auto)
  moreover have "SCHEDI_JOBS_CACHE_CHECK \<le> length (ready_jobs_cache s)"
    using assms(1) by (simp add: cache_ok_def SCHEDI_JOBS_CACHE_CHECK_def SCHEDI_MAXIMUM_JOBS_def)
  ultimately show "cached (ready_jobs_cache s) = []"
    using few_gaps_in_reach[OF assms(2)] by (auto simp: cache_take_scan_None)
next
  assume "cached (ready_jobs_cache s) = []"
  with assms(1) show "fst (schedi_cache_job_ready_pop s) = None"
    by (simp add: schedi_cache_job_ready_pop_def cache_ok_def unat_eq_zero)
qed


section \<open>The cache as a bag of jobs\<close>

text \<open>
  Operations of the clients in any order. \<open>bag_session\<close> returns the jobs that were
  accepted, the jobs that were handed out and the final state.
\<close>

datatype cache_op = CPut nat | CPop | CTick

fun bag_session ::
  "('s \<Rightarrow> nat \<Rightarrow> int \<times> 's) \<Rightarrow> ('s \<Rightarrow> nat option \<times> 's) \<Rightarrow> ('s \<Rightarrow> 's) \<Rightarrow> cache_op list \<Rightarrow> 's
    \<Rightarrow> nat list \<times> nat list \<times> 's" where
  "bag_session put pop tick [] s = ([], [], s)"
| "bag_session put pop tick (CPut j # ops) s =
     (let (r, s1) = put s j; (a, p, s2) = bag_session put pop tick ops s1
      in (if r = 0 then j # a else a, p, s2))"
| "bag_session put pop tick (CPop # ops) s =
     (let (r, s1) = pop s; (a, p, s2) = bag_session put pop tick ops s1
      in (a, case r of None \<Rightarrow> p | Some j \<Rightarrow> j # p, s2))"
| "bag_session put pop tick (CTick # ops) s = bag_session put pop tick ops (tick s)"

text \<open>
  The contract: a put is accepted unless the bag is full, a pop hands out a
  member of the bag or nothing, and the upkeep changes no member.
\<close>

locale job_bag =
  fixes inv :: "'s \<Rightarrow> bool" and bag :: "'s \<Rightarrow> nat multiset" and cap :: nat
    and put :: "'s \<Rightarrow> nat \<Rightarrow> int \<times> 's" and pop :: "'s \<Rightarrow> nat option \<times> 's" and tick :: "'s \<Rightarrow> 's"
  assumes put_inv: "inv s \<Longrightarrow> inv (snd (put s j))"
    and put_room: "inv s \<Longrightarrow> size (bag s) < cap \<Longrightarrow>
      fst (put s j) = 0 \<and> bag (snd (put s j)) = add_mset j (bag s)"
    and put_full: "inv s \<Longrightarrow> \<not> size (bag s) < cap \<Longrightarrow>
      fst (put s j) = -1 \<and> bag (snd (put s j)) = bag s"
    and pop_inv: "inv s \<Longrightarrow> inv (snd (pop s))"
    and pop_bag: "inv s \<Longrightarrow>
      bag s = (case fst (pop s) of None \<Rightarrow> {#} | Some j \<Rightarrow> {#j#}) + bag (snd (pop s))"
    and tick_inv: "inv s \<Longrightarrow> inv (tick s)"
    and tick_bag: "inv s \<Longrightarrow> bag (tick s) = bag s"
begin

lemma conserved:
  assumes "inv s" "bag_session put pop tick ops s = (a, p, s')"
  shows "inv s' \<and> mset a + bag s = mset p + bag s'"
  using assms
proof (induction ops arbitrary: s a p s')
  case (Cons op ops)
  show ?case
  proof (cases op)
    case (CPut j)
    obtain r s1 where r: "put s j = (r, s1)" by force
    obtain a1 p1 s2 where b: "bag_session put pop tick ops s1 = (a1, p1, s2)" by (metis prod_cases3)
    from Cons.IH[OF _ b] put_inv[OF Cons.prems(1), of j] r
    have "inv s2" "mset a1 + bag s1 = mset p1 + bag s2" by simp_all
    with Cons.prems r b CPut put_room[OF Cons.prems(1), of j] put_full[OF Cons.prems(1), of j]
    show ?thesis by (cases "size (bag s) < cap") auto
  next
    case CPop
    obtain r s1 where r: "pop s = (r, s1)" by force
    obtain a1 p1 s2 where b: "bag_session put pop tick ops s1 = (a1, p1, s2)" by (metis prod_cases3)
    from Cons.IH[OF _ b] pop_inv[OF Cons.prems(1)] r
    have "inv s2" "mset a1 + bag s1 = mset p1 + bag s2" by simp_all
    with Cons.prems r b CPop pop_bag[OF Cons.prems(1)] show ?thesis by (cases r) auto
  next
    case CTick
    then show ?thesis
      using Cons.IH[OF tick_inv[OF Cons.prems(1)]] Cons.prems tick_bag[OF Cons.prems(1)] by simp
  qed
qed simp

end

lemma cache_pop_bag:
  assumes "cache_ok s"
  shows "cache_ok (snd (schedi_cache_job_ready_pop s))"
    and "mset (cached (ready_jobs_cache s)) =
      (case fst (schedi_cache_job_ready_pop s) of None \<Rightarrow> {#} | Some j \<Rightarrow> {#j#})
        + mset (cached (ready_jobs_cache (snd (schedi_cache_job_ready_pop s))))"
    and "same_rest s (snd (schedi_cache_job_ready_pop s))"
proof -
  have "cache_ok (snd (schedi_cache_job_ready_pop s)) \<and> same_rest s (snd (schedi_cache_job_ready_pop s))
    \<and> mset (cached (ready_jobs_cache s)) =
      (case fst (schedi_cache_job_ready_pop s) of None \<Rightarrow> {#} | Some j \<Rightarrow> {#j#})
        + mset (cached (ready_jobs_cache (snd (schedi_cache_job_ready_pop s))))"
    using assms
  proof (cases rule: cache_pop_cases)
    case none
    with assms show ?thesis by simp
  next
    case (some i j)
    have i: "i < SCHEDI_MAXIMUM_JOBS"
      using some(1) by (simp add: SCHEDI_MAXIMUM_JOBS_def SCHEDI_JOBS_CACHE_CHECK_def)
    then have "i < length (ready_jobs_cache s)" using assms by (simp add: cache_ok_def)
    from mset_cached_take[OF this some(2)] cache_ok_take_at(1)[OF assms i some(2)] some(4)
      same_rest_trans[OF same_rest_ops(1)[of s i] same_rest_ops(4)]
    show ?thesis by simp
  qed
  then show "cache_ok (snd (schedi_cache_job_ready_pop s))"
    "same_rest s (snd (schedi_cache_job_ready_pop s))"
    "mset (cached (ready_jobs_cache s)) =
      (case fst (schedi_cache_job_ready_pop s) of None \<Rightarrow> {#} | Some j \<Rightarrow> {#j#})
        + mset (cached (ready_jobs_cache (snd (schedi_cache_job_ready_pop s))))"
    by blast+
qed

lemma first_free_full:
  assumes "cache_ok s"
  shows "first_free (ready_jobs_cache s) < SCHEDI_MAXIMUM_JOBS \<longleftrightarrow>
    length (cached (ready_jobs_cache s)) < SCHEDI_MAXIMUM_JOBS"
  using assms cached_full_iff[of "ready_jobs_cache s"] first_free_le[of "ready_jobs_cache s"]
    length_cached_le[of "ready_jobs_cache s"]
  by (auto simp: cache_ok_def)

lemma cache_put_bag:
  assumes "cache_ok s"
  shows "cache_ok (snd (schedi_cache_job_ready s j))"
    and "length (cached (ready_jobs_cache s)) < SCHEDI_MAXIMUM_JOBS \<Longrightarrow>
      fst (schedi_cache_job_ready s j) = 0
      \<and> mset (cached (ready_jobs_cache (snd (schedi_cache_job_ready s j)))) =
        add_mset j (mset (cached (ready_jobs_cache s)))"
    and "\<not> length (cached (ready_jobs_cache s)) < SCHEDI_MAXIMUM_JOBS \<Longrightarrow>
      fst (schedi_cache_job_ready s j) = -1
      \<and> ready_jobs_cache (snd (schedi_cache_job_ready s j)) = ready_jobs_cache s"
    and "same_rest s (snd (schedi_cache_job_ready s j))"
  using assms cache_ok_put_first(1)[OF assms, of j] first_free_full[OF assms]
    mset_cached_put[OF _ at_first_free, of "ready_jobs_cache s" j]
  by (auto simp: cache_job_ready_eq cache_ok_def)

interpretation cache_bag: job_bag "cache_ok :: jobsys \<Rightarrow> bool"
  "\<lambda>s. mset (cached (ready_jobs_cache s))" SCHEDI_MAXIMUM_JOBS
  schedi_cache_job_ready schedi_cache_job_ready_pop "schedi_ready_jobs_cache_reorganize_tick b" for b
proof (unfold_locales, goal_cases)
  case (3 s j)
  then show ?case using cache_put_bag(3)[of s j] by simp
next
  case (5 s)
  then show ?case by (rule cache_pop_bag(2))
qed (simp_all add: cache_put_bag cache_pop_bag(1) tick_cached)

text \<open>At most \<open>2 ^ 30\<close> changes between two ticks, in a sequence of operations.\<close>

fun ticks_in_time :: "nat \<Rightarrow> cache_op list \<Rightarrow> bool" where
  "ticks_in_time n [] = (n < 2 ^ 30)"
| "ticks_in_time n (CTick # ops) = (n < 2 ^ 30 \<and> ticks_in_time 0 ops)"
| "ticks_in_time n (op # ops) = ticks_in_time (Suc n) ops"

lemma ticks_in_time_less: "ticks_in_time n ops \<Longrightarrow> n < 2 ^ 30"
  by (induction n ops rule: ticks_in_time.induct) auto

abbreviation cache_session :: "build \<Rightarrow> cache_op list \<Rightarrow> jobsys \<Rightarrow> nat list \<times> nat list \<times> jobsys" where
  "cache_session b \<equiv> bag_session schedi_cache_job_ready schedi_cache_job_ready_pop
     (schedi_ready_jobs_cache_reorganize_tick b)"

lemma session_reach_ok:
  assumes "ticks_in_time n ops" "reach_ok n s" "cache_session b ops s = (a, p, s')"
  shows "\<exists>m < 2 ^ 30. reach_ok m s'"
  using assms
proof (induction n ops arbitrary: s a p rule: ticks_in_time.induct[case_names nil tick put pop])
  case (nil n)
  then show ?case by auto
next
  case (tick n ops)
  then show ?case using reach_ok_tick(1)[of n s b] by auto
next
  case (put n j ops)
  have "n < 2 ^ 30" using ticks_in_time_less[of "Suc n" ops] put.prems(1) by simp
  with put reach_ok_put[of n s j] show ?case by (auto split: prod.splits)
next
  case (pop n ops)
  have "n < 2 ^ 30" using ticks_in_time_less[of "Suc n" ops] pop.prems(1) by simp
  from pop reach_ok_pop[OF _ this, of s] show ?case by (auto split: prod.splits)
qed

lemma static_reach_ok: "reach_ok 0 static_jobsys"
proof -
  have "cached (replicate 256 None) = []" by (simp add: cached_def)
  moreover have "gap_set (replicate 256 None) = {}" by (auto simp: gap_set_def)
  ultimately show ?thesis
    by (simp add: reach_ok_def cache_ok_def static_jobsys_def SCHEDI_MAXIMUM_JOBS_def)
qed

section \<open>Properties\<close>

text \<open>
  C10: No ready job is lost or handed out twice: in every sequence of puts, pops
  and reorganisation ticks, the jobs accepted into the cache are exactly the jobs
  handed out together with the jobs that are still in it.
\<close>

theorem ready_cache_conserves_jobs:
  assumes "cache_session b ops static_jobsys = (accepted, popped, s)"
  shows "mset accepted = mset popped + mset (cached (ready_jobs_cache s))"
proof -
  have "cache_ok static_jobsys" using static_reach_ok by (simp add: reach_ok_def)
  moreover have "cached (ready_jobs_cache static_jobsys) = []"
    by (simp add: static_jobsys_def cached_def)
  ultimately show ?thesis using cache_bag.conserved[OF _ assms] by simp
qed

definition example_build :: build where
  "example_build = \<lparr>lockless_readyjob = False, ext_timeout = False, readyjob_unlock_ret = 0,
     job_addr = (\<lambda>j. 4096 + 160 * int j)\<rparr>"

theorem ready_cache_conserves_jobs_witness:
  "\<exists>s. cache_session example_build [CPut 4, CPut 9, CPop, CTick] static_jobsys = ([4, 9], [4], s)
     \<and> mset [4, 9] = mset [4] + mset (cached (ready_jobs_cache s))"
proof -
  have "fst (cache_session example_build [CPut 4, CPut 9, CPop, CTick] static_jobsys) = [4, 9]"
    "fst (snd (cache_session example_build [CPut 4, CPut 9, CPop, CTick] static_jobsys)) = [4]"
    by code_simp+
  then obtain s where s:
    "cache_session example_build [CPut 4, CPut 9, CPop, CTick] static_jobsys = ([4, 9], [4], s)"
    by (metis prod.collapse)
  with ready_cache_conserves_jobs[OF s] show ?thesis by blast
qed

text \<open>
  C6: Ready jobs stay in reach: although a pop only looks at the first
  \<^verbatim>\<open>SCHEDI_JOBS_CACHE_CHECK\<close> places, after every reorganisation tick it finds a job
  if there is one, as long as fewer than \<open>2 ^ 30\<close> operations happen between two
  ticks.
\<close>

theorem ready_job_found_after_tick:
  assumes "cache_session b ops static_jobsys = (accepted, popped, s)" "ticks_in_time 0 ops"
  shows "fst (schedi_cache_job_ready_pop (schedi_ready_jobs_cache_reorganize_tick b s)) = None
    \<longleftrightarrow> cached (ready_jobs_cache s) = []"
proof -
  from session_reach_ok[OF assms(2) static_reach_ok assms(1)] obtain m
    where m: "m < 2 ^ 30" "reach_ok m s" by blast
  have "cache_ok s" using m(2) by (simp add: reach_ok_def)
  from tick_cached(1)[OF this, of b]
  have "cached (ready_jobs_cache (schedi_ready_jobs_cache_reorganize_tick b s)) = []
      \<longleftrightarrow> cached (ready_jobs_cache s) = []" by (metis mset_zero_iff)
  moreover have "cache_ok (schedi_ready_jobs_cache_reorganize_tick b s)"
    using reach_ok_tick(1)[OF m(2,1)] by (simp add: reach_ok_def)
  from pop_finds[OF this reach_ok_tick(2)[OF m(2,1)]] show ?thesis using calculation by simp
qed

theorem ready_job_found_after_tick_witness:
  "\<exists>s. cache_session example_build [CPut 4, CTick] static_jobsys = ([4], [], s)
     \<and> ticks_in_time 0 [CPut 4, CTick]
     \<and> fst (schedi_cache_job_ready_pop (schedi_ready_jobs_cache_reorganize_tick example_build s)) \<noteq> None"
proof -
  have t: "ticks_in_time 0 [CPut 4, CTick]" by simp
  have "fst (cache_session example_build [CPut 4, CTick] static_jobsys) = [4]"
    "fst (snd (cache_session example_build [CPut 4, CTick] static_jobsys)) = []" by code_simp+
  then obtain s where s: "cache_session example_build [CPut 4, CTick] static_jobsys = ([4], [], s)"
    by (metis prod.collapse)
  have "cached (ready_jobs_cache (snd (snd (cache_session example_build [CPut 4, CTick] static_jobsys)))) = [4]"
    by code_simp
  with ready_job_found_after_tick[OF s t] s t show ?thesis by auto
qed

end
