(* ===== verification/Job_Core.thy ===== *)
theory Job_Core
  imports Slot_Sections Ready_Cache
begin

text \<open>
  The operations on jobs of \<^verbatim>\<open>src/src/jobs.c\<close>: the marks on the meta flag, the
  readiness update and \<^verbatim>\<open>schedi_job_setready\<close>, picking a ready job, creating and
  destroying jobs, the returns of epoll requests and the completion indicator.
  Each definition is one call run without interference; \<open>Meta_Flag\<close> shows for the
  words what interleaved calls do. Calls of the fast log are left out, and a
  destructor is recorded in \<open>dtor_calls\<close> and does not call back.
\<close>

section \<open>Marks\<close>

definition schedi_job_mark_or ::
  "'a jobsys_scheme \<Rightarrow> nat \<Rightarrow> u32 \<Rightarrow> u32 \<Rightarrow> bool \<Rightarrow> u32 \<times> 'a jobsys_scheme" where
  "schedi_job_mark_or s job flag banned_flags ban_access =
     meta_cas (mark_or_body flag banned_flags ban_access) s job"

definition schedi_job_unmark_or ::
  "'a jobsys_scheme \<Rightarrow> nat \<Rightarrow> u32 \<Rightarrow> u32 \<Rightarrow> bool \<Rightarrow> u32 \<times> 'a jobsys_scheme" where
  "schedi_job_unmark_or s job flag banned_flags ban_access =
     meta_cas (unmark_or_body flag banned_flags ban_access) s job"

definition schedi_job_mark_or_default :: "'a jobsys_scheme \<Rightarrow> nat \<Rightarrow> u32 \<Rightarrow> u32 \<times> 'a jobsys_scheme" where
  "schedi_job_mark_or_default s job flag =
     schedi_job_mark_or s job flag SCHEDI_JOB_METAFLAG_UNSTABLE False"

definition schedi_job_mark_alive :: "'a jobsys_scheme \<Rightarrow> nat \<Rightarrow> u32 \<times> 'a jobsys_scheme" where
  "schedi_job_mark_alive s job =
     schedi_job_mark_or s job SCHEDI_JOB_METAFLAG_ALIVE SCHEDI_JOB_METAFLAG_UNSTABLE False"

definition schedi_job_mark_executing :: "'a jobsys_scheme \<Rightarrow> nat \<Rightarrow> u32 \<times> 'a jobsys_scheme" where
  "schedi_job_mark_executing s job =
     schedi_job_mark_or s job SCHEDI_JOB_METAFLAG_EXECUTING
       (SCHEDI_JOB_METAFLAG_UNSTABLE OR SCHEDI_JOB_METAFLAG_EXECUTING) False"

definition schedi_job_unmark_executing :: "'a jobsys_scheme \<Rightarrow> nat \<Rightarrow> u32 \<times> 'a jobsys_scheme" where
  "schedi_job_unmark_executing s job =
     schedi_job_unmark_or s job SCHEDI_JOB_METAFLAG_EXECUTING SCHEDI_JOB_METAFLAG_UNSTABLE False"

definition schedi_job_mark_unstable :: "'a jobsys_scheme \<Rightarrow> nat \<Rightarrow> u32 \<times> 'a jobsys_scheme" where
  "schedi_job_mark_unstable s job =
     schedi_job_mark_or s job SCHEDI_JOB_METAFLAG_UNSTABLE
       (SCHEDI_JOB_METAFLAG_UNSTABLE OR SCHEDI_JOB_METAFLAG_EXECUTING
         OR SCHEDI_JOB_METAFLAG_READY) True"

definition schedi_job_mark_wlldestroy :: "'a jobsys_scheme \<Rightarrow> nat \<Rightarrow> u32 \<times> 'a jobsys_scheme" where
  "schedi_job_mark_wlldestroy s job =
     schedi_job_mark_or s job SCHEDI_JOB_METAFLAG_WLLDESTROY SCHEDI_JOB_METAFLAG_UNSTABLE False"

definition schedi_job_unmark_wlldestroy :: "'a jobsys_scheme \<Rightarrow> nat \<Rightarrow> u32 \<times> 'a jobsys_scheme" where
  "schedi_job_unmark_wlldestroy s job =
     schedi_job_unmark_or s job SCHEDI_JOB_METAFLAG_WLLDESTROY SCHEDI_JOB_METAFLAG_UNSTABLE False"

definition schedi_job_mark_access :: "'a jobsys_scheme \<Rightarrow> nat \<Rightarrow> u32 \<times> 'a jobsys_scheme" where
  "schedi_job_mark_access s job = meta_cas mark_access_body s job"

definition schedi_job_unmark_access :: "'a jobsys_scheme \<Rightarrow> nat \<Rightarrow> u32 \<times> 'a jobsys_scheme" where
  "schedi_job_unmark_access s job = meta_cas unmark_access_body s job"

definition schedi_job_mark_ready :: "'a jobsys_scheme \<Rightarrow> nat \<Rightarrow> u32 \<times> 'a jobsys_scheme" where
  "schedi_job_mark_ready s job =
     schedi_job_mark_or s job SCHEDI_JOB_METAFLAG_READY
       (SCHEDI_JOB_METAFLAG_UNSTABLE OR SCHEDI_JOB_METAFLAG_WLLDESTROY
         OR SCHEDI_JOB_METAFLAG_READY) False"

definition schedi_job_unmark_ready :: "'a jobsys_scheme \<Rightarrow> nat \<Rightarrow> u32 \<times> 'a jobsys_scheme" where
  "schedi_job_unmark_ready s job =
     schedi_job_unmark_or s job SCHEDI_JOB_METAFLAG_READY
       (SCHEDI_JOB_METAFLAG_UNSTABLE OR SCHEDI_JOB_METAFLAG_WLLDESTROY) False"

definition schedi_job_unmark_readybasic :: "'a jobsys_scheme \<Rightarrow> nat \<Rightarrow> u32 \<times> 'a jobsys_scheme" where
  "schedi_job_unmark_readybasic s job =
     schedi_job_unmark_or s job SCHEDI_JOB_METAFLAG_READYBASIC
       (SCHEDI_JOB_METAFLAG_UNSTABLE OR SCHEDI_JOB_METAFLAG_WLLDESTROY) False"

section \<open>Readiness\<close>

definition schedi_job_setready :: "build \<Rightarrow> 'a jobsys_scheme \<Rightarrow> nat \<Rightarrow> int \<times> 'a jobsys_scheme" where
  "schedi_job_setready b s job =
     (let (m, s1) = schedi_job_mark_ready s job;
          ret = (if m \<noteq> 0 then -1 else 0);
          s2 = upd_job job (\<lambda>x. x\<lparr>state := schedi_job_state_readywaiting\<rparr>) s1;
          (ret', s3) =
            (if ret = 0
             then let (c, s') = schedi_cache_job_ready s2 job
                  in if c \<noteq> 0 then (-2, snd (schedi_job_unmark_ready s' job)) else (0, s')
             else (ret, s2));
          s4 = (if \<not> lockless_readyjob b \<and> ret' = 0
                then s3\<lparr>readyjob_signals := readyjob_signals s3 + 1\<rparr> else s3);
          ret'' = (if \<not> lockless_readyjob b \<and> readyjob_unlock_ret b \<noteq> 0 then ret' - 10 else ret')
      in (ret'', s4))"

definition schedi_job_meta_flag_cas_update ::
  "build \<Rightarrow> 'a jobsys_scheme \<Rightarrow> nat \<Rightarrow> int \<Rightarrow> int \<Rightarrow> int \<Rightarrow> u32 \<Rightarrow> u32 \<Rightarrow> bool \<Rightarrow> int \<times> 'a jobsys_scheme" where
  "schedi_job_meta_flag_cas_update b s job sock_delta wait_delta jobcount_delta flag banned_flags
      ban_access =
     (let rs = required_available_sockets (jobs s job);
          rj = required_available_jobs (jobs s job);
          ((ret, call), s1) = meta_cas (cas_update_body rs rj sock_delta wait_delta jobcount_delta
             flag banned_flags ban_access) s job
      in (ret, if call then snd (schedi_job_setready b s1 job) else s1))"

definition schedi_job_mark_or_readiness ::
  "build \<Rightarrow> 'a jobsys_scheme \<Rightarrow> nat \<Rightarrow> u32 \<Rightarrow> u32 \<Rightarrow> bool \<Rightarrow> u32 \<times> 'a jobsys_scheme" where
  "schedi_job_mark_or_readiness b s job flag banned_flags ban_access =
     (let (ret, s1) = schedi_job_meta_flag_cas_update b s job 0 0 0 flag banned_flags ban_access
      in (if ret > 0 then word_of_int ret else 0, s1))"

definition schedi_job_mark_readybasic :: "build \<Rightarrow> 'a jobsys_scheme \<Rightarrow> nat \<Rightarrow> u32 \<times> 'a jobsys_scheme" where
  "schedi_job_mark_readybasic b s job =
     schedi_job_mark_or_readiness b s job SCHEDI_JOB_METAFLAG_READYBASIC
       (SCHEDI_JOB_METAFLAG_UNSTABLE OR SCHEDI_JOB_METAFLAG_WLLDESTROY) False"

definition schedi_job_required_available_socket :: "build \<Rightarrow> 'a jobsys_scheme \<Rightarrow> nat \<Rightarrow> int \<Rightarrow> 'a jobsys_scheme" where
  "schedi_job_required_available_socket b s job n =
     snd (schedi_job_meta_flag_cas_update b
       (upd_job job (\<lambda>x. x\<lparr>required_available_sockets := n\<rparr>) s) job 0 0 0 0 0 False)"

definition schedi_job_tool_job :: "'a jobsys_scheme \<Rightarrow> nat \<Rightarrow> nat \<Rightarrow> 'a jobsys_scheme" where
  "schedi_job_tool_job s user_job target_job =
     upd_job target_job (\<lambda>x. x\<lparr>requested_job := Some user_job,
       requested_job_gen := gen (jobs s user_job)\<rparr>) s"

definition schedi_job_required_available_jobs :: "build \<Rightarrow> 'a jobsys_scheme \<Rightarrow> nat \<Rightarrow> int \<Rightarrow> 'a jobsys_scheme" where
  "schedi_job_required_available_jobs b s job n =
     snd (schedi_job_meta_flag_cas_update b
       (upd_job job (\<lambda>x. x\<lparr>required_available_jobs := n\<rparr>) s) job 0 0 0 0 0 False)"

definition schedi_job_add_available_job :: "build \<Rightarrow> 'a jobsys_scheme \<Rightarrow> nat \<Rightarrow> int \<times> 'a jobsys_scheme" where
  "schedi_job_add_available_job b s job = schedi_job_meta_flag_cas_update b s job 0 0 1 0 0 False"

section \<open>Creation and destruction\<close>

definition schedi_job_create ::
  "'a jobsys_scheme \<Rightarrow> nat \<Rightarrow> nat \<Rightarrow> nat option \<Rightarrow> nat option \<times> 'a jobsys_scheme" where
  "schedi_job_create s context run dtor' =
     (case section_claim s of
        (None, s1) \<Rightarrow> (None, s1)
      | (Some job, s1) \<Rightarrow>
          (Some job, upd_job job (\<lambda>x. x\<lparr>phase := 0, state := schedi_job_state_suspended,
             requested_job := None, requested_job_gen := 0, job_context := context,
             run_fn := run, dtor := dtor', total_req := 0, ret_count := 0, err_count := 0,
             required_available_sockets := 0, required_available_jobs := 0,
             meta_flag := SCHEDI_JOB_METAFLAG_ALIVE OR SCHEDI_JOB_METAFLAG_READYEPOLLSOCK
               OR SCHEDI_JOB_METAFLAG_READYEPOLLTOOL OR SCHEDI_JOB_METAFLAG_READYJOB\<rparr>) s1))"

definition schedi_job_destroy_now :: "'a jobsys_scheme \<Rightarrow> nat \<Rightarrow> int \<times> 'a jobsys_scheme" where
  "schedi_job_destroy_now s job =
     (let (m, s1) = schedi_job_mark_unstable s job
      in if m = 0 then (0, s1)
         else
           let s2 = upd_job job (\<lambda>x. x\<lparr>gen := gen x + 1, state := schedi_job_state_destroying\<rparr>) s1;
               s3 = (case dtor (jobs s2 job) of
                       None \<Rightarrow> s2
                     | Some f \<Rightarrow> s2\<lparr>dtor_calls := dtor_calls s2 @ [(f, job_context (jobs s2 job))]\<rparr>);
               s4 = upd_job job (\<lambda>x. x\<lparr>state := schedi_job_state_nulljob, meta_flag := 0\<rparr>) s3
           in (1, section_release s4 job))"

fun destroy_queue_loop :: "build \<Rightarrow> nat \<Rightarrow> 'a jobsys_scheme \<Rightarrow> 'a jobsys_scheme" where
  "destroy_queue_loop b 0 s = s"
| "destroy_queue_loop b (Suc n) s =
     (case dq_super_pop (job_addr b) (destroy_q s) of
        (None, q) \<Rightarrow> s\<lparr>destroy_q := q\<rparr>
      | (Some job, q) \<Rightarrow>
          let (r, s1) = schedi_job_destroy_now (s\<lparr>destroy_q := q\<rparr>) job
          in if r = 0
             then destroy_queue_loop b n
                (s1\<lparr>destroy_q := snd (dq_super_push (job_addr b) (destroy_q s1) job)\<rparr>)
             else destroy_queue_loop b n (s1\<lparr>destroy_q := dq_dec_count (destroy_q s1)\<rparr>))"

definition schedi_job_destroy_queue_check :: "build \<Rightarrow> 'a jobsys_scheme \<Rightarrow> 'a jobsys_scheme" where
  "schedi_job_destroy_queue_check b s =
     destroy_queue_loop b (unat (HTC_COUNT (dq_htc (destroy_q s)))) s"

definition schedi_job_destroy :: "build \<Rightarrow> 'a jobsys_scheme \<Rightarrow> nat \<Rightarrow> int \<times> 'a jobsys_scheme" where
  "schedi_job_destroy b s job =
     (let s1 = snd (schedi_job_mark_wlldestroy s job);
          (r, s2) = schedi_job_destroy_now s1 job
      in if r \<noteq> 0 then (0, s2)
         else
           let (p, q) = dq_push (job_addr b) (destroy_q s2) job;
               s3 = s2\<lparr>destroy_q := q\<rparr>
           in if p < 0
              then (-2, snd (schedi_job_mark_or_default s3 job SCHEDI_JOB_METAFLAG_DESTROYNOTENT))
              else (-1, s3))"

section \<open>Picking a ready job\<close>

lemma pop_shrinks:
  assumes "schedi_cache_job_ready_pop s = (Some j, s1)"
  shows "length (cached (ready_jobs_cache s1)) < length (cached (ready_jobs_cache s))"
proof -
  from assms obtain c where c: "cache_take_scan SCHEDI_JOBS_CACHE_CHECK (ready_jobs_cache s) = Some (j, c)"
    and s1: "ready_jobs_cache s1 = c"
    by (auto simp: schedi_cache_job_ready_pop_def schedi_ready_jobs_cache_sub_job_count_def Let_def
        split: if_splits option.splits prod.splits)
  from cache_take_scan_Some[OF c] obtain i where "i < length (ready_jobs_cache s)"
    "ready_jobs_cache s ! i = Some j" "c = (ready_jobs_cache s)[i := None]" by blast
  with length_cached_take[of i "ready_jobs_cache s" j] s1 show ?thesis by simp
qed

lemma meta_cas_frame [simp]:
  "ready_jobs_cache (snd (meta_cas f s j)) = ready_jobs_cache s"
  "job_count (snd (meta_cas f s j)) = job_count s"
  "reorganize_counter (snd (meta_cas f s j)) = reorganize_counter s"
  "ja_flags (snd (meta_cas f s j)) = ja_flags s"
  "empty_sections (snd (meta_cas f s j)) = empty_sections s"
  by (simp_all add: meta_cas_def split: prod.split)

lemma meta_cas_sys_frame [simp]:
  "destroy_q (snd (meta_cas f s j)) = destroy_q s"
  "readyjob_signals (snd (meta_cas f s j)) = readyjob_signals s"
  "dtor_calls (snd (meta_cas f s j)) = dtor_calls s"
  "completed (snd (meta_cas f s j)) = completed s"
  by (simp_all add: meta_cas_def split: prod.split)

text \<open>
  The label \<^verbatim>\<open>_pop_pick\<close> is a recursive call; every pass takes a job out of the cache,
  so it ends.
\<close>

function schedi_job_pickready :: "'a jobsys_scheme \<Rightarrow> nat option \<times> 'a jobsys_scheme" where
  "schedi_job_pickready s =
     (case schedi_cache_job_ready_pop s of
        (None, s1) \<Rightarrow> (None, s1)
      | (Some job, s1) \<Rightarrow>
          let (bans, s2) = schedi_job_mark_access s1 job
          in if bans AND SCHEDI_JOB_METAFLAG_UNSTABLE \<noteq> 0 then schedi_job_pickready s2
             else if bans AND SCHEDI_JOB_METAFLAG_ACCESS \<noteq> 0
             then (None, snd (schedi_cache_job_ready s2 job))
             else if bans \<noteq> 0 then (None, s2)
             else
               let s3 = snd (schedi_job_unmark_ready s2 job);
                   s4 = snd (schedi_job_unmark_readybasic s3 job)
               in (Some job, s4))"
  by pat_completeness auto
termination
proof (relation "measure (\<lambda>s. length (cached (ready_jobs_cache s)))", goal_cases)
  case prems: (2 s o1 s1 job p bans s2)
  then have "ready_jobs_cache s2 = ready_jobs_cache s1"
    using meta_cas_frame(1)[of mark_access_body s1 job]
    by (metis schedi_job_mark_access_def snd_conv)
  with prems pop_shrinks[of s job s1] show ?case by simp
qed simp

declare schedi_job_pickready.simps [simp del]


section \<open>Epoll requests and completion\<close>

text \<open>
  A request names its owner, the generation it was made for, and the job whose
  \<^verbatim>\<open>epoll_list\<close> it counts in.
\<close>

record epoll_request =
  req_socketfd :: int
  req_owner :: nat
  req_job_gen :: u64
  req_list :: nat

text \<open>The loop that waits for access; not returning is \<open>None\<close>.\<close>

partial_function (option) request_access_loop ::
  "'a jobsys_scheme \<Rightarrow> nat \<Rightarrow> (u32 \<times> 'a jobsys_scheme) option" where
  "request_access_loop s owner =
     (let (bans, s1) = schedi_job_mark_access s owner
      in if bans \<noteq> 0 \<and> bans AND SCHEDI_JOB_METAFLAG_UNSTABLE = 0
         then request_access_loop s1 owner
         else Some (bans, s1))"

definition schedi_job_epoll_request_return ::
  "build \<Rightarrow> 'a jobsys_scheme \<Rightarrow> epoll_request \<Rightarrow> bool \<Rightarrow> (int \<times> 'a jobsys_scheme) option" where
  "schedi_job_epoll_request_return b s req error =
     (case request_access_loop s (req_owner req) of
        None \<Rightarrow> None
      | Some (bans, s1) \<Rightarrow>
          if bans \<noteq> 0 then Some (-1, s1)
          else if gen (jobs s1 (req_owner req)) \<noteq> req_job_gen req
          then Some (-1, snd (schedi_job_unmark_access s1 (req_owner req)))
          else
            let s2 = (if error
                      then upd_job (req_list req) (\<lambda>x. x\<lparr>err_count := err_count x + 1\<rparr>) s1
                      else upd_job (req_list req) (\<lambda>x. x\<lparr>ret_count := ret_count x + 1\<rparr>) s1);
                s3 = snd (schedi_job_meta_flag_cas_update b s2 (req_owner req) 0 (-1) 0 0 0 False);
                s4 = snd (schedi_job_unmark_access s3 (req_owner req))
            in Some (0, s4))"

definition schedi_completion_indicator_init :: "'a jobsys_scheme \<Rightarrow> nat \<Rightarrow> 'a jobsys_scheme" where
  "schedi_completion_indicator_init s indicator = s\<lparr>completed := (completed s)(indicator := False)\<rparr>"

definition schedi_job_completion_indicate :: "'a jobsys_scheme \<Rightarrow> nat \<Rightarrow> 'a jobsys_scheme" where
  "schedi_job_completion_indicate s job =
     (case completion_indicator (jobs s job) of
        None \<Rightarrow> s
      | Some i \<Rightarrow> s\<lparr>completed := (completed s)(i := True)\<rparr>)"

text \<open>
  Setting up and tearing down: the arguments are the results of the calls to
  initialise or destroy the condition variable, its mutex and the section lock.
\<close>

definition schedi_job_init :: "build \<Rightarrow> int \<Rightarrow> int \<Rightarrow> int \<Rightarrow> 'a jobsys_scheme \<Rightarrow> int \<times> 'a jobsys_scheme" where
  "schedi_job_init b cond_err mutex_err section_err s =
     ((if lockless_readyjob b then 0 else cond_err OR mutex_err) OR section_err, sections_init s)"

definition schedi_job_deinit :: "build \<Rightarrow> int \<Rightarrow> int \<Rightarrow> int \<Rightarrow> int" where
  "schedi_job_deinit b cond_err mutex_err section_err =
     (if lockless_readyjob b then 0 else cond_err OR mutex_err) OR section_err"

section \<open>The effect of the marks\<close>

abbreviation meta :: "'a job_array_scheme \<Rightarrow> nat \<Rightarrow> u32" where
  "meta s j \<equiv> meta_flag (jobs s j)"

definition set_meta :: "nat \<Rightarrow> u32 \<Rightarrow> 'a job_array_scheme \<Rightarrow> 'a job_array_scheme" where
  "set_meta j m s = upd_job j (\<lambda>x. x\<lparr>meta_flag := m\<rparr>) s"

lemma set_meta_same [simp]: "set_meta j (meta s j) s = s"
  by (simp add: set_meta_def upd_job_def)

lemma set_meta_frame [simp]:
  "jobs (set_meta j m s) = (jobs s)(j := (jobs s j)\<lparr>meta_flag := m\<rparr>)"
  "ready_jobs_cache (set_meta j m s) = ready_jobs_cache s"
  "job_count (set_meta j m s) = job_count s"
  "reorganize_counter (set_meta j m s) = reorganize_counter s"
  "ja_flags (set_meta j m s) = ja_flags s"
  "empty_sections (set_meta j m s) = empty_sections s"
  by (simp_all add: set_meta_def)

lemma set_meta_sys_frame [simp]:
  "destroy_q (set_meta j m s) = destroy_q s"
  "readyjob_signals (set_meta j m s) = readyjob_signals s"
  "dtor_calls (set_meta j m s) = dtor_calls s"
  "completed (set_meta j m s) = completed s"
  by (simp_all add: set_meta_def)

lemma meta_cas_eq:
  "meta_cas f s j = (case f (meta s j) of CasReturn r \<Rightarrow> (r, s) | CasTry w r \<Rightarrow> (r, set_meta j w s))"
  by (simp add: meta_cas_def cas_seq_def set_meta_def[symmetric] split: cas_step.split)

lemma mark_or_eq:
  "schedi_job_mark_or s j f bn ba =
     (if meta_ban bn ba (meta s j) = 0 then (0, set_meta j (meta s j OR f) s)
      else (meta_ban bn ba (meta s j), s))"
  by (simp add: schedi_job_mark_or_def meta_cas_eq mark_or_body_def)

lemma unmark_or_eq:
  "schedi_job_unmark_or s j f bn ba =
     (if meta_ban bn ba (meta s j) = 0 \<and> meta s j AND f \<noteq> 0 then (0, set_meta j (meta s j AND NOT f) s)
      else (meta_ban bn ba (meta s j), s))"
  by (simp add: schedi_job_unmark_or_def meta_cas_eq unmark_or_body_def Let_def)

lemma and_not_absent: "m AND f = 0 \<Longrightarrow> m AND NOT f = (m :: u32)"
proof -
  assume "m AND f = 0"
  then have "\<not> (bit m n \<and> bit f n)" for n by (metis bit_and_iff bit_0_eq bot_apply bot_bool_def)
  then show "m AND NOT f = m"
    by (intro bit_word_eqI) (auto simp: bit_and_iff bit_not_iff dest: bit_imp_le_length)
qed

lemma unmark_or_snd:
  "snd (schedi_job_unmark_or s j f bn ba) =
     (if meta_ban bn ba (meta s j) = 0 then set_meta j (meta s j AND NOT f) s else s)"
  by (simp add: unmark_or_eq and_not_absent)

lemmas mark_defs = schedi_job_mark_or_default_def schedi_job_mark_alive_def
  schedi_job_mark_executing_def schedi_job_unmark_executing_def schedi_job_mark_unstable_def
  schedi_job_mark_wlldestroy_def schedi_job_unmark_wlldestroy_def schedi_job_mark_ready_def
  schedi_job_unmark_ready_def schedi_job_unmark_readybasic_def

lemma mark_access_eq:
  "schedi_job_mark_access s j =
     (let m = meta s j;
          ban = m AND (SCHEDI_JOB_METAFLAG_UNSTABLE OR SCHEDI_JOB_METAFLAG_WLLDESTROY)
      in if ban \<noteq> 0 then (ban, s)
         else if SCHEDI_JOB_METAFLAG_GETACCESS m = 15 then (m AND SCHEDI_JOB_METAFLAG_ACCESS, s)
         else (0, set_meta j (SCHEDI_JOB_METAFLAG_SETACCESS m (SCHEDI_JOB_METAFLAG_GETACCESS m + 1)) s))"
  by (simp add: schedi_job_mark_access_def meta_cas_eq mark_access_body_def Let_def)

lemma unmark_access_eq:
  "schedi_job_unmark_access s j =
     (let m = meta s j
      in if bit m 1 then (m AND SCHEDI_JOB_METAFLAG_UNSTABLE, s)
         else (0, set_meta j (SCHEDI_JOB_METAFLAG_SETACCESS m (SCHEDI_JOB_METAFLAG_GETACCESS m - 1)) s))"
  by (simp add: schedi_job_unmark_access_def meta_cas_eq unmark_access_body_def Let_def flag_clear_iff)

end
