(* ===== verification/Scheduler.thy ===== *)
theory Scheduler
  imports Job_Core
begin

text \<open>
  What the operations on jobs keep of the scheduler's state: a job is in the
  ready cache exactly when its READY flag says so, and a job whose readiness
  conditions all hold is READY. The last section lets clients and workers run the
  operations in any order.
\<close>

section \<open>The invariant\<close>

abbreviation ready_bag :: "'a job_array_scheme \<Rightarrow> nat multiset" where
  "ready_bag s \<equiv> mset (cached (ready_jobs_cache s))"

text \<open>
  One slot: \<open>m\<close> its word, \<open>n\<close> how often it is in the cache. A job that is being
  destroyed (UNSTABLE or WLLDESTROY) may be READY and not cached: pickready
  drops it.
\<close>

definition settled :: "u32 \<Rightarrow> bool" where
  "settled m \<longleftrightarrow> m AND (SCHEDI_JOB_METAFLAG_UNSTABLE OR SCHEDI_JOB_METAFLAG_WLLDESTROY) = 0"

definition slot_cached :: "u32 \<Rightarrow> nat \<Rightarrow> bool" where
  "slot_cached m n \<longleftrightarrow> n \<le> of_bool (m AND SCHEDI_JOB_METAFLAG_READY \<noteq> 0)
     \<and> (m AND SCHEDI_JOB_METAFLAG_READY \<noteq> 0 \<and> settled m \<longrightarrow> n = 1)"

definition slot_ok :: "u32 \<Rightarrow> nat \<Rightarrow> bool" where
  "slot_ok m n \<longleftrightarrow> slot_cached m n
     \<and> (schedi_job_meta_flag_check_allready m \<and> settled m \<longrightarrow> m AND SCHEDI_JOB_METAFLAG_READY \<noteq> 0)"

definition sched_inv :: "'a job_array_scheme \<Rightarrow> bool" where
  "sched_inv s \<longleftrightarrow> cache_ok s \<and> (\<forall>j \<in># ready_bag s. j < SCHEDI_MAXIMUM_JOBS)
     \<and> (\<forall>j < SCHEDI_MAXIMUM_JOBS. slot_ok (meta s j) (count (ready_bag s) j))"

text \<open>The same except that \<open>j\<close> may have become ready and not been set READY yet.\<close>

definition sched_inv_but :: "nat \<Rightarrow> 'a job_array_scheme \<Rightarrow> bool" where
  "sched_inv_but j s \<longleftrightarrow> cache_ok s \<and> (\<forall>i \<in># ready_bag s. i < SCHEDI_MAXIMUM_JOBS)
     \<and> slot_cached (meta s j) (count (ready_bag s) j)
     \<and> (\<forall>i < SCHEDI_MAXIMUM_JOBS. i \<noteq> j \<longrightarrow> slot_ok (meta s i) (count (ready_bag s) i))"

lemma cache_ok_set_meta [simp]: "cache_ok (set_meta j m s) = cache_ok s"
  by (simp add: cache_ok_def)

lemma settled_iff: "settled m \<longleftrightarrow> \<not> bit m 1 \<and> \<not> bit m 3"
  by (simp add: settled_def ban_iffs)

lemma slot_cached_bits:
  "slot_cached m n \<longleftrightarrow> n \<le> of_bool (bit m 5) \<and> (bit m 5 \<and> \<not> bit m 1 \<and> \<not> bit m 3 \<longrightarrow> n = 1)"
  by (simp add: slot_cached_def flag_clear_iff settled_iff)

lemma slot_ok_bits:
  "slot_ok m n \<longleftrightarrow> slot_cached m n
     \<and> (bit m 6 \<and> bit m 7 \<and> bit m 8 \<and> bit m 21 \<and> \<not> bit m 1 \<and> \<not> bit m 3 \<longrightarrow> bit m 5)"
  by (auto simp: slot_ok_def flag_clear_iff settled_iff allready_iff)

lemmas slot_iffs = slot_ok_bits slot_cached_bits

lemma slot_ok_facts:
  assumes "slot_ok m n"
  shows "n \<le> 1" "0 < n \<longrightarrow> bit m 5" "settled m \<longrightarrow> bit m 5 \<longrightarrow> 0 < n"
    and "settled m \<longrightarrow> schedi_job_meta_flag_check_allready m \<longrightarrow> bit m 5"
  using assms unfolding slot_iffs settled_iff allready_iff
  by (auto simp: of_bool_def split: if_splits)

lemma sched_inv_but_iff:
  "j < SCHEDI_MAXIMUM_JOBS \<Longrightarrow> sched_inv s \<longleftrightarrow>
     sched_inv_but j s \<and> slot_ok (meta s j) (count (ready_bag s) j)"
  by (auto simp: sched_inv_def sched_inv_but_def slot_ok_def)

text \<open>Only the words and the cache matter.\<close>

lemma sched_inv_cong:
  assumes "ready_jobs_cache s' = ready_jobs_cache s" "job_count s' = job_count s"
    and "\<And>i. i < SCHEDI_MAXIMUM_JOBS \<Longrightarrow> meta s' i = meta s i"
  shows "sched_inv s' = sched_inv s"
  using assms by (auto simp: sched_inv_def cache_ok_def)

lemma sched_inv_but_set:
  assumes "sched_inv s \<or> sched_inv_but j s" "j < SCHEDI_MAXIMUM_JOBS" "slot_cached m (count (ready_bag s) j)"
  shows "sched_inv_but j (set_meta j m s)"
  using assms by (auto simp: sched_inv_def sched_inv_but_def cache_ok_def)

lemma sched_inv_set:
  assumes "sched_inv s" "slot_ok m (count (ready_bag s) j)"
  shows "sched_inv (set_meta j m s)"
  using assms by (auto simp: sched_inv_def cache_ok_def)

text \<open>A word that is READY as before, no more settled and no more ready.\<close>

lemma slot_ok_weaken:
  assumes "slot_ok m n" "bit m' 5 = bit m 5" "bit m 1 \<longrightarrow> bit m' 1" "bit m 3 \<longrightarrow> bit m' 3"
    and "schedi_job_meta_flag_check_allready m' \<longrightarrow> schedi_job_meta_flag_check_allready m"
  shows "slot_ok m' n"
  using assms unfolding slot_ok_def slot_cached_def settled_iff flag_clear_iff by auto

lemma sched_inv_weaken:
  assumes "sched_inv s" "bit m 5 = bit (meta s j) 5" "bit (meta s j) 1 \<longrightarrow> bit m 1"
    "bit (meta s j) 3 \<longrightarrow> bit m 3"
    "schedi_job_meta_flag_check_allready m \<longrightarrow> schedi_job_meta_flag_check_allready (meta s j)"
  shows "sched_inv (set_meta j m s)"
proof (cases "j < SCHEDI_MAXIMUM_JOBS")
  case True
  with assms(1) have "slot_ok (meta s j) (count (ready_bag s) j)" by (simp add: sched_inv_def)
  from slot_ok_weaken[OF this assms(2-5)] show ?thesis by (rule sched_inv_set[OF assms(1)])
next
  case False
  then show ?thesis using assms(1) by (subst sched_inv_cong) auto
qed

text \<open>The cache has a place for every job that is not in it.\<close>

lemma cache_has_room:
  assumes "\<forall>i \<in># B. i < N" "\<forall>i < N. count B i \<le> 1" "j < N" "count B j = 0"
  shows "size B < N"
proof -
  have "size B = sum (count B) (set_mset B)" by (rule size_multiset_overloaded_eq)
  also have "\<dots> \<le> sum (\<lambda>_. 1) (set_mset B)" using assms(1,2) by (intro sum_mono) simp
  also have "\<dots> = card (set_mset B)" by simp
  also have "\<dots> \<le> card ({..<N} - {j})"
    using assms(1,4) by (intro card_mono) (auto simp: count_eq_zero_iff)
  finally show ?thesis using assms(3) by simp
qed

lemma sched_room:
  assumes "sched_inv_but j s" "j < SCHEDI_MAXIMUM_JOBS" "\<not> bit (meta s j) 5"
  shows "length (cached (ready_jobs_cache s)) < SCHEDI_MAXIMUM_JOBS"
proof -
  have "\<forall>i < SCHEDI_MAXIMUM_JOBS. count (ready_bag s) i \<le> 1"
    using assms(1) unfolding sched_inv_but_def slot_iffs
    by (metis le_trans of_bool_def zero_le_one le_refl)
  moreover have "count (ready_bag s) j = 0"
    using assms(1,3) unfolding sched_inv_but_def slot_iffs by simp
  ultimately have "size (ready_bag s) < SCHEDI_MAXIMUM_JOBS"
    using assms(1,2) by (intro cache_has_room[of _ _ j]) (auto simp: sched_inv_but_def)
  then show ?thesis by simp
qed


section \<open>Setting a job ready\<close>

text \<open>The value returned after unlocking, and the signals sent on success.\<close>

definition unlocked_ret :: "build \<Rightarrow> int \<Rightarrow> int" where
  "unlocked_ret b r = (if \<not> lockless_readyjob b \<and> readyjob_unlock_ret b \<noteq> 0 then r - 10 else r)"

definition ready_signal :: "build \<Rightarrow> nat" where
  "ready_signal b = (if lockless_readyjob b then 0 else 1)"

lemma mark_ready_eq:
  "schedi_job_mark_ready s j =
     (if settled (meta s j) \<and> \<not> bit (meta s j) 5
      then (0, set_meta j (meta s j OR SCHEDI_JOB_METAFLAG_READY) s)
      else (meta s j AND (SCHEDI_JOB_METAFLAG_UNSTABLE OR SCHEDI_JOB_METAFLAG_WLLDESTROY
         OR SCHEDI_JOB_METAFLAG_READY), s))"
  by (simp add: mark_defs mark_or_eq meta_ban_def ban_iffs settled_iff)

lemma setready_banned:
  assumes "\<not> settled (meta s j) \<or> bit (meta s j) 5"
  shows "schedi_job_setready b s j =
    (unlocked_ret b (-1), upd_job j (\<lambda>x. x\<lparr>state := schedi_job_state_readywaiting\<rparr>) s)"
proof -
  have "meta s j AND (SCHEDI_JOB_METAFLAG_UNSTABLE OR SCHEDI_JOB_METAFLAG_WLLDESTROY
      OR SCHEDI_JOB_METAFLAG_READY) \<noteq> 0"
    using assms unfolding ban_iffs settled_iff by blast
  with assms show ?thesis
    by (auto simp: schedi_job_setready_def mark_ready_eq unlocked_ret_def Let_def)
qed

text \<open>The state that the cache operation of a successful call works on.\<close>

definition marked_ready :: "nat \<Rightarrow> 'a jobsys_scheme \<Rightarrow> 'a jobsys_scheme" where
  "marked_ready j s = upd_job j (\<lambda>x. x\<lparr>state := schedi_job_state_readywaiting\<rparr>)
     (set_meta j (meta s j OR SCHEDI_JOB_METAFLAG_READY) s)"

lemma marked_ready_fields [simp]:
  "jobs (marked_ready j s) = (jobs s)(j := (jobs s j)\<lparr>
     meta_flag := meta s j OR SCHEDI_JOB_METAFLAG_READY, state := schedi_job_state_readywaiting\<rparr>)"
  "ready_jobs_cache (marked_ready j s) = ready_jobs_cache s"
  "job_count (marked_ready j s) = job_count s" "empty_sections (marked_ready j s) = empty_sections s"
  "destroy_q (marked_ready j s) = destroy_q s" "dtor_calls (marked_ready j s) = dtor_calls s"
  "completed (marked_ready j s) = completed s" "readyjob_signals (marked_ready j s) = readyjob_signals s"
  "ja_flags (marked_ready j s) = ja_flags s"
  "cache_ok (marked_ready j s) = cache_ok s"
  by (simp_all add: marked_ready_def cache_ok_def)

lemma setready_room:
  assumes "settled (meta s j)" "\<not> bit (meta s j) 5" "cache_ok s"
    and "length (cached (ready_jobs_cache s)) < SCHEDI_MAXIMUM_JOBS"
  shows "fst (schedi_job_setready b s j) = unlocked_ret b 0"
    and "snd (schedi_job_setready b s j) =
      (let s' = snd (schedi_cache_job_ready (marked_ready j s) j)
       in s'\<lparr>readyjob_signals := readyjob_signals s' + ready_signal b\<rparr>)"
proof -
  let ?p = "schedi_cache_job_ready (marked_ready j s) j"
  have p: "fst ?p = 0" using cache_put_bag(2)[of "marked_ready j s" j] assms by simp
  have "schedi_job_setready b s j = (unlocked_ret b 0,
      let s' = snd ?p in s'\<lparr>readyjob_signals := readyjob_signals s' + ready_signal b\<rparr>)"
    using p assms(1,2) marked_ready_def[of j s]
    by (auto simp: schedi_job_setready_def mark_ready_eq unlocked_ret_def ready_signal_def Let_def
        split: prod.split)
  then show "fst (schedi_job_setready b s j) = unlocked_ret b 0"
    "snd (schedi_job_setready b s j) =
      (let s' = snd ?p in s'\<lparr>readyjob_signals := readyjob_signals s' + ready_signal b\<rparr>)"
    by simp_all
qed

text \<open>What a successful call changes.\<close>

lemma setready_room_fields:
  assumes "settled (meta s j)" "\<not> bit (meta s j) 5" "cache_ok s"
    and "length (cached (ready_jobs_cache s)) < SCHEDI_MAXIMUM_JOBS"
    and s': "s' = snd (schedi_job_setready b s j)"
  shows "jobs s' = (jobs s)(j := (jobs s j)\<lparr>
      meta_flag := meta s j OR SCHEDI_JOB_METAFLAG_READY, state := schedi_job_state_readywaiting\<rparr>)"
    and "ready_bag s' = add_mset j (ready_bag s)" and "cache_ok s'"
    and "readyjob_signals s' = readyjob_signals s + ready_signal b"
    and "empty_sections s' = empty_sections s" "destroy_q s' = destroy_q s"
      "dtor_calls s' = dtor_calls s" "completed s' = completed s"
proof -
  let ?p = "snd (schedi_cache_job_ready (marked_ready j s) j)"
  have s'': "s' = ?p\<lparr>readyjob_signals := readyjob_signals ?p + ready_signal b\<rparr>"
    unfolding s' setready_room(2)[OF assms(1-4)] by (simp add: Let_def)
  have ok: "cache_ok (marked_ready j s)" using assms(3) by simp
  have sig: "readyjob_signals ?p = readyjob_signals s"
    unfolding cache_job_ready_eq[OF ok]
    by (simp add: put_first_def schedi_ready_jobs_cache_add_job_count_def)
  show "ready_bag s' = add_mset j (ready_bag s)" using cache_put_bag(2)[OF ok, of j] assms(4) s'' by simp
  show "cache_ok s'" using cache_put_bag(1)[OF ok, of j] s'' by (simp add: cache_ok_def)
  show "jobs s' = (jobs s)(j := (jobs s j)\<lparr>
      meta_flag := meta s j OR SCHEDI_JOB_METAFLAG_READY, state := schedi_job_state_readywaiting\<rparr>)"
    "readyjob_signals s' = readyjob_signals s + ready_signal b"
    "empty_sections s' = empty_sections s" "destroy_q s' = destroy_q s"
    "dtor_calls s' = dtor_calls s" "completed s' = completed s"
    using cache_put_bag(4)[OF ok, of j] s'' sig by (simp_all add: same_rest_def)
qed

lemma sched_inv_state [simp]: "sched_inv (upd_job j (\<lambda>x. x\<lparr>state := st\<rparr>) s) = sched_inv s"
  by (rule sched_inv_cong) auto

lemma setready_sched_inv:
  assumes "sched_inv_but j s" "j < SCHEDI_MAXIMUM_JOBS"
  shows "sched_inv (snd (schedi_job_setready b s j))"
proof (cases "settled (meta s j) \<and> \<not> bit (meta s j) 5")
  case True
  have ok: "cache_ok s" using assms(1) by (simp add: sched_inv_but_def)
  define s' where "s' = snd (schedi_job_setready b s j)"
  from True have t: "settled (meta s j)" "\<not> bit (meta s j) 5" by simp_all
  note f = setready_room_fields[OF t ok sched_room[OF assms t(2)] s'_def]
  have "count (ready_bag s) j = 0"
    using assms(1) t(2) unfolding sched_inv_but_def slot_iffs by simp
  then have "slot_ok (meta s' j) (count (ready_bag s') j)"
    using f(1,2) by (simp add: slot_iffs bit_or_iff bit_flags)
  moreover have "sched_inv_but j s'"
    using assms f(1-3) \<open>count (ready_bag s) j = 0\<close>
    by (auto simp: sched_inv_but_def slot_iffs bit_or_iff bit_flags)
  ultimately show ?thesis using assms(2) s'_def sched_inv_but_iff by blast
next
  case False
  then have "slot_ok (meta s j) (count (ready_bag s) j)"
    using assms(1) by (auto simp: sched_inv_but_def slot_ok_def flag_clear_iff)
  with assms sched_inv_but_iff[of j s] have "sched_inv s" by simp
  with False show ?thesis by (subst setready_banned) auto
qed


section \<open>The readiness update\<close>

text \<open>Flags that a readiness update sets: none, or READYBASIC.\<close>

definition quiet_flag :: "u32 \<Rightarrow> bool" where
  "quiet_flag flag \<longleftrightarrow> basic_flag flag \<and> \<not> bit flag 1 \<and> \<not> bit flag 3 \<and> \<not> bit flag 5"

lemma quiet_flags [simp]: "quiet_flag 0" "quiet_flag SCHEDI_JOB_METAFLAG_READYBASIC"
  by (simp_all add: quiet_flag_def bit_flags)

lemma cas_update_swap_bits:
  assumes "cas_update_body rs rj sd wd jd flag bn ba m = CasTry d r" "quiet_flag flag"
  shows "bit d 1 = bit m 1" "bit d 3 = bit m 3" "bit d 5 = bit m 5" "bit d 2 = (bit m 2 \<or> bit flag 2)"
    and "bit d 6 = (bit m 6 \<or> bit flag 6)" "r = (0, \<not> schedi_job_meta_flag_check_allready m
      \<and> schedi_job_meta_flag_check_allready d)"
proof -
  have q: "basic_flag flag" "\<not> bit flag 1" "\<not> bit flag 3" "\<not> bit flag 5"
    using assms(2) by (simp_all add: quiet_flag_def)
  note b = cas_update_body_bit[OF assms(1) q(1)]
  show "bit d 1 = bit m 1" "bit d 3 = bit m 3" "bit d 5 = bit m 5" "bit d 2 = (bit m 2 \<or> bit flag 2)"
    "bit d 6 = (bit m 6 \<or> bit flag 6)"
    using b[of 1] b[of 2] b[of 3] b[of 5] b[of 6] q by simp_all
  show "r = (0, \<not> schedi_job_meta_flag_check_allready m \<and> schedi_job_meta_flag_check_allready d)"
    by (rule cas_update_body_tryD(8)[OF assms(1)])
qed

lemma cas_update_eq:
  "schedi_job_meta_flag_cas_update b s j sd wd jd flag bn ba =
    (case cas_update_body (required_available_sockets (jobs s j)) (required_available_jobs (jobs s j))
        sd wd jd flag bn ba (meta s j) of
       CasReturn r \<Rightarrow> (fst r, if snd r then snd (schedi_job_setready b s j) else s)
     | CasTry d r \<Rightarrow> (fst r, if snd r then snd (schedi_job_setready b (set_meta j d s) j)
                        else set_meta j d s))"
  by (auto simp: schedi_job_meta_flag_cas_update_def meta_cas_eq Let_def split: cas_step.split prod.split)

lemma cas_update_return:
  "cas_update_body rs rj sd wd jd flag bn ba m = CasReturn r \<Longrightarrow> \<not> snd r"
  by (auto simp: cas_update_body_def Let_def split: if_splits)

lemma cas_update_sched_inv:
  assumes "sched_inv s" "j < SCHEDI_MAXIMUM_JOBS" "quiet_flag flag"
  shows "sched_inv (snd (schedi_job_meta_flag_cas_update b s j sd wd jd flag bn ba))"
proof (cases "cas_update_body (required_available_sockets (jobs s j))
    (required_available_jobs (jobs s j)) sd wd jd flag bn ba (meta s j)")
  case (CasReturn r)
  then show ?thesis using assms(1) cas_update_return[OF CasReturn] by (simp add: cas_update_eq)
next
  case (CasTry d r)
  note d = cas_update_swap_bits[OF CasTry assms(3)]
  have ok: "slot_ok (meta s j) (count (ready_bag s) j)" using assms(1,2) by (simp add: sched_inv_def)
  then have c: "slot_cached d (count (ready_bag s) j)" using d by (simp add: slot_iffs)
  show ?thesis
  proof (cases "snd r")
    case True
    have "sched_inv_but j (set_meta j d s)" using assms(1,2) c by (intro sched_inv_but_set) simp_all
    from setready_sched_inv[OF this assms(2)] True CasTry show ?thesis by (simp add: cas_update_eq)
  next
    case False
    then have "schedi_job_meta_flag_check_allready d \<longrightarrow> schedi_job_meta_flag_check_allready (meta s j)"
      using d(6) by auto
    with slot_ok_weaken[OF ok d(3)] d(1,2) have "slot_ok d (count (ready_bag s) j)" by blast
    from sched_inv_set[OF assms(1) this] False CasTry show ?thesis by (simp add: cas_update_eq)
  qed
qed

subsection \<open>What a readiness update leaves alone\<close>

lemma cache_job_ready_frame [simp]:
  "jobs (snd (schedi_cache_job_ready s j)) = jobs s"
  "empty_sections (snd (schedi_cache_job_ready s j)) = empty_sections s"
  by (auto simp: schedi_cache_job_ready_def schedi_ready_jobs_cache_add_job_count_def split: option.split)

lemma cache_job_ready_sys_frame [simp]:
  "destroy_q (snd (schedi_cache_job_ready s j)) = destroy_q s"
  "dtor_calls (snd (schedi_cache_job_ready s j)) = dtor_calls s"
  "completed (snd (schedi_cache_job_ready s j)) = completed s"
  by (auto simp: schedi_cache_job_ready_def schedi_ready_jobs_cache_add_job_count_def split: option.split)

lemma setready_frame:
  "j \<noteq> i \<Longrightarrow> jobs (snd (schedi_job_setready b s i)) j = jobs s j"
  "empty_sections (snd (schedi_job_setready b s i)) = empty_sections s"
  "destroy_q (snd (schedi_job_setready b s i)) = destroy_q s"
  "dtor_calls (snd (schedi_job_setready b s i)) = dtor_calls s"
  "completed (snd (schedi_job_setready b s i)) = completed s"
  by (simp_all add: schedi_job_setready_def Let_def case_prod_beta mark_ready_eq
      schedi_job_unmark_ready_def unmark_or_snd)

lemma cas_update_frame:
  "j \<noteq> i \<Longrightarrow> jobs (snd (schedi_job_meta_flag_cas_update b s i sd wd jd f bn ba)) j = jobs s j"
  "empty_sections (snd (schedi_job_meta_flag_cas_update b s i sd wd jd f bn ba)) = empty_sections s"
  "destroy_q (snd (schedi_job_meta_flag_cas_update b s i sd wd jd f bn ba)) = destroy_q s"
  "dtor_calls (snd (schedi_job_meta_flag_cas_update b s i sd wd jd f bn ba)) = dtor_calls s"
  "completed (snd (schedi_job_meta_flag_cas_update b s i sd wd jd f bn ba)) = completed s"
  by (simp_all add: cas_update_eq setready_frame split: cas_step.split)

section \<open>The other marks\<close>

lemma mark_sched_inv:
  assumes "sched_inv s" "basic_flag flag" "\<not> bit flag 5" "\<not> bit flag 6"
  shows "sched_inv (snd (schedi_job_mark_or s j flag bn ba))"
proof -
  have "\<not> bit flag 7" "\<not> bit flag 8" "\<not> bit flag 21"
    using basic_flag_bit[OF assms(2), of 7] basic_flag_bit[OF assms(2), of 8]
      basic_flag_bit[OF assms(2), of 21] by auto
  with assms have "sched_inv (set_meta j (meta s j OR flag) s)"
    by (intro sched_inv_weaken) (simp_all add: bit_or_iff allready_iff)
  with assms(1) show ?thesis by (simp add: mark_or_eq)
qed

lemma unmark_sched_inv:
  assumes "sched_inv s" "\<not> bit flag 5" "\<not> bit flag 1" "\<not> bit flag 3"
  shows "sched_inv (snd (schedi_job_unmark_or s j flag bn ba))"
proof -
  have "sched_inv (set_meta j (meta s j AND NOT flag) s)"
    using assms by (intro sched_inv_weaken) (auto simp: bit_and_iff bit_not_iff allready_iff)
  with assms(1) show ?thesis by (simp add: unmark_or_snd)
qed

lemma access_sched_inv:
  assumes "sched_inv s"
  shows "sched_inv (snd (schedi_job_mark_access s j))" "sched_inv (snd (schedi_job_unmark_access s j))"
proof -
  have "sched_inv (set_meta j (SCHEDI_JOB_METAFLAG_SETACCESS (meta s j) a) s)" for a
    using assms by (intro sched_inv_weaken) (auto simp: bit_set_access allready_iff)
  with assms show "sched_inv (snd (schedi_job_mark_access s j))"
    "sched_inv (snd (schedi_job_unmark_access s j))"
    by (simp_all add: mark_access_eq unmark_access_eq Let_def)
qed

lemma marks_sched_inv:
  assumes "sched_inv s"
  shows "sched_inv (snd (schedi_job_mark_alive s j))"
    "sched_inv (snd (schedi_job_mark_executing s j))" "sched_inv (snd (schedi_job_unmark_executing s j))"
    "sched_inv (snd (schedi_job_mark_unstable s j))" "sched_inv (snd (schedi_job_mark_wlldestroy s j))"
    "sched_inv (snd (schedi_job_unmark_readybasic s j))"
    "sched_inv (snd (schedi_job_mark_or_default s j SCHEDI_JOB_METAFLAG_DESTROYNOTENT))"
  by (simp_all add: mark_defs mark_sched_inv[OF assms] unmark_sched_inv[OF assms] bit_flags)

section \<open>Picking a ready job\<close>

lemma tick_sched_inv:
  assumes "sched_inv s"
  shows "sched_inv (schedi_ready_jobs_cache_reorganize_tick b s)"
proof -
  have "cache_ok s" using assms by (simp add: sched_inv_def)
  from tick_cached[OF this, of b] assms show ?thesis
    by (simp add: sched_inv_def same_rest_def flip: set_mset_mset)
qed


lemma sched_inv_bagI:
  assumes "sched_inv s" "cache_ok s'" "ready_bag s' = ready_bag s" "jobs s' = jobs s"
  shows "sched_inv s'"
  using assms by (simp add: sched_inv_def flip: set_mset_mset)

text \<open>The job that a pop hands out is a READY slot, and it is in the cache no more.\<close>

lemma sched_pop:
  assumes "sched_inv s" "schedi_cache_job_ready_pop s = (Some j, s1)"
  shows "j < SCHEDI_MAXIMUM_JOBS" "bit (meta s j) 5" "ready_bag s = add_mset j (ready_bag s1)"
    and "count (ready_bag s1) j = 0" "cache_ok s1" "same_rest s s1"
proof -
  have ok: "cache_ok s" using assms(1) by (simp add: sched_inv_def)
  from cache_pop_bag[OF ok] assms(2)
  show bag: "ready_bag s = add_mset j (ready_bag s1)" and "cache_ok s1" "same_rest s s1" by simp_all
  then have "j \<in># ready_bag s" by simp
  then show j: "j < SCHEDI_MAXIMUM_JOBS" using assms(1) by (auto simp: sched_inv_def)
  with assms(1) have "slot_cached (meta s j) (count (ready_bag s) j)"
    by (simp add: sched_inv_def slot_ok_def)
  then show "bit (meta s j) 5" "count (ready_bag s1) j = 0"
    unfolding slot_cached_bits bag by (auto simp: of_bool_def split: if_splits)
qed

lemma pop_drop:
  fixes s :: "'a jobsys_scheme"
  assumes "sched_inv s" "schedi_cache_job_ready_pop s = (Some j, s1)" "slot_ok m 0"
  shows "sched_inv (set_meta j m s1)"
proof -
  note p = sched_pop[OF assms(1,2)]
  have "i \<in># ready_bag s1 \<Longrightarrow> i \<in># ready_bag s" for i unfolding p(3) by simp
  moreover have "i \<noteq> j \<Longrightarrow> count (ready_bag s1) i = count (ready_bag s) i" for i unfolding p(3) by simp
  moreover have "jobs s1 = jobs s" using p(6) by (simp add: same_rest_def)
  moreover have "slot_ok m (count (ready_bag s1) j)" unfolding p(4) by (fact assms(3))
  ultimately show ?thesis
    using assms(1) p(5) by (auto simp: sched_inv_def)
qed

lemma put_back:
  fixes s :: "'a jobsys_scheme"
  assumes "sched_inv s" "schedi_cache_job_ready_pop s = (Some j, s1)"
  shows "sched_inv (snd (schedi_cache_job_ready s1 j))"
proof (rule sched_inv_bagI[OF assms(1)])
  note p = sched_pop[OF assms]
  have "size (ready_bag s) \<le> SCHEDI_MAXIMUM_JOBS"
    using assms(1) length_cached_le[of "ready_jobs_cache s"] by (simp add: sched_inv_def cache_ok_def)
  then have "length (cached (ready_jobs_cache s1)) < SCHEDI_MAXIMUM_JOBS"
    unfolding p(3) by simp
  from cache_put_bag(2)[OF p(5) this, of j]
  show "ready_bag (snd (schedi_cache_job_ready s1 j)) = ready_bag s" unfolding p(3) by simp
  show "cache_ok (snd (schedi_cache_job_ready s1 j))" by (rule cache_put_bag(1)[OF p(5)])
  show "jobs (snd (schedi_cache_job_ready s1 j)) = jobs s"
    using cache_put_bag(4)[OF p(5), of j] p(6) by (simp add: same_rest_def)
qed

text \<open>The word of a job after it was picked.\<close>

definition picked_word :: "u32 \<Rightarrow> u32" where
  "picked_word m = (SCHEDI_JOB_METAFLAG_SETACCESS m (SCHEDI_JOB_METAFLAG_GETACCESS m + 1)
     AND NOT SCHEDI_JOB_METAFLAG_READY) AND NOT SCHEDI_JOB_METAFLAG_READYBASIC"

lemma set_meta_twice [simp]: "set_meta j m (set_meta j m' s) = set_meta j m s"
  by (simp add: set_meta_def upd_job_def)

text \<open>One pass, by the state of the job that the pop hands out.\<close>

lemma pickready_pass:
  assumes "schedi_cache_job_ready_pop s = (Some j, s1)" and m: "m = meta s1 j"
  shows "schedi_job_pickready s =
    (if bit m 1 then schedi_job_pickready s1
     else if bit m 3 then (None, s1)
     else if SCHEDI_JOB_METAFLAG_GETACCESS m = 15 then (None, snd (schedi_cache_job_ready s1 j))
     else (Some j, set_meta j (picked_word m) s1))"
proof -
  let ?ban = "m AND (SCHEDI_JOB_METAFLAG_UNSTABLE OR SCHEDI_JOB_METAFLAG_WLLDESTROY)"
  have b1: "?ban AND SCHEDI_JOB_METAFLAG_UNSTABLE = 0 \<longleftrightarrow> \<not> bit m 1"
    by (simp add: flag_clear_iff bit_and_iff bit_or_iff bit_flags)
  have b0: "?ban = 0 \<longleftrightarrow> \<not> bit m 1 \<and> \<not> bit m 3" by (simp add: ban_iffs)
  have bA: "?ban AND SCHEDI_JOB_METAFLAG_ACCESS = 0"
  proof -
    have "(SCHEDI_JOB_METAFLAG_UNSTABLE OR SCHEDI_JOB_METAFLAG_WLLDESTROY)
        AND SCHEDI_JOB_METAFLAG_ACCESS = 0" by (simp add: flag_defs field_defs)
    then show ?thesis by (simp add: and.assoc)
  qed
  have aA: "(m AND SCHEDI_JOB_METAFLAG_ACCESS) AND SCHEDI_JOB_METAFLAG_UNSTABLE = 0"
    by (simp add: flag_defs field_defs and.assoc)
  consider "bit m 1" | "\<not> bit m 1" "bit m 3" | "\<not> bit m 1" "\<not> bit m 3" "SCHEDI_JOB_METAFLAG_GETACCESS m = 15"
    | "\<not> bit m 1" "\<not> bit m 3" "SCHEDI_JOB_METAFLAG_GETACCESS m \<noteq> 15" by blast
  then show ?thesis
  proof cases
    case 4
    define a where "a = SCHEDI_JOB_METAFLAG_SETACCESS m (SCHEDI_JOB_METAFLAG_GETACCESS m + 1)"
    have "\<not> bit a 1" "\<not> bit a 3" using 4 by (simp_all add: a_def bit_set_access)
    then have "meta_ban (SCHEDI_JOB_METAFLAG_UNSTABLE OR SCHEDI_JOB_METAFLAG_WLLDESTROY) False a = 0"
      "meta_ban (SCHEDI_JOB_METAFLAG_UNSTABLE OR SCHEDI_JOB_METAFLAG_WLLDESTROY) False
        (a AND NOT SCHEDI_JOB_METAFLAG_READY) = 0"
      by (simp_all add: meta_ban_zero_iff ban_iffs bit_and_iff)
    with 4 b0 show ?thesis
      by (subst schedi_job_pickready.simps)
        (simp add: assms mark_access_eq mark_defs unmark_or_snd Let_def picked_word_def flip: a_def m)
  next
    case 3
    then have "m AND SCHEDI_JOB_METAFLAG_ACCESS \<noteq> 0" using access_zero_iff[of m] by simp
    with 3 b0 aA show ?thesis
      by (subst schedi_job_pickready.simps) (simp add: assms(1) mark_access_eq Let_def flip: m)
  qed (subst schedi_job_pickready.simps, use b0 b1 bA in \<open>simp add: assms(1) mark_access_eq Let_def flip: m\<close>)+
qed


lemma picked_word_bits:
  "n < 28 \<Longrightarrow> bit (picked_word m) n \<longleftrightarrow> bit m n \<and> n \<noteq> 5 \<and> n \<noteq> 6"
  by (auto simp: picked_word_def bit_and_iff bit_not_iff bit_flags bit_set_access)

lemma picked_word_access:
  assumes "SCHEDI_JOB_METAFLAG_GETACCESS m \<noteq> 15"
  shows "SCHEDI_JOB_METAFLAG_GETACCESS (picked_word m) = SCHEDI_JOB_METAFLAG_GETACCESS m + 1"
proof -
  let ?a = "SCHEDI_JOB_METAFLAG_SETACCESS m (SCHEDI_JOB_METAFLAG_GETACCESS m + 1)"
  have "SCHEDI_JOB_METAFLAG_GETACCESS (picked_word m) = SCHEDI_JOB_METAFLAG_GETACCESS ?a"
    by (rule get_cong) (auto simp: picked_word_def bit_and_iff bit_not_iff bit_flags)
  moreover have "unat (SCHEDI_JOB_METAFLAG_GETACCESS m) < 15"
    using field_less_16(4)[of m] assms by (simp add: word_less_nat_alt word_unat_eq_iff)
  then have "SCHEDI_JOB_METAFLAG_GETACCESS m + 1 < 16"
    by (simp add: word_less_nat_alt unat_word_ariths)
  ultimately show ?thesis by simp
qed

lemma slot_ok_picked: "slot_ok (picked_word m) 0"
  by (simp add: slot_iffs picked_word_bits)

lemma slot_ok_dropped: "slot_ok m n \<Longrightarrow> bit m 1 \<or> bit m 3 \<Longrightarrow> slot_ok m 0"
  by (auto simp: slot_iffs)

text \<open>What a call promises: its result, the words and what it leaves alone.\<close>

definition pick_spec :: "'a jobsys_scheme \<Rightarrow> nat option \<Rightarrow> 'a jobsys_scheme \<Rightarrow> bool" where
  "pick_spec s r s' \<longleftrightarrow> sched_inv s'
     \<and> empty_sections s' = empty_sections s \<and> destroy_q s' = destroy_q s
     \<and> dtor_calls s' = dtor_calls s \<and> completed s' = completed s
     \<and> (case r of
          None \<Rightarrow> jobs s' = jobs s
        | Some j \<Rightarrow> j < SCHEDI_MAXIMUM_JOBS \<and> j \<in># ready_bag s \<and> j \<notin># ready_bag s'
            \<and> settled (meta s j) \<and> SCHEDI_JOB_METAFLAG_GETACCESS (meta s j) \<noteq> 15
            \<and> jobs s' = (jobs s)(j := (jobs s j)\<lparr>meta_flag := picked_word (meta s j)\<rparr>))"

lemma pickready_spec:
  assumes "sched_inv s" "schedi_job_pickready s = (r, s')"
  shows "pick_spec s r s'"
  using assms
proof (induction "length (cached (ready_jobs_cache s))" arbitrary: s rule: less_induct)
  case less
  have ok: "cache_ok s" using less.prems(1) by (simp add: sched_inv_def)
  show ?case
  proof (cases "fst (schedi_cache_job_ready_pop s)")
    case None
    then have "schedi_job_pickready s = (None, snd (schedi_cache_job_ready_pop s))"
      by (subst schedi_job_pickready.simps) (auto split: prod.split)
    moreover have "snd (schedi_cache_job_ready_pop s) = s"
      using ok by (cases rule: cache_pop_cases) (use None in auto)
    ultimately show ?thesis using less.prems by (auto simp: pick_spec_def)
  next
    case (Some j)
    then obtain s1 where pop: "schedi_cache_job_ready_pop s = (Some j, s1)"
      by (metis prod.collapse)
    note p = sched_pop[OF less.prems(1) pop]
    have jobs1: "jobs s1 = jobs s" and rest: "empty_sections s1 = empty_sections s"
      "destroy_q s1 = destroy_q s" "dtor_calls s1 = dtor_calls s" "completed s1 = completed s"
      using p(6) by (simp_all add: same_rest_def)
    have slot: "slot_ok (meta s j) (count (ready_bag s) j)"
      using less.prems(1) p(1) by (simp add: sched_inv_def)
    note pass = pickready_pass[OF pop refl, unfolded jobs1] less.prems(2)
    have dropped: "sched_inv s1" if "bit (meta s j) 1 \<or> bit (meta s j) 3"
      using pop_drop[OF less.prems(1) pop slot_ok_dropped[OF slot that]] jobs1[symmetric]
      by (simp only: set_meta_same)
    consider "bit (meta s j) 1" | "\<not> bit (meta s j) 1" "bit (meta s j) 3"
      | "settled (meta s j)" "SCHEDI_JOB_METAFLAG_GETACCESS (meta s j) = 15"
      | "settled (meta s j)" "SCHEDI_JOB_METAFLAG_GETACCESS (meta s j) \<noteq> 15"
      by (auto simp: settled_iff)
    then show ?thesis
    proof cases
      case 1
      with pass have "schedi_job_pickready s1 = (r, s')" by simp
      from less.hyps[OF pop_shrinks[OF pop] _ this] dropped 1 have "pick_spec s1 r s'" by blast
      moreover have "i \<in># ready_bag s1 \<Longrightarrow> i \<in># ready_bag s" for i unfolding p(3) by simp
      ultimately show ?thesis using jobs1 rest by (auto simp: pick_spec_def split: option.splits)
    next
      case 2
      with pass dropped jobs1 rest show ?thesis by (auto simp: pick_spec_def)
    next
      case 3
      with pass have "r = None" "s' = snd (schedi_cache_job_ready s1 j)" by (auto simp: settled_iff)
      with put_back[OF less.prems(1) pop] cache_put_bag(4)[OF p(5), of j] jobs1 rest
      show ?thesis by (simp add: pick_spec_def same_rest_def)
    next
      case 4
      with pass have "r = Some j" "s' = set_meta j (picked_word (meta s j)) s1"
        by (auto simp: settled_iff)
      moreover have "j \<in># ready_bag s" "j \<notin># ready_bag s1"
        using p(4) unfolding p(3) by (simp_all add: count_eq_zero_iff)
      ultimately show ?thesis
        using pop_drop[OF less.prems(1) pop slot_ok_picked] 4 p(1) jobs1 rest
        by (simp add: pick_spec_def)
    qed
  qed
qed

end
