(* ===== verification/Lifecycle.thy ===== *)
theory Lifecycle
  imports Scheduler
begin

text \<open>
  The life of a job slot: claimed, used, marked for destruction, queued, torn
  down and free again. The invariant joins the scheduler's with the slot
  allocator's and the destroy queue's; \<open>job_reach\<close> are the states that clients and
  workers can bring about with the operations of \<open>Job_Core\<close> in any order, as
  long as only idle jobs are destroyed.
\<close>

section \<open>Teardown\<close>

text \<open>The jobs that \<^verbatim>\<open>schedi_job_mark_unstable\<close> accepts.\<close>

definition idle :: "u32 \<Rightarrow> bool" where
  "idle m \<longleftrightarrow> m AND (SCHEDI_JOB_METAFLAG_UNSTABLE OR SCHEDI_JOB_METAFLAG_EXECUTING
     OR SCHEDI_JOB_METAFLAG_READY) = 0 \<and> SCHEDI_JOB_METAFLAG_GETACCESS m = 0"

lemma idle_bits:
  "idle m \<longleftrightarrow> \<not> bit m 1 \<and> \<not> bit m 2 \<and> \<not> bit m 5 \<and> SCHEDI_JOB_METAFLAG_GETACCESS m = 0"
  by (auto simp: idle_def ban_iffs)

definition dtor_call :: "job \<Rightarrow> (nat \<times> nat) list" where
  "dtor_call x = (case dtor x of None \<Rightarrow> [] | Some f \<Rightarrow> [(f, job_context x)])"

lemma dtor_call_meta [simp]: "dtor_call (x\<lparr>meta_flag := m\<rparr>) = dtor_call x"
  by (simp add: dtor_call_def split: option.split)

definition torn_down :: "job \<Rightarrow> job" where
  "torn_down x = x\<lparr>gen := gen x + 1, state := schedi_job_state_nulljob, meta_flag := 0\<rparr>"

definition teardown :: "'a jobsys_scheme \<Rightarrow> nat \<Rightarrow> 'a jobsys_scheme" where
  "teardown s j = section_release
     (upd_job j torn_down (s\<lparr>dtor_calls := dtor_calls s @ dtor_call (jobs s j)\<rparr>)) j"

lemma destroy_now_eq:
  "schedi_job_destroy_now s j =
     (if idle (meta s j) then (0, set_meta j (meta s j OR SCHEDI_JOB_METAFLAG_UNSTABLE) s)
      else (1, teardown s j))"
proof (cases "idle (meta s j)")
  case True
  then have "schedi_job_mark_unstable s j = (0, set_meta j (meta s j OR SCHEDI_JOB_METAFLAG_UNSTABLE) s)"
    by (simp add: schedi_job_mark_unstable_def mark_or_eq meta_ban_zero_iff idle_def)
  with True show ?thesis by (simp add: schedi_job_destroy_now_def)
next
  case False
  let ?ban = "meta_ban (SCHEDI_JOB_METAFLAG_UNSTABLE OR SCHEDI_JOB_METAFLAG_EXECUTING
      OR SCHEDI_JOB_METAFLAG_READY) True (meta s j)"
  from False have "?ban \<noteq> 0" by (simp add: meta_ban_zero_iff idle_def)
  moreover from this have "schedi_job_mark_unstable s j = (?ban, s)"
    by (simp add: schedi_job_mark_unstable_def mark_or_eq)
  ultimately show ?thesis using False
    by (auto simp: schedi_job_destroy_now_def teardown_def Let_def upd_job_def torn_down_def
        dtor_call_def split: option.split)
qed

lemma teardown_fields [simp]:
  "jobs (teardown s j) = (jobs s)(j := torn_down (jobs s j))"
  "ready_jobs_cache (teardown s j) = ready_jobs_cache s" "job_count (teardown s j) = job_count s"
  "destroy_q (teardown s j) = destroy_q s" "completed (teardown s j) = completed s"
  "dtor_calls (teardown s j) = dtor_calls s @ dtor_call (jobs s j)"
  by (simp_all add: teardown_def)

text \<open>Destruction indicates no completion.\<close>

lemma destroy_now_completed [simp]: "completed (snd (schedi_job_destroy_now s j)) = completed s"
  by (simp add: destroy_now_eq)

lemma destroy_queue_loop_completed: "completed (destroy_queue_loop b n s) = completed s"
proof (induction b n s rule: destroy_queue_loop.induct)
  case (2 b n s)
  show ?case
  proof (cases "dq_super_pop (job_addr b) (destroy_q s)")
    case (Pair o' q)
    show ?thesis
    proof (cases o')
      case (Some j)
      obtain r s1 where d: "schedi_job_destroy_now (s\<lparr>destroy_q := q\<rparr>) j = (r, s1)" by force
      then have "completed s1 = completed s"
        using destroy_now_completed[of "s\<lparr>destroy_q := q\<rparr>" j] by simp
      with 2 Pair Some d show ?thesis by auto
    qed (use Pair in simp)
  qed
qed simp

lemma destroy_completed:
  "completed (schedi_job_destroy_queue_check b s) = completed s"
  "completed (snd (schedi_job_destroy b s j)) = completed s"
  by (simp_all add: schedi_job_destroy_queue_check_def destroy_queue_loop_completed
      schedi_job_destroy_def Let_def case_prod_beta mark_defs mark_or_eq)

lemma teardown_slots:
  assumes "sections_ok s" "j \<notin> free_slots s" "j < SCHEDI_MAXIMUM_JOBS"
  shows "sections_ok (teardown s j)"
    and "free_slots (teardown s j) =
      (if release_leaks s j then free_slots s else insert j (free_slots s))"
proof -
  let ?s = "upd_job j torn_down (s\<lparr>dtor_calls := dtor_calls s @ dtor_call (jobs s j)\<rparr>)"
  have e: "empty_sections ?s = empty_sections s" by simp
  have "sections_ok ?s" "j \<notin> free_slots ?s" using assms(1,2) e by (simp_all add: sections_ok_def)
  note section_release_effect[OF this assms(3)]
  then show "sections_ok (teardown s j)"
    "free_slots (teardown s j) = (if release_leaks s j then free_slots s else insert j (free_slots s))"
    using e by (simp_all add: teardown_def release_leaks_def)
qed

section \<open>The invariant\<close>

text \<open>
  \<open>xs\<close> are the jobs in the destroy queue, oldest first: claimed slots that are
  UNSTABLE and not READY. A free slot is not READY either.
\<close>

definition life_inv :: "'a jobsys_scheme \<Rightarrow> nat list \<Rightarrow> bool" where
  "life_inv s xs \<longleftrightarrow> sched_inv s \<and> sections_ok s \<and> dq_repr (destroy_q s) xs 0 \<and> distinct xs
     \<and> (\<forall>j \<in> set xs. j < SCHEDI_MAXIMUM_JOBS \<and> j \<notin> free_slots s
          \<and> meta s j AND SCHEDI_JOB_METAFLAG_UNSTABLE \<noteq> 0 \<and> meta s j AND SCHEDI_JOB_METAFLAG_READY = 0)
     \<and> (\<forall>j \<in> free_slots s. meta s j AND SCHEDI_JOB_METAFLAG_READY = 0)"

lemma life_inv_bits:
  "life_inv s xs \<longleftrightarrow> sched_inv s \<and> sections_ok s \<and> dq_repr (destroy_q s) xs 0 \<and> distinct xs
     \<and> (\<forall>j \<in> set xs. j < SCHEDI_MAXIMUM_JOBS \<and> j \<notin> free_slots s \<and> bit (meta s j) 1 \<and> \<not> bit (meta s j) 5)
     \<and> (\<forall>j \<in> free_slots s. \<not> bit (meta s j) 5)"
  by (simp add: life_inv_def flag_clear_iff)

lemma life_inv_short:
  assumes "life_inv s xs"
  shows "length xs < SCHEDI_DQ_SIZE" "length xs \<le> SCHEDI_MAXIMUM_JOBS"
proof -
  have "set xs \<subseteq> {..<SCHEDI_MAXIMUM_JOBS}" using assms by (auto simp: life_inv_def)
  then have "card (set xs) \<le> SCHEDI_MAXIMUM_JOBS" using card_mono[of "{..<SCHEDI_MAXIMUM_JOBS}"] by simp
  then show "length xs \<le> SCHEDI_MAXIMUM_JOBS" using assms by (simp add: life_inv_def distinct_card)
  then show "length xs < SCHEDI_DQ_SIZE" by (simp add: SCHEDI_MAXIMUM_JOBS_def SCHEDI_DQ_SIZE_def)
qed

text \<open>Operations that leave the slots and the queue alone and set no queued or free job READY.\<close>

definition calm :: "'a jobsys_scheme \<Rightarrow> 'a jobsys_scheme \<Rightarrow> bool" where
  "calm s s' \<longleftrightarrow> empty_sections s' = empty_sections s \<and> destroy_q s' = destroy_q s
     \<and> (\<forall>i. (bit (meta s i) 1 \<longrightarrow> bit (meta s' i) 1)
          \<and> (bit (meta s' i) 5 \<and> (bit (meta s i) 1 \<or> i \<in> free_slots s) \<longrightarrow> bit (meta s i) 5))"

lemma calm_life_inv: "calm s s' \<Longrightarrow> sched_inv s' \<Longrightarrow> life_inv s xs \<Longrightarrow> life_inv s' xs"
  unfolding calm_def life_inv_bits sections_ok_def by metis

lemma calm_refl [simp]: "calm s s"
  by (simp add: calm_def)

lemma calm_trans: "calm s t \<Longrightarrow> calm t u \<Longrightarrow> calm s u"
  unfolding calm_def by metis

lemma calm_set_meta:
  assumes "bit (meta s j) 1 \<longrightarrow> bit m 1" "bit m 5 \<longrightarrow> bit (meta s j) 5"
  shows "calm s (set_meta j m s)"
  using assms by (simp add: calm_def)

lemma calm_jobs:
  assumes "\<And>i. meta s' i = meta s i" "empty_sections s' = empty_sections s" "destroy_q s' = destroy_q s"
  shows "calm s s'"
  using assms by (simp add: calm_def)


section \<open>What the operations keep\<close>

lemma calm_setready:
  assumes "cache_ok s" "j \<notin> free_slots s"
  shows "calm s (snd (schedi_job_setready b s j))"
proof (cases "settled (meta s j) \<and> \<not> bit (meta s j) 5")
  case False
  then show ?thesis by (subst setready_banned) (auto intro: calm_jobs)
next
  case True
  let ?p = "schedi_cache_job_ready (marked_ready j s) j"
  have ok: "cache_ok (marked_ready j s)" using assms(1) by simp
  have jobs: "jobs (snd ?p) = jobs (marked_ready j s)" "empty_sections (snd ?p) = empty_sections s"
    "destroy_q (snd ?p) = destroy_q s"
    using cache_put_bag(4)[OF ok, of j] by (simp_all add: same_rest_def)
  have "calm s (snd ?p)"
    using jobs True assms(2) by (auto simp: calm_def bit_or_iff bit_flags settled_iff)
  moreover have "calm s (snd (schedi_job_unmark_ready (snd ?p) j))"
    using jobs True assms(2)
    by (auto simp: calm_def mark_defs unmark_or_snd bit_and_iff bit_or_iff bit_not_iff bit_flags settled_iff)
  moreover have "calm s (s'\<lparr>readyjob_signals := n\<rparr>)" if "calm s s'" for s' n
    using that by (simp add: calm_def)
  ultimately show ?thesis
    using True marked_ready_def[of j s]
    by (auto simp: schedi_job_setready_def mark_ready_eq Let_def split: prod.split)
qed

lemma calm_cas_update:
  assumes "cache_ok s" "j \<notin> free_slots s" "quiet_flag flag"
  shows "calm s (snd (schedi_job_meta_flag_cas_update b s j sd wd jd flag bn ba))"
proof (cases "cas_update_body (required_available_sockets (jobs s j))
    (required_available_jobs (jobs s j)) sd wd jd flag bn ba (meta s j)")
  case (CasReturn r)
  then show ?thesis using cas_update_return[OF CasReturn] by (simp add: cas_update_eq)
next
  case (CasTry d r)
  note d = cas_update_swap_bits[OF CasTry assms(3)]
  have "calm s (set_meta j d s)" using d by (intro calm_set_meta) simp_all
  moreover have "calm (set_meta j d s) (snd (schedi_job_setready b (set_meta j d s) j))"
    using assms(1,2) by (intro calm_setready) simp_all
  ultimately show ?thesis using CasTry calm_trans by (auto simp: cas_update_eq)
qed

lemma calm_mark: "\<not> bit flag 5 \<Longrightarrow> calm s (snd (schedi_job_mark_or s j flag bn ba))"
  by (simp add: mark_or_eq bit_or_iff calm_set_meta)

lemma calm_unmark: "\<not> bit flag 1 \<Longrightarrow> calm s (snd (schedi_job_unmark_or s j flag bn ba))"
  by (simp add: unmark_or_snd bit_and_iff bit_not_iff calm_set_meta)

lemma calm_access: "calm s (snd (schedi_job_mark_access s j))" "calm s (snd (schedi_job_unmark_access s j))"
  by (simp_all add: mark_access_eq unmark_access_eq Let_def calm_set_meta bit_set_access)

lemma calm_pick:
  assumes "pick_spec s r s'" "sched_inv s"
  shows "calm s s'"
  using assms
  by (auto simp: calm_def pick_spec_def settled_iff picked_word_bits split: option.splits)

lemma calm_tick: "cache_ok s \<Longrightarrow> calm s (schedi_ready_jobs_cache_reorganize_tick b s)"
  using tick_cached(3)[of s b] by (auto simp: same_rest_def intro: calm_jobs)

lemma life_inv_sched: "life_inv s xs \<Longrightarrow> sched_inv s" "life_inv s xs \<Longrightarrow> cache_ok s"
  by (simp_all add: life_inv_def sched_inv_def)

subsection \<open>Creation\<close>

definition new_word :: u32 where
  "new_word = SCHEDI_JOB_METAFLAG_ALIVE OR SCHEDI_JOB_METAFLAG_READYEPOLLSOCK
     OR SCHEDI_JOB_METAFLAG_READYEPOLLTOOL OR SCHEDI_JOB_METAFLAG_READYJOB"

lemma create_none:
  assumes "sections_ok s"
  shows "fst (schedi_job_create s c r d) = None \<longleftrightarrow> free_slots s = {}"
    and "fst (schedi_job_create s c r d) = None \<Longrightarrow> snd (schedi_job_create s c r d) = s"
  using section_claim_None[OF assms] section_claim_None_same[of s]
  by (auto simp: schedi_job_create_def split: prod.splits option.splits)

lemma create_some:
  assumes "sections_ok s" "schedi_job_create s c r d = (Some j, s')"
  shows "j \<in> free_slots s" "free_slots s' = free_slots s - {j}" "sections_ok s'"
    and "meta s' j = new_word" "\<And>i. i \<noteq> j \<Longrightarrow> jobs s' i = jobs s i"
    and "gen (jobs s' j) = gen (jobs s j)" "ready_jobs_cache s' = ready_jobs_cache s"
      "job_count s' = job_count s" "destroy_q s' = destroy_q s"
proof -
  from assms(2) obtain s1 where c: "section_claim s = (Some j, s1)"
    by (auto simp: schedi_job_create_def split: prod.splits option.splits)
  note cl = section_claim_Some[OF assms(1), of j, unfolded c, simplified]
  have f: "ready_jobs_cache s1 = ready_jobs_cache s" "job_count s1 = job_count s"
    "destroy_q s1 = destroy_q s"
    using section_claim_frame[of s] section_claim_sys_frame[of s] c by simp_all
  from assms(2) c have s': "jobs s' = (jobs s1)(j := jobs s' j)" "meta s' j = new_word"
    "gen (jobs s' j) = gen (jobs s1 j)" "empty_sections s' = empty_sections s1"
    "ready_jobs_cache s' = ready_jobs_cache s1" "job_count s' = job_count s1"
    "destroy_q s' = destroy_q s1"
    by (auto simp: schedi_job_create_def new_word_def)
  show "j \<in> free_slots s" by (fact cl(1))
  show "free_slots s' = free_slots s - {j}" "sections_ok s'" using cl s'(4) by (simp_all add: sections_ok_def)
  show "meta s' j = new_word" "gen (jobs s' j) = gen (jobs s j)" "ready_jobs_cache s' = ready_jobs_cache s"
      "job_count s' = job_count s" "destroy_q s' = destroy_q s" using s' f cl by simp_all
  show "jobs s' i = jobs s i" if "i \<noteq> j" for i
    using s'(1) cl(4) that by (metis fun_upd_other)
qed

lemma create_life_inv:
  assumes "life_inv s xs"
  shows "life_inv (snd (schedi_job_create s c r d)) xs"
proof (cases "fst (schedi_job_create s c r d)")
  case None
  with assms create_none(2)[of s c r d] show ?thesis by (simp add: life_inv_def)
next
  case (Some j)
  then obtain s' where e: "schedi_job_create s c r d = (Some j, s')" by (metis prod.collapse)
  have ok: "sections_ok s" using assms by (simp add: life_inv_def)
  note n = create_some[OF ok e]
  have w: "\<not> bit new_word 5" "\<not> bit new_word 6" by (simp_all add: new_word_def bit_or_iff bit_flags)
  have j: "j < SCHEDI_MAXIMUM_JOBS" using ok n(1) free_set_bound by (auto simp: sections_ok_def)
  have "\<not> bit (meta s j) 5" using assms n(1) by (simp add: life_inv_bits)
  moreover have "slot_ok (meta s j) (count (ready_bag s) j)"
    using assms j by (simp add: life_inv_def sched_inv_def)
  ultimately have "slot_ok new_word (count (ready_bag s) j)" using w by (simp add: slot_iffs)
  then have "sched_inv s'"
    using assms n(4,5,7,8) unfolding life_inv_def sched_inv_def cache_ok_def by metis
  then show ?thesis using assms e n(1-5,9) w unfolding life_inv_bits by (metis Diff_iff insertI1 snd_conv)
qed


subsection \<open>Destruction\<close>

text \<open>The word of an idle job after a call of \<^verbatim>\<open>schedi_job_destroy\<close>.\<close>

definition doomed_word :: "u32 \<Rightarrow> u32" where
  "doomed_word m = (m OR SCHEDI_JOB_METAFLAG_WLLDESTROY) OR SCHEDI_JOB_METAFLAG_UNSTABLE"

lemma mark_wlldestroy_snd:
  "snd (schedi_job_mark_wlldestroy s j) =
     (if bit (meta s j) 1 then s else set_meta j (meta s j OR SCHEDI_JOB_METAFLAG_WLLDESTROY) s)"
  by (simp add: mark_defs mark_or_eq meta_ban_zero_iff flag_clear_iff)

lemma idle_wlldestroy: "idle (m OR SCHEDI_JOB_METAFLAG_WLLDESTROY) = idle m"
proof -
  have "SCHEDI_JOB_METAFLAG_GETACCESS (m OR SCHEDI_JOB_METAFLAG_WLLDESTROY) = SCHEDI_JOB_METAFLAG_GETACCESS m"
    by (rule get_cong) (auto simp: bit_or_iff bit_flags)
  then show ?thesis by (simp add: idle_bits bit_or_iff bit_flags)
qed

lemma destroy_idle:
  assumes "addr_ok (job_addr b)" "dq_repr (destroy_q s) xs 0" "length xs < SCHEDI_DQ_SIZE"
    and "idle (meta s j)"
  obtains q where "dq_repr q (xs @ [j]) 0"
    "schedi_job_destroy b s j = (-1, (set_meta j (doomed_word (meta s j)) s)\<lparr>destroy_q := q\<rparr>)"
proof -
  let ?s2 = "set_meta j (doomed_word (meta s j)) s"
  have n: "schedi_job_destroy_now (snd (schedi_job_mark_wlldestroy s j)) j = (0, ?s2)"
    using assms(4) by (simp add: destroy_now_eq mark_wlldestroy_snd idle_wlldestroy doomed_word_def)
      (simp add: idle_bits)
  have "length xs + 0 < SCHEDI_DQ_SIZE" using assms(3) by simp
  from dq_push_repr[OF assms(1,2) this, of j]
  obtain q where q: "dq_push (job_addr b) (destroy_q s) j = (0, q)" "dq_repr q (xs @ [j]) 0"
    by (metis prod.collapse)
  then show ?thesis using n by (intro that) (simp_all add: schedi_job_destroy_def)
qed

text \<open>A job that is not idle is torn down on the spot.\<close>

lemma destroy_busy:
  assumes "\<not> idle (meta s j)"
  shows "schedi_job_destroy b s j = (0, teardown (snd (schedi_job_mark_wlldestroy s j)) j)"
proof -
  have "\<not> idle (meta (snd (schedi_job_mark_wlldestroy s j)) j)"
    using assms by (simp add: mark_wlldestroy_snd idle_wlldestroy)
  then show ?thesis by (simp add: schedi_job_destroy_def destroy_now_eq)
qed

lemma destroy_life_inv:
  assumes "addr_ok (job_addr b)" "life_inv s xs" "j < SCHEDI_MAXIMUM_JOBS" "j \<notin> free_slots s"
    and "idle (meta s j)"
  shows "fst (schedi_job_destroy b s j) = -1"
    and "life_inv (snd (schedi_job_destroy b s j)) (xs @ [j])"
proof -
  have r: "dq_repr (destroy_q s) xs 0" using assms(2) by (simp add: life_inv_def)
  obtain q where q: "dq_repr q (xs @ [j]) 0"
    "schedi_job_destroy b s j = (-1, (set_meta j (doomed_word (meta s j)) s)\<lparr>destroy_q := q\<rparr>)"
    by (rule destroy_idle[OF assms(1) r life_inv_short(1)[OF assms(2)] assms(5)])
  have w: "bit (doomed_word (meta s j)) 1" "bit (doomed_word (meta s j)) 3"
    "\<not> bit (doomed_word (meta s j)) 5"
    "schedi_job_meta_flag_check_allready (doomed_word (meta s j)) =
      schedi_job_meta_flag_check_allready (meta s j)"
    using assms(5) by (auto simp: doomed_word_def bit_or_iff bit_flags idle_bits allready_iff)
  have "sched_inv (set_meta j (doomed_word (meta s j)) s)"
    using assms(2,5) w by (intro sched_inv_weaken) (simp_all add: life_inv_def idle_bits)
  moreover have "sched_inv (s'\<lparr>destroy_q := q\<rparr>) = sched_inv s'" for s' :: "'a jobsys_scheme"
    by (rule sched_inv_cong) simp_all
  moreover have "j \<notin> set xs" using assms(2,5) by (auto simp: life_inv_bits idle_bits)
  ultimately show "life_inv (snd (schedi_job_destroy b s j)) (xs @ [j])"
    using assms(2-4) q w by (auto simp: life_inv_bits sections_ok_def)
  show "fst (schedi_job_destroy b s j) = -1" using q by simp
qed

text \<open>One pass of the queue check over an UNSTABLE job.\<close>

lemma teardown_life_inv:
  assumes "life_inv s (j # xs)" "dq_repr q xs 0"
  shows "life_inv ((teardown s j)\<lparr>destroy_q := q\<rparr>) xs"
proof -
  have j: "j < SCHEDI_MAXIMUM_JOBS" "j \<notin> free_slots s" "bit (meta s j) 1" "\<not> bit (meta s j) 5"
    "j \<notin> set xs" using assms(1) by (auto simp: life_inv_bits)
  have "sections_ok s" using assms(1) by (simp add: life_inv_def)
  note sl = teardown_slots[OF this j(2,1)]
  have "slot_ok (meta s j) (count (ready_bag s) j)"
    using assms(1) j(1) by (simp add: life_inv_def sched_inv_def)
  then have "slot_ok 0 (count (ready_bag s) j)" using j(4) by (simp add: slot_iffs)
  then have "sched_inv (teardown s j)"
    using assms(1) j(1) by (auto simp: life_inv_def sched_inv_def cache_ok_def torn_down_def)
  moreover have "sched_inv (s'\<lparr>destroy_q := q\<rparr>) = sched_inv s'" for s' :: "'a jobsys_scheme"
    by (rule sched_inv_cong) simp_all
  ultimately show ?thesis
    using assms sl j by (auto simp: life_inv_bits sections_ok_def torn_down_def split: if_splits)
qed

definition torn_all :: "nat list \<Rightarrow> (nat \<Rightarrow> job) \<Rightarrow> nat \<Rightarrow> job" where
  "torn_all xs js = (\<lambda>i. if i \<in> set xs then torn_down (js i) else js i)"

lemma destroy_queue_loop_drains:
  assumes "addr_ok (job_addr b)" "life_inv s xs"
  shows "life_inv (destroy_queue_loop b (length xs) s) []
    \<and> jobs (destroy_queue_loop b (length xs) s) = torn_all xs (jobs s)
    \<and> dtor_calls (destroy_queue_loop b (length xs) s) =
        dtor_calls s @ concat (map (\<lambda>j. dtor_call (jobs s j)) xs)
    \<and> ready_jobs_cache (destroy_queue_loop b (length xs) s) = ready_jobs_cache s
    \<and> free_slots (destroy_queue_loop b (length xs) s) \<subseteq> free_slots s \<union> set xs"
  using assms(2)
proof (induction xs arbitrary: s)
  case Nil
  then show ?case by (simp add: torn_all_def)
next
  case (Cons j xs)
  have r: "dq_repr (destroy_q s) (j # xs) 0" using Cons.prems by (simp add: life_inv_def)
  from dq_super_pop_repr[OF assms(1) r life_inv_short(1)[OF Cons.prems]]
  obtain q where q: "dq_super_pop (job_addr b) (destroy_q s) = (Some j, q)" "dq_repr q xs (Suc 0)"
    by (metis prod.collapse)
  let ?t = "(teardown s j)\<lparr>destroy_q := dq_dec_count q\<rparr>"
  have "\<not> idle (meta s j)" using Cons.prems by (simp add: life_inv_bits idle_bits)
  then have "schedi_job_destroy_now (s\<lparr>destroy_q := q\<rparr>) j = (1, teardown (s\<lparr>destroy_q := q\<rparr>) j)"
    by (simp add: destroy_now_eq)
  moreover have "(teardown (s\<lparr>destroy_q := q\<rparr>) j)\<lparr>destroy_q := q'\<rparr> = (teardown s j)\<lparr>destroy_q := q'\<rparr>" for q'
    by (simp add: teardown_def upd_job_def section_release_def split: option.split)
  ultimately have loop: "destroy_queue_loop b (length (j # xs)) s = destroy_queue_loop b (length xs) ?t"
    using q by simp
  have inv: "life_inv ?t xs"
    using Cons.prems dq_dec_count_repr[OF q(2)] by (rule teardown_life_inv)
  have "j \<notin> set xs" using Cons.prems by (simp add: life_inv_def)
  then have e1: "map (\<lambda>i. dtor_call (jobs ?t i)) xs = map (\<lambda>i. dtor_call (jobs s i)) xs" by auto
  have e2: "torn_all xs (jobs ?t) = torn_all (j # xs) (jobs s)"
    using \<open>j \<notin> set xs\<close> by (auto simp: torn_all_def)
  have j: "j \<notin> free_slots s" "j < SCHEDI_MAXIMUM_JOBS" "sections_ok s"
    using Cons.prems by (simp_all add: life_inv_def)
  have "free_slots ?t \<subseteq> insert j (free_slots s)" using teardown_slots(2)[OF j(3,1,2)] by auto
  then show ?case using Cons.IH[OF inv] unfolding loop e1 e2 by auto
qed

lemma destroy_queue_check_drains:
  assumes "addr_ok (job_addr b)" "life_inv s xs" and s': "s' = schedi_job_destroy_queue_check b s"
  shows "life_inv s' []" "jobs s' = torn_all xs (jobs s)"
    and "dtor_calls s' = dtor_calls s @ concat (map (\<lambda>j. dtor_call (jobs s j)) xs)"
    and "ready_jobs_cache s' = ready_jobs_cache s" "free_slots s' \<subseteq> free_slots s \<union> set xs"
proof -
  have "unat (HTC_COUNT (dq_htc (destroy_q s))) = length xs"
    using assms(2) by (simp add: life_inv_def dq_repr_def)
  with destroy_queue_loop_drains[OF assms(1,2)] s'
  show "life_inv s' []" "jobs s' = torn_all xs (jobs s)"
    "dtor_calls s' = dtor_calls s @ concat (map (\<lambda>j. dtor_call (jobs s j)) xs)"
    "ready_jobs_cache s' = ready_jobs_cache s" "free_slots s' \<subseteq> free_slots s \<union> set xs"
    by (simp_all add: schedi_job_destroy_queue_check_def)
qed


subsection \<open>Returned requests\<close>

text \<open>The wait for access ends at once when it can end at all.\<close>

lemma request_access_ends:
  "bit (meta s j) 1 \<Longrightarrow> request_access_loop s j =
     Some (meta s j AND (SCHEDI_JOB_METAFLAG_UNSTABLE OR SCHEDI_JOB_METAFLAG_WLLDESTROY), s)"
  "settled (meta s j) \<Longrightarrow> SCHEDI_JOB_METAFLAG_GETACCESS (meta s j) \<noteq> 15 \<Longrightarrow>
     request_access_loop s j = Some (0, set_meta j (SCHEDI_JOB_METAFLAG_SETACCESS (meta s j)
       (SCHEDI_JOB_METAFLAG_GETACCESS (meta s j) + 1)) s)"
proof -
  let ?ban = "meta s j AND (SCHEDI_JOB_METAFLAG_UNSTABLE OR SCHEDI_JOB_METAFLAG_WLLDESTROY)"
  assume "bit (meta s j) 1"
  then have "?ban AND SCHEDI_JOB_METAFLAG_UNSTABLE \<noteq> 0" "?ban \<noteq> 0"
    by (simp_all add: flag_clear_iff bit_and_iff bit_or_iff bit_flags and_or_eq_0_iff)
  then show "request_access_loop s j = Some (?ban, s)"
    by (subst request_access_loop.simps) (simp add: mark_access_eq Let_def)
qed (subst request_access_loop.simps, simp add: mark_access_eq Let_def settled_def)

text \<open>
  A job that waits for its destruction and is not UNSTABLE yet, or that has 15
  accesses, is not let in and not turned away: the loop spins until another
  thread changes the word.
\<close>

lemma mark_access_refused:
  assumes "\<not> bit (meta s j) 1" "bit (meta s j) 3 \<or> SCHEDI_JOB_METAFLAG_GETACCESS (meta s j) = 15"
  obtains ban where "schedi_job_mark_access s j = (ban, s)" "ban \<noteq> 0"
    "ban AND SCHEDI_JOB_METAFLAG_UNSTABLE = 0"
proof -
  let ?m = "meta s j"
  let ?ban = "?m AND (SCHEDI_JOB_METAFLAG_UNSTABLE OR SCHEDI_JOB_METAFLAG_WLLDESTROY)"
  show ?thesis
  proof (cases "bit ?m 3")
    case True
    then have "?ban \<noteq> 0" by (simp add: ban_iffs)
    with assms(1) show ?thesis
      by (intro that[of ?ban]) (simp_all add: mark_access_eq Let_def flag_clear_iff bit_and_iff)
  next
    case False
    then have "?ban = 0" "SCHEDI_JOB_METAFLAG_GETACCESS ?m = 15"
      using assms by (auto simp: ban_iffs)
    moreover from this have "?m AND SCHEDI_JOB_METAFLAG_ACCESS \<noteq> 0" using access_zero_iff[of ?m] by simp
    ultimately show ?thesis using assms(1)
      by (intro that[of "?m AND SCHEDI_JOB_METAFLAG_ACCESS"])
        (simp_all add: mark_access_eq Let_def flag_clear_iff bit_and_iff)
  qed
qed

lemma request_access_SomeD:
  assumes "request_access_loop s j = Some r"
  shows "bit (meta s j) 1 \<or> settled (meta s j) \<and> SCHEDI_JOB_METAFLAG_GETACCESS (meta s j) \<noteq> 15"
proof (rule request_access_loop.raw_induct[OF _ assms], goal_cases)
  case (1 f s j r)
  show ?case
  proof (rule ccontr)
    assume n: "\<not> ?thesis"
    then obtain ban where "schedi_job_mark_access s j = (ban, s)" "ban \<noteq> 0"
      "ban AND SCHEDI_JOB_METAFLAG_UNSTABLE = 0"
      using mark_access_refused[of s j] by (auto simp: settled_iff)
    with 1(2) have "f s j = Some r" by (simp add: Let_def)
    from 1(1)[OF this] n show False by simp
  qed
qed

lemma request_access_spins:
  "\<not> bit (meta s j) 1 \<Longrightarrow> bit (meta s j) 3 \<or> SCHEDI_JOB_METAFLAG_GETACCESS (meta s j) = 15 \<Longrightarrow>
    request_access_loop s j = None"
  using request_access_SomeD[of s j] by (cases "request_access_loop s j") (auto simp: settled_iff)

lemma access_plus_less:
  assumes "SCHEDI_JOB_METAFLAG_GETACCESS m \<noteq> 15"
  shows "SCHEDI_JOB_METAFLAG_GETACCESS m + 1 < 16"
proof -
  have "unat (SCHEDI_JOB_METAFLAG_GETACCESS m) < 15"
    using field_less_16(4)[of m] assms by (simp add: word_less_nat_alt word_unat_eq_iff)
  then show ?thesis by (simp add: word_less_nat_alt unat_word_ariths)
qed

text \<open>Taking an access and giving it back restores the word.\<close>

lemma set_access_back:
  assumes "a < 16"
  shows "SCHEDI_JOB_METAFLAG_SETACCESS (SCHEDI_JOB_METAFLAG_SETACCESS m a)
    (SCHEDI_JOB_METAFLAG_GETACCESS m) = m"
  using assms field_less_16(4)[of m]
  by (intro bit_word_eqI) (auto simp: bit_setters bit_getters)

lemma sched_inv_counts [simp]:
  "sched_inv (upd_job j (\<lambda>x. x\<lparr>err_count := f x\<rparr>) s) = sched_inv s"
  "sched_inv (upd_job j (\<lambda>x. x\<lparr>ret_count := f x\<rparr>) s) = sched_inv s"
  by (rule sched_inv_cong; auto)+

lemma request_return_keeps:
  assumes "schedi_job_epoll_request_return b s req err = Some (r, s')" "sched_inv s"
    and "req_owner req < SCHEDI_MAXIMUM_JOBS"
    and "gen (jobs s (req_owner req)) = req_job_gen req \<longrightarrow> req_owner req \<notin> free_slots s"
  shows "sched_inv s' \<and> calm s s'"
proof -
  let ?j = "req_owner req"
  consider "bit (meta s ?j) 1" | "settled (meta s ?j)" "SCHEDI_JOB_METAFLAG_GETACCESS (meta s ?j) \<noteq> 15"
    using assms(1) request_access_SomeD[of s ?j]
    by (fastforce simp: schedi_job_epoll_request_return_def split: option.splits)
  then show ?thesis
  proof cases
    case 1
    then have "meta s ?j AND (SCHEDI_JOB_METAFLAG_UNSTABLE OR SCHEDI_JOB_METAFLAG_WLLDESTROY) \<noteq> 0"
      by (simp add: ban_iffs)
    with 1 assms show ?thesis by (simp add: schedi_job_epoll_request_return_def request_access_ends)
  next
    case 2
    define s1 where "s1 = snd (schedi_job_mark_access s ?j)"
    have "request_access_loop s ?j = Some (0, s1)"
      using request_access_ends(2)[OF 2] 2 by (simp add: s1_def mark_access_eq Let_def settled_def)
    note ret = assms(1)[unfolded schedi_job_epoll_request_return_def this]
    have i1: "sched_inv s1" "calm s s1" "gen (jobs s1 ?j) = gen (jobs s ?j)"
      using access_sched_inv(1)[OF assms(2), of ?j] calm_access(1)[of s ?j]
      by (simp_all add: s1_def) (simp add: mark_access_eq Let_def)
    show ?thesis
    proof (cases "gen (jobs s ?j) = req_job_gen req")
      case False
      with ret i1 access_sched_inv(2)[OF i1(1), of ?j] calm_trans[OF i1(2) calm_access(2)[of s1 ?j]]
      show ?thesis by auto
    next
      case True
      define s2 where "s2 = (if err then upd_job (req_list req) (\<lambda>x. x\<lparr>err_count := err_count x + 1\<rparr>) s1
                      else upd_job (req_list req) (\<lambda>x. x\<lparr>ret_count := ret_count x + 1\<rparr>) s1)"
      define s3 where "s3 = snd (schedi_job_meta_flag_cas_update b s2 ?j 0 (-1) 0 0 0 False)"
      have s': "s' = snd (schedi_job_unmark_access s3 ?j)"
        using ret True i1(3) by (simp add: s2_def s3_def Let_def)
      have "sched_inv s2" using i1(1) by (simp add: s2_def)
      moreover have c12: "calm s1 s2" by (rule calm_jobs) (auto simp: s2_def)
      moreover have "?j \<notin> free_slots s2" using True assms(4) i1(2) c12 by (simp add: calm_def)
      ultimately have "sched_inv s3" "calm s2 s3"
        unfolding s3_def using assms(3) cas_update_sched_inv[of s2 ?j 0] calm_cas_update[of s2 ?j 0]
        by (simp_all add: sched_inv_def)
      with access_sched_inv(2)[of s3 ?j] calm_access(2)[of s3 ?j] c12 i1(2) show ?thesis
        unfolding s' by (blast intro: calm_trans)
    qed
  qed
qed


subsection \<open>Destruction followed by a queue check\<close>

lemma destroy_then_check:
  assumes "addr_ok (job_addr b)" "life_inv s xs" "j < SCHEDI_MAXIMUM_JOBS" "j \<notin> free_slots s"
    and "idle (meta s j)"
  defines "t \<equiv> snd (schedi_job_destroy b s j)"
  shows "j \<notin> set xs" "fst (schedi_job_destroy b s j) = -1" "meta t j = doomed_word (meta s j)"
    and "jobs (schedi_job_destroy_queue_check b t) =
        (\<lambda>i. if i = j then torn_down ((jobs s j)\<lparr>meta_flag := doomed_word (meta s j)\<rparr>)
             else if i \<in> set xs then torn_down (jobs s i) else jobs s i)"
    and "dtor_calls (schedi_job_destroy_queue_check b t) =
        dtor_calls s @ concat (map (\<lambda>i. dtor_call (jobs s i)) xs) @ dtor_call (jobs s j)"
    and "dq_repr (destroy_q (schedi_job_destroy_queue_check b t)) [] 0"
proof -
  have r: "dq_repr (destroy_q s) xs 0" using assms(2) by (simp add: life_inv_def)
  obtain q where q: "schedi_job_destroy b s j =
      (-1, (set_meta j (doomed_word (meta s j)) s)\<lparr>destroy_q := q\<rparr>)"
    by (rule destroy_idle[OF assms(1) r life_inv_short(1)[OF assms(2)] assms(5)])
  have "life_inv t (xs @ [j])" unfolding t_def by (rule destroy_life_inv(2)[OF assms(1-5)])
  note d = destroy_queue_check_drains[OF assms(1) this refl]
  show j: "j \<notin> set xs" using assms(2,5) by (auto simp: life_inv_bits idle_bits)
  have t: "jobs t = (jobs s)(j := (jobs s j)\<lparr>meta_flag := doomed_word (meta s j)\<rparr>)"
    "dtor_calls t = dtor_calls s" using q by (simp_all add: t_def)
  show "fst (schedi_job_destroy b s j) = -1" "meta t j = doomed_word (meta s j)"
    using q t by simp_all
  have e: "map (\<lambda>i. dtor_call (jobs t i)) (xs @ [j]) = map (\<lambda>i. dtor_call (jobs s i)) (xs @ [j])"
    using j t(1) by auto
  show "dtor_calls (schedi_job_destroy_queue_check b t) =
      dtor_calls s @ concat (map (\<lambda>i. dtor_call (jobs s i)) xs) @ dtor_call (jobs s j)"
    unfolding d(3) t(2) e by simp
  show "jobs (schedi_job_destroy_queue_check b t) =
      (\<lambda>i. if i = j then torn_down ((jobs s j)\<lparr>meta_flag := doomed_word (meta s j)\<rparr>)
           else if i \<in> set xs then torn_down (jobs s i) else jobs s i)"
    unfolding d(2) t(1) torn_all_def by auto
  show "dq_repr (destroy_q (schedi_job_destroy_queue_check b t)) [] 0"
    using d(1) by (simp add: life_inv_def)
qed

section \<open>All operations in any order\<close>

text \<open>
  One call by a client or a worker. Operations on a job are called on claimed
  slots; a request whose generation is the current one belongs to a claimed
  slot; a job is destroyed when it is idle.
\<close>

abbreviation claimed :: "'a jobsys_scheme \<Rightarrow> nat \<Rightarrow> bool" where
  "claimed s j \<equiv> j < SCHEDI_MAXIMUM_JOBS \<and> j \<notin> free_slots s"

text \<open>
  A client may keep its own memory, as an extension of the record, and writes the
  phase, the context and the completion indicator of its jobs.
\<close>

definition client_write :: "'a jobsys_scheme \<Rightarrow> 'a jobsys_scheme \<Rightarrow> bool" where
  "client_write s s' \<longleftrightarrow> jobsys.truncate (s'\<lparr>jobs := jobs s\<rparr>) = jobsys.truncate s
     \<and> (\<forall>i. (jobs s' i)\<lparr>phase := 0, job_context := 0, completion_indicator := None\<rparr>
          = (jobs s i)\<lparr>phase := 0, job_context := 0, completion_indicator := None\<rparr>)"

inductive job_step :: "build \<Rightarrow> 'a jobsys_scheme \<Rightarrow> 'a jobsys_scheme \<Rightarrow> bool" for b where
  create: "job_step b s (snd (schedi_job_create s c r d))"
| setready: "claimed s j \<Longrightarrow> job_step b s (snd (schedi_job_setready b s j))"
| mark_readybasic: "claimed s j \<Longrightarrow> job_step b s (snd (schedi_job_mark_readybasic b s j))"
| unmark_readybasic: "claimed s j \<Longrightarrow> job_step b s (snd (schedi_job_unmark_readybasic s j))"
| require_sockets: "claimed s j \<Longrightarrow> job_step b s (schedi_job_required_available_socket b s j n)"
| require_jobs: "claimed s j \<Longrightarrow> job_step b s (schedi_job_required_available_jobs b s j n)"
| add_available_job: "claimed s j \<Longrightarrow> job_step b s (snd (schedi_job_add_available_job b s j))"
| update_counts: "claimed s j \<Longrightarrow>
    job_step b s (snd (schedi_job_meta_flag_cas_update b s j sd wd jd 0 0 False))"
| tool_job: "job_step b s (schedi_job_tool_job s i j)"
| set_state: "job_step b s (upd_job j (\<lambda>x. x\<lparr>state := st\<rparr>) s)"
| request_return: "req_owner req < SCHEDI_MAXIMUM_JOBS \<Longrightarrow>
    (gen (jobs s (req_owner req)) = req_job_gen req \<longrightarrow> req_owner req \<notin> free_slots s) \<Longrightarrow>
    schedi_job_epoll_request_return b s req err = Some (r, s') \<Longrightarrow> job_step b s s'"
| mark_access: "job_step b s (snd (schedi_job_mark_access s j))"
| unmark_access: "job_step b s (snd (schedi_job_unmark_access s j))"
| mark_executing: "job_step b s (snd (schedi_job_mark_executing s j))"
| unmark_executing: "job_step b s (snd (schedi_job_unmark_executing s j))"
| pick: "job_step b s (snd (schedi_job_pickready s))"
| tick: "job_step b s (schedi_ready_jobs_cache_reorganize_tick b s)"
| complete: "job_step b s (schedi_job_completion_indicate s j)"
| destroy: "claimed s j \<Longrightarrow> idle (meta s j) \<Longrightarrow> job_step b s (snd (schedi_job_destroy b s j))"
| queue_check: "job_step b s (schedi_job_destroy_queue_check b s)"
| client: "client_write s s' \<Longrightarrow> job_step b s s'"

inductive job_reach :: "build \<Rightarrow> 'a jobsys_scheme \<Rightarrow> bool" for b where
  start: "jobsys.truncate s = sections_init static_jobsys \<Longrightarrow> job_reach b s"
| step: "job_reach b s \<Longrightarrow> job_step b s s' \<Longrightarrow> job_reach b s'"

lemma start_life_inv: "life_inv (sections_init static_jobsys) []"
proof -
  have sec: "sections_ok (sections_init static_jobsys)"
    using sections_init_ok(1)[of static_jobsys] by (simp add: static_jobsys_def)
  have ok: "cache_ok static_jobsys" using static_reach_ok by (simp add: reach_ok_def)
  have "slot_ok 0 0" by (simp add: slot_iffs)
  moreover have "cached (replicate 256 None) = []" by (simp add: cached_def)
  ultimately have "sched_inv (static_jobsys :: jobsys)"
    using ok by (simp add: sched_inv_def static_jobsys_def null_job_def SCHEDI_MAXIMUM_JOBS_def)
  moreover have "sched_inv (sections_init static_jobsys) = sched_inv static_jobsys"
    by (rule sched_inv_cong) (simp_all add: sections_init_def)
  ultimately show ?thesis using sec
    by (simp add: life_inv_bits sections_init_def static_jobsys_def null_job_def dq_repr_init)
qed

text \<open>The invariant does not see the memory of the client.\<close>

lemma client_write_fields:
  assumes "client_write s s'"
  shows "meta s' i = meta s i" "gen (jobs s' i) = gen (jobs s i)"
    and "required_available_sockets (jobs s' i) = required_available_sockets (jobs s i)"
    and "required_available_jobs (jobs s' i) = required_available_jobs (jobs s i)"
    and "requested_job (jobs s' i) = requested_job (jobs s i)"
    and "requested_job_gen (jobs s' i) = requested_job_gen (jobs s i)"
    and "run_fn (jobs s' i) = run_fn (jobs s i)"
    and "ready_jobs_cache s' = ready_jobs_cache s" "job_count s' = job_count s"
    and "empty_sections s' = empty_sections s" "destroy_q s' = destroy_q s"
    and "completed s' = completed s"
proof -
  have e: "(jobs s' i)\<lparr>phase := 0, job_context := 0, completion_indicator := None\<rparr>
      = (jobs s i)\<lparr>phase := 0, job_context := 0, completion_indicator := None\<rparr>" for i
    using assms by (simp add: client_write_def)
  show "meta s' i = meta s i" "gen (jobs s' i) = gen (jobs s i)"
    "required_available_sockets (jobs s' i) = required_available_sockets (jobs s i)"
    "required_available_jobs (jobs s' i) = required_available_jobs (jobs s i)"
    "requested_job (jobs s' i) = requested_job (jobs s i)"
    "requested_job_gen (jobs s' i) = requested_job_gen (jobs s i)"
    "run_fn (jobs s' i) = run_fn (jobs s i)"
    using arg_cong[OF e[of i], of meta_flag] arg_cong[OF e[of i], of gen]
      arg_cong[OF e[of i], of required_available_sockets] arg_cong[OF e[of i], of required_available_jobs]
      arg_cong[OF e[of i], of requested_job] arg_cong[OF e[of i], of requested_job_gen]
      arg_cong[OF e[of i], of run_fn] by simp_all
  show "ready_jobs_cache s' = ready_jobs_cache s" "job_count s' = job_count s"
    "empty_sections s' = empty_sections s" "destroy_q s' = destroy_q s" "completed s' = completed s"
    using assms by (simp_all add: client_write_def jobsys.truncate_def)
qed

lemma life_inv_cong:
  assumes "\<And>i. meta s' i = meta s i" "ready_jobs_cache s' = ready_jobs_cache s" "job_count s' = job_count s"
    and "empty_sections s' = empty_sections s" "destroy_q s' = destroy_q s"
  shows "life_inv s' xs = life_inv s xs"
proof -
  have "sched_inv s' = sched_inv s" by (rule sched_inv_cong) (simp_all add: assms)
  then show ?thesis by (simp add: life_inv_def sections_ok_def assms)
qed

lemma reach_start: "job_reach b (sections_init static_jobsys)"
  by (rule job_reach.start) (simp add: jobsys.truncate_def)

lemma extended_start_life_inv:
  assumes "jobsys.truncate s = sections_init static_jobsys"
  shows "life_inv s []"
proof -
  let ?s0 = "sections_init static_jobsys"
  have "jobs s = jobs ?s0" "ready_jobs_cache s = ready_jobs_cache ?s0" "job_count s = job_count ?s0"
    "empty_sections s = empty_sections ?s0" "destroy_q s = destroy_q ?s0"
    unfolding assms[symmetric] by (simp_all add: jobsys.truncate_def)
  then have "life_inv s [] = life_inv ?s0 []" by (intro life_inv_cong) simp_all
  then show ?thesis using start_life_inv by simp
qed

lemma sched_inv_thresholds [simp]:
  "sched_inv (upd_job j (\<lambda>x. x\<lparr>required_available_sockets := n\<rparr>) s) = sched_inv s"
  "sched_inv (upd_job j (\<lambda>x. x\<lparr>required_available_jobs := n\<rparr>) s) = sched_inv s"
  "sched_inv (upd_job j (\<lambda>x. x\<lparr>requested_job := p, requested_job_gen := g\<rparr>) s) = sched_inv s"
  by (rule sched_inv_cong; auto)+

text \<open>An update of the counts from a state that differs in the thresholds only.\<close>

lemma update_life_inv:
  assumes "life_inv s xs" "claimed s j" "quiet_flag flag"
    and "\<And>i. meta t i = meta s i" "empty_sections t = empty_sections s" "destroy_q t = destroy_q s"
      "ready_jobs_cache t = ready_jobs_cache s" "job_count t = job_count s"
  shows "life_inv (snd (schedi_job_meta_flag_cas_update b t j sd wd jd flag bn ba)) xs"
proof -
  have "sched_inv t" using sched_inv_cong[of t s] assms life_inv_sched(1) by blast
  then have "sched_inv (snd (schedi_job_meta_flag_cas_update b t j sd wd jd flag bn ba))"
    using assms(2,3) by (intro cas_update_sched_inv) simp_all
  moreover have "calm t (snd (schedi_job_meta_flag_cas_update b t j sd wd jd flag bn ba))"
    using assms(2,3,5) \<open>sched_inv t\<close> by (intro calm_cas_update) (simp_all add: sched_inv_def)
  moreover have "life_inv t xs" using assms(1) \<open>sched_inv t\<close> assms(4-6)
    by (simp add: life_inv_bits sections_ok_def)
  ultimately show ?thesis by (blast intro: calm_life_inv)
qed

lemma sched_inv_butI: "sched_inv s \<Longrightarrow> j < SCHEDI_MAXIMUM_JOBS \<Longrightarrow> sched_inv_but j s"
  using sched_inv_but_iff by blast

lemma job_step_life_inv:
  assumes "job_step b s s'" "addr_ok (job_addr b)" "life_inv s xs"
  shows "\<exists>ys. life_inv s' ys"
proof -
  note inv = life_inv_sched[OF assms(3)]
  note keep = calm_life_inv[OF _ _ assms(3)]
  from assms(1) show ?thesis
  proof cases
    case (create c r d)
    then show ?thesis using create_life_inv[OF assms(3)] by blast
  next
    case (setready j)
    then show ?thesis
      using keep[OF calm_setready[OF inv(2)]] setready_sched_inv[OF sched_inv_butI[OF inv(1)]] by blast
  next
    case (mark_readybasic j)
    then have "life_inv s' xs"
      using update_life_inv[OF assms(3), of j SCHEDI_JOB_METAFLAG_READYBASIC s]
      by (simp add: schedi_job_mark_readybasic_def schedi_job_mark_or_readiness_def case_prod_beta)
    then show ?thesis ..
  next
    case (require_sockets j n)
    then have "life_inv s' xs"
      using update_life_inv[OF assms(3), of j 0 "upd_job j (\<lambda>x. x\<lparr>required_available_sockets := n\<rparr>) s"]
      by (simp add: schedi_job_required_available_socket_def)
    then show ?thesis ..
  next
    case (require_jobs j n)
    then have "life_inv s' xs"
      using update_life_inv[OF assms(3), of j 0 "upd_job j (\<lambda>x. x\<lparr>required_available_jobs := n\<rparr>) s"]
      by (simp add: schedi_job_required_available_jobs_def)
    then show ?thesis ..
  next
    case (add_available_job j)
    then have "life_inv s' xs"
      using update_life_inv[OF assms(3), of j 0 s] by (simp add: schedi_job_add_available_job_def)
    then show ?thesis ..
  next
    case (update_counts j sd wd jd)
    then have "life_inv s' xs" using update_life_inv[OF assms(3), of j 0 s] by simp
    then show ?thesis ..
  next
    case (tool_job i j)
    have "calm s s'" unfolding tool_job by (rule calm_jobs) (simp_all add: schedi_job_tool_job_def)
    moreover have "sched_inv s'" using inv(1) unfolding tool_job by (simp add: schedi_job_tool_job_def)
    ultimately show ?thesis using keep by blast
  next
    case (set_state j st)
    have "calm s s'" unfolding set_state by (rule calm_jobs) simp_all
    moreover have "sched_inv s'" using inv(1) unfolding set_state by simp
    ultimately show ?thesis using keep by blast
  next
    case (request_return req err r)
    then show ?thesis using keep request_return_keeps[OF _ inv(1)] by blast
  next
    case pick
    obtain r t where e: "schedi_job_pickready s = (r, t)" by force
    from pickready_spec[OF inv(1) this] have "pick_spec s r t" .
    with keep[OF calm_pick[OF this inv(1)]] pick e show ?thesis by (auto simp: pick_spec_def)
  next
    case tick
    then show ?thesis using keep[OF calm_tick[OF inv(2)]] tick_sched_inv[OF inv(1)] by blast
  next
    case (complete j)
    have "sched_inv s'" unfolding complete
      by (subst sched_inv_cong[of _ s])
        (auto simp: schedi_job_completion_indicate_def inv(1) split: option.split)
    moreover have "calm s s'" unfolding complete
      by (rule calm_jobs) (auto simp: schedi_job_completion_indicate_def split: option.split)
    ultimately show ?thesis using keep by blast
  next
    case (destroy j)
    then show ?thesis using destroy_life_inv[OF assms(2,3)] by blast
  next
    case queue_check
    then show ?thesis using destroy_queue_check_drains(1)[OF assms(2,3)] by blast
  next
    case (mark_access j)
    then show ?thesis using keep[OF calm_access(1)] access_sched_inv(1)[OF inv(1)] by blast
  next
    case (unmark_access j)
    then show ?thesis using keep[OF calm_access(2)] access_sched_inv(2)[OF inv(1)] by blast
  next
    case (mark_executing j)
    have "calm s s'" unfolding mark_executing mark_defs by (rule calm_mark) (simp add: bit_flags)
    then show ?thesis using keep marks_sched_inv(2)[OF inv(1)] mark_executing by blast
  next
    case (unmark_executing j)
    have "calm s s'" unfolding unmark_executing mark_defs by (rule calm_unmark) (simp add: bit_flags)
    then show ?thesis using keep marks_sched_inv(3)[OF inv(1)] unmark_executing by blast
  next
    case (unmark_readybasic j)
    have "calm s s'" unfolding unmark_readybasic mark_defs by (rule calm_unmark) (simp add: bit_flags)
    then show ?thesis using keep marks_sched_inv(6)[OF inv(1)] unmark_readybasic by blast
  next
    case client
    have "life_inv s' xs = life_inv s xs" by (rule life_inv_cong) (simp_all add: client_write_fields[OF client])
    then show ?thesis using assms(3) by blast
  qed
qed

lemma job_reach_life_inv:
  assumes "job_reach b s" "addr_ok (job_addr b)"
  shows "\<exists>xs. life_inv s xs"
  using assms(1)
proof induction
  case start
  then show ?case using extended_start_life_inv by blast
next
  case (step s s')
  then show ?case using job_step_life_inv assms(2) by blast
qed

section \<open>Properties\<close>

text \<open>A job created in the fresh system, for the examples below.\<close>

definition example_state :: jobsys where
  "example_state = snd (schedi_job_create (sections_init static_jobsys) 11 22 (Some 33))"

lemma example_reach: "job_reach b example_state"
  unfolding example_state_def by (rule job_reach.step[OF reach_start job_step.create])

lemma example_created: "schedi_job_create (sections_init static_jobsys) 11 22 (Some 33) = (Some 0, example_state)"
proof -
  have "fst (schedi_job_create (sections_init static_jobsys) 11 22 (Some 33)) = Some 0" by code_simp
  then show ?thesis unfolding example_state_def by (metis prod.collapse)
qed

lemma example_claimed: "claimed example_state 0"
  using create_some(2)[OF _ example_created] start_life_inv
  by (simp add: life_inv_def SCHEDI_MAXIMUM_JOBS_def)

lemma example_addr: "addr_ok (job_addr example_build)"
  by (simp add: example_build_def addr_ok_def)







text \<open>
  C4: Destroying an idle job works in two steps, exactly once. In every reachable
  state, \<^verbatim>\<open>schedi_job_destroy\<close> of an idle claimed job returns -1, leaves the job
  UNSTABLE and WLLDESTROY and queues it; the next queue check tears down every
  queued job: its generation grows by one, its word is cleared, its destructor
  runs once with its context, after those queued before it, and no other job
  changes.
\<close>

theorem destroy_idle_job_once:
  assumes "job_reach b s" "addr_ok (job_addr b)" "claimed s j" "idle (meta s j)"
  shows "\<exists>xs. dq_repr (destroy_q s) xs 0 \<and> j \<notin> set xs
    \<and> fst (schedi_job_destroy b s j) = -1
    \<and> meta (snd (schedi_job_destroy b s j)) j = doomed_word (meta s j)
    \<and> jobs (schedi_job_destroy_queue_check b (snd (schedi_job_destroy b s j))) =
        (\<lambda>i. if i = j then torn_down ((jobs s j)\<lparr>meta_flag := doomed_word (meta s j)\<rparr>)
             else if i \<in> set xs then torn_down (jobs s i) else jobs s i)
    \<and> dtor_calls (schedi_job_destroy_queue_check b (snd (schedi_job_destroy b s j))) =
        dtor_calls s @ concat (map (\<lambda>i. dtor_call (jobs s i)) xs) @ dtor_call (jobs s j)
    \<and> dq_repr (destroy_q (schedi_job_destroy_queue_check b (snd (schedi_job_destroy b s j)))) [] 0"
proof -
  from job_reach_life_inv[OF assms(1,2)] obtain xs where inv: "life_inv s xs" by blast
  note d = destroy_then_check[OF assms(2) inv _ _ assms(4)]
  from d inv assms(3) show ?thesis by (intro exI[of _ xs]) (simp add: life_inv_def)
qed

theorem destroy_idle_job_once_witness:
  "claimed example_state 0 \<and> idle (meta example_state 0)
   \<and> fst (schedi_job_destroy example_build example_state 0) = -1
   \<and> dtor_calls (schedi_job_destroy_queue_check example_build
       (snd (schedi_job_destroy example_build example_state 0))) = [(33, 11)]"
proof -
  have i: "idle (meta example_state 0)" by code_simp
  from destroy_idle_job_once[OF example_reach example_addr example_claimed i]
  have "fst (schedi_job_destroy example_build example_state 0) = -1" by blast
  moreover have "dtor_calls (schedi_job_destroy_queue_check example_build
       (snd (schedi_job_destroy example_build example_state 0))) = [(33, 11)]" by code_simp
  ultimately show ?thesis using example_claimed i by simp
qed

text \<open>
  C34: A busy job is torn down on the spot. When the job is UNSTABLE, EXECUTING,
  READY or accessed, \<^verbatim>\<open>schedi_job_destroy\<close> does not defer: it returns 0 after
  calling the destructor, clearing the word, and releasing the slot, and leaves
  the ready cache as it is, so a READY job stays cached in a slot that is handed
  out again.
\<close>

theorem destroy_busy_job_not_deferred:
  assumes "\<not> idle (meta s j)" "sections_ok s" "claimed s j" "\<not> release_leaks s j"
  shows "fst (schedi_job_destroy b s j) = 0
    \<and> meta (snd (schedi_job_destroy b s j)) j = 0
    \<and> dtor_calls (snd (schedi_job_destroy b s j)) = dtor_calls s @ dtor_call (jobs s j)
    \<and> j \<in> free_slots (snd (schedi_job_destroy b s j))
    \<and> ready_bag (snd (schedi_job_destroy b s j)) = ready_bag s
    \<and> destroy_q (snd (schedi_job_destroy b s j)) = destroy_q s"
proof -
  let ?s = "snd (schedi_job_mark_wlldestroy s j)"
  have f: "empty_sections ?s = empty_sections s" "dtor_calls ?s = dtor_calls s"
    "ready_jobs_cache ?s = ready_jobs_cache s" "destroy_q ?s = destroy_q s"
    "dtor_call (jobs ?s j) = dtor_call (jobs s j)"
    by (simp_all add: mark_wlldestroy_snd)
  have "sections_ok ?s" "j \<notin> free_slots ?s" "j < SCHEDI_MAXIMUM_JOBS" "\<not> release_leaks ?s j"
    using assms(2-4) f(1) by (simp_all add: sections_ok_def release_leaks_def)
  with teardown_slots(2)[of ?s j] show ?thesis
    unfolding destroy_busy[OF assms(1)] by (simp add: f torn_down_def)
qed

theorem destroy_busy_job_not_deferred_witness:
  "let s = snd (schedi_job_mark_readybasic example_build example_state 0)
   in \<not> idle (meta s 0) \<and> 0 \<in> free_slots (snd (schedi_job_destroy example_build s 0))
      \<and> 0 \<in># ready_bag (snd (schedi_job_destroy example_build s 0))"
proof -
  let ?s = "snd (schedi_job_mark_readybasic example_build example_state 0)"
  have r: "job_reach example_build ?s"
    by (rule job_reach.step[OF example_reach]) (rule job_step.mark_readybasic[OF example_claimed])
  have n: "\<not> idle (meta ?s 0)" by code_simp
  have l: "\<not> release_leaks ?s 0" by code_simp
  from job_reach_life_inv[OF r example_addr] have ok: "sections_ok ?s" by (auto simp: life_inv_def)
  have e: "empty_sections ?s = empty_sections example_state" by code_simp
  have c: "claimed ?s 0" using example_claimed unfolding e .
  note d = destroy_busy_job_not_deferred[OF n ok c l, of example_build]
  have "0 \<in># ready_bag ?s" by code_simp
  then have "0 \<in># ready_bag (snd (schedi_job_destroy example_build ?s 0))" using d by argo
  with d n show ?thesis unfolding Let_def by blast
qed

text \<open>
  A stale epoll request changes nothing. When the owner's slot has moved on to
  another generation and access is granted, the return is refused with -1 and the
  state is what it was, the access that was taken included.
\<close>

lemma stale_request_ignored:
  assumes "settled (meta s (req_owner req))" "SCHEDI_JOB_METAFLAG_GETACCESS (meta s (req_owner req)) \<noteq> 15"
    and "gen (jobs s (req_owner req)) \<noteq> req_job_gen req"
  shows "schedi_job_epoll_request_return b s req err = Some (-1, s)"
proof -
  let ?j = "req_owner req"
  let ?m = "meta s ?j"
  let ?a = "SCHEDI_JOB_METAFLAG_SETACCESS ?m (SCHEDI_JOB_METAFLAG_GETACCESS ?m + 1)"
  have lt: "SCHEDI_JOB_METAFLAG_GETACCESS ?m + 1 < 16" using access_plus_less[OF assms(2)] .
  have "SCHEDI_JOB_METAFLAG_SETACCESS ?a (SCHEDI_JOB_METAFLAG_GETACCESS ?a - 1) = ?m"
    using set_access_back[OF lt, of ?m] lt by simp
  moreover have "\<not> bit ?a 1" using assms(1) by (simp add: bit_set_access settled_iff)
  ultimately show ?thesis
    using assms(3) request_access_ends(2)[OF assms(1,2)]
    by (simp add: schedi_job_epoll_request_return_def unmark_access_eq Let_def)
qed

text \<open>
  C33: The return of a request ends exactly when its owner is UNSTABLE or can be
  accessed. While the owner is marked WLLDESTROY and not UNSTABLE, or has 15
  accesses, the call spins without changing anything.
\<close>

theorem request_return_ends_iff:
  "schedi_job_epoll_request_return b s req err = None \<longleftrightarrow>
     meta s (req_owner req) AND SCHEDI_JOB_METAFLAG_UNSTABLE = 0
     \<and> (meta s (req_owner req) AND SCHEDI_JOB_METAFLAG_WLLDESTROY \<noteq> 0
        \<or> SCHEDI_JOB_METAFLAG_GETACCESS (meta s (req_owner req)) = 15)"
proof -
  have "schedi_job_epoll_request_return b s req err = None \<longleftrightarrow> request_access_loop s (req_owner req) = None"
    by (auto simp: schedi_job_epoll_request_return_def Let_def split: option.split)
  also have "\<dots> \<longleftrightarrow> \<not> bit (meta s (req_owner req)) 1 \<and> (bit (meta s (req_owner req)) 3
      \<or> SCHEDI_JOB_METAFLAG_GETACCESS (meta s (req_owner req)) = 15)"
    using request_access_spins[of s "req_owner req"] request_access_ends[of s "req_owner req"]
    by (cases "bit (meta s (req_owner req)) 1"; cases "bit (meta s (req_owner req)) 3";
        cases "SCHEDI_JOB_METAFLAG_GETACCESS (meta s (req_owner req)) = 15") (simp_all add: settled_iff)
  finally show ?thesis by (simp add: flag_clear_iff)
qed

theorem request_return_ends_iff_witness:
  "schedi_job_epoll_request_return example_build (snd (schedi_job_mark_wlldestroy example_state 0))
     \<lparr>req_socketfd = 4, req_owner = 0, req_job_gen = 0, req_list = 0\<rparr> False = None"
proof -
  let ?s = "snd (schedi_job_mark_wlldestroy example_state 0)"
  have "meta ?s 0 AND SCHEDI_JOB_METAFLAG_UNSTABLE = 0" "meta ?s 0 AND SCHEDI_JOB_METAFLAG_WLLDESTROY \<noteq> 0"
    by code_simp+
  then show ?thesis by (subst request_return_ends_iff) simp
qed

text \<open>
  Creating a job succeeds whenever a slot is free and fails without any
  change otherwise. The new job sits in a slot that was free and is not any
  more, keeps the slot's generation, is neither READY nor READYBASIC, has its
  other readiness bits in agreement with its zero counts, and disturbs no other
  job.
\<close>

lemma create_takes_free_slot:
  assumes "sections_ok s"
  shows "case schedi_job_create s c r d of
      (None, s') \<Rightarrow> free_slots s = {} \<and> s' = s
    | (Some j, s') \<Rightarrow> j \<in> free_slots s \<and> free_slots s' = free_slots s - {j}
        \<and> gen (jobs s' j) = gen (jobs s j) \<and> derived_ok 0 0 (meta s' j)
        \<and> meta s' j AND (SCHEDI_JOB_METAFLAG_READY OR SCHEDI_JOB_METAFLAG_READYBASIC) = 0
        \<and> idle (meta s' j) \<and> (\<forall>i. i \<noteq> j \<longrightarrow> jobs s' i = jobs s i)"
proof (cases "schedi_job_create s c r d")
  case (Pair o' s')
  have w: "derived_ok 0 0 new_word" "idle new_word"
    "new_word AND (SCHEDI_JOB_METAFLAG_READY OR SCHEDI_JOB_METAFLAG_READYBASIC) = 0" by code_simp+
  show ?thesis
  proof (cases o')
    case None
    with Pair create_none[OF assms, of c r d] show ?thesis by simp
  next
    case (Some j)
    with Pair create_some[OF assms, of c r d j s'] w show ?thesis by simp
  qed
qed

end
