(* ===== verification/Worker.thy ===== *)
theory Worker
  imports Lifecycle
begin

text \<open>
  The workers of \<^verbatim>\<open>src/src/worker.c\<close>. One pass of the loop of \<^verbatim>\<open>worker_routine\<close> is a
  function of the state of the job system; the job function is client code, so
  it is the argument \<open>run\<close>. Starting and joining threads are the results of
  \<^verbatim>\<open>pthread_create\<close> and \<^verbatim>\<open>pthread_join\<close>, given as arguments.
\<close>

section \<open>One pass of the loop\<close>

text \<open>Giving the finished job to the job that waits for it.\<close>

definition worker_notify :: "build \<Rightarrow> 'a jobsys_scheme \<Rightarrow> nat \<Rightarrow> 'a jobsys_scheme" where
  "worker_notify b s job =
     (case requested_job (jobs s job) of
        None \<Rightarrow> s
      | Some rjob \<Rightarrow>
          let (a, s1) = schedi_job_mark_access s rjob
          in if a = 0
             then let s2 = (if gen (jobs s1 rjob) = requested_job_gen (jobs s1 job)
                            then snd (schedi_job_add_available_job b s1 rjob) else s1)
                  in snd (schedi_job_unmark_access s2 rjob)
             else s1)"

text \<open>From \<^verbatim>\<open>_got_a_job\<close> to \<^verbatim>\<open>_continue\<close>.\<close>

definition worker_got_a_job ::
  "build \<Rightarrow> ('a jobsys_scheme \<Rightarrow> nat \<Rightarrow> int \<times> 'a jobsys_scheme) \<Rightarrow> 'a jobsys_scheme \<Rightarrow> nat
    \<Rightarrow> 'a jobsys_scheme" where
  "worker_got_a_job b run s job =
     (let s1 = upd_job job (\<lambda>x. x\<lparr>state := schedi_job_state_working\<rparr>) s;
          (m, s2) = schedi_job_mark_executing s1 job
      in if m \<noteq> 0 then s2
         else
           let s3 = snd (schedi_job_unmark_access s2 job);
               (ret, s4) = run s3 job;
               s5 = upd_job job (\<lambda>x. x\<lparr>state := schedi_job_state_suspended\<rparr>) s4;
               s6 = snd (schedi_job_unmark_executing s5 job)
           in if ret < 0
              then let s7 = schedi_job_completion_indicate s6 job;
                       s8 = worker_notify b s7 job
                   in snd (schedi_job_destroy b s8 job)
              else if ret = 1 then snd (schedi_job_mark_readybasic b s6 job)
              else s6)"

definition worker_continue :: "build \<Rightarrow> 'a jobsys_scheme \<Rightarrow> 'a jobsys_scheme" where
  "worker_continue b s =
     schedi_ready_jobs_cache_reorganize_tick b (schedi_job_destroy_queue_check b s)"

text \<open>
  How a pass ends: back to the head of the loop, back there after having slept
  in \<^verbatim>\<open>schedi_waitforjob\<close>, or out of the loop. \<open>shutdown\<close> is \<^verbatim>\<open>ctx->shutdown\<close> as read
  under the mutex.
\<close>

datatype worker_end = WorkerNext | WorkerSlept | WorkerBreak

definition worker_pass ::
  "build \<Rightarrow> ('a jobsys_scheme \<Rightarrow> nat \<Rightarrow> int \<times> 'a jobsys_scheme) \<Rightarrow> bool \<Rightarrow> 'a jobsys_scheme
    \<Rightarrow> worker_end \<times> 'a jobsys_scheme" where
  "worker_pass b run shutdown s =
     (case schedi_job_pickready s of
        (Some job, s1) \<Rightarrow> (WorkerNext, worker_continue b (worker_got_a_job b run s1 job))
      | (None, s1) \<Rightarrow>
          if lockless_readyjob b then (WorkerNext, worker_continue b s1)
          else
            (case schedi_job_pickready s1 of
               (Some job, s2) \<Rightarrow> (WorkerNext, worker_continue b (worker_got_a_job b run s2 job))
             | (None, s2) \<Rightarrow>
                 if shutdown then (WorkerBreak, s2) else (WorkerSlept, worker_continue b s2)))"

section \<open>Starting and stopping workers\<close>

definition SCHEDI_MAX_WORKERS :: nat where
  "SCHEDI_MAX_WORKERS = 512"

record worker_ctx =
  worker_id :: nat
  shutdown :: bool
  alive :: bool

record worker_table =
  workers :: "worker_ctx list"
  worker_count :: nat

text \<open>The loop of \<^verbatim>\<open>schedi_worker_init\<close> from index \<open>i\<close>; \<open>create i\<close> is what \<^verbatim>\<open>pthread_create\<close> returns.\<close>

function worker_init_loop :: "(nat \<Rightarrow> int) \<Rightarrow> int \<Rightarrow> nat \<Rightarrow> worker_table \<Rightarrow> int \<times> worker_table" where
  "worker_init_loop create n i t =
     (if int i < n \<and> i < SCHEDI_MAX_WORKERS
      then let t1 = t\<lparr>workers := (workers t)[i := \<lparr>worker_id = i, shutdown = False, alive = True\<rparr>]\<rparr>;
               err = create i
           in if err \<noteq> 0
              then (err, t1\<lparr>workers := (workers t1)[i := (workers t1 ! i)\<lparr>alive := False\<rparr>]\<rparr>)
              else worker_init_loop create n (Suc i) (t1\<lparr>worker_count := worker_count t1 + 1\<rparr>)
      else (0, t))"
  by pat_completeness auto
termination by (relation "measure (\<lambda>(create, n, i, t). SCHEDI_MAX_WORKERS - i)") auto

declare worker_init_loop.simps [simp del]

definition schedi_worker_init :: "(nat \<Rightarrow> int) \<Rightarrow> int \<Rightarrow> worker_table \<Rightarrow> int \<times> worker_table" where
  "schedi_worker_init create n t = worker_init_loop create n 0 t"

definition SCHEDI_DEFAULT_WORKER_COUNT :: int where
  "SCHEDI_DEFAULT_WORKER_COUNT = 4"

definition schedi_worker_initd :: "(nat \<Rightarrow> int) \<Rightarrow> worker_table \<Rightarrow> int \<times> worker_table" where
  "schedi_worker_initd create t = schedi_worker_init create SCHEDI_DEFAULT_WORKER_COUNT t"

definition mark_shutdown :: "nat \<Rightarrow> worker_ctx list \<Rightarrow> worker_ctx list" where
  "mark_shutdown n ws = map (\<lambda>w. w\<lparr>shutdown := True\<rparr>) (take n ws) @ drop n ws"

text \<open>
  \<open>locks\<close> are the results of the lock, broadcast and unlock calls, in order, and
  \<open>join i\<close> what \<^verbatim>\<open>pthread_join\<close> returns: the last failing one counts.
\<close>

fun join_all :: "(nat \<Rightarrow> int) \<Rightarrow> nat \<Rightarrow> nat \<Rightarrow> int \<Rightarrow> int" where
  "join_all join i 0 ret = ret"
| "join_all join i (Suc k) ret = join_all join (Suc i) k (if join i \<noteq> 0 then join i else ret)"

definition schedi_worker_deinit ::
  "build \<Rightarrow> int \<times> int \<times> int \<Rightarrow> (nat \<Rightarrow> int) \<Rightarrow> worker_table \<Rightarrow> int \<times> worker_table" where
  "schedi_worker_deinit b locks join t =
     (let (l, br, u) = locks;
          ret = (if lockless_readyjob b then 0 else u);
          t1 = t\<lparr>workers := mark_shutdown (worker_count t) (workers t)\<rparr>
      in (join_all join 0 (worker_count t) ret, t1\<lparr>worker_count := 0\<rparr>))"

section \<open>A pass keeps the system consistent\<close>

text \<open>
  What the worker relies on when a job function returns: the state is one that
  calls can reach, the job still has its slot, and a job that finishes is idle
  apart from being executed and waits for no request of its own.
\<close>

definition job_returned :: "build \<Rightarrow> nat \<Rightarrow> int \<Rightarrow> 'a jobsys_scheme \<Rightarrow> bool" where
  "job_returned b j ret t \<longleftrightarrow> job_reach b t \<and> claimed t j
     \<and> (ret < 0 \<longrightarrow> idle (meta t j AND NOT SCHEDI_JOB_METAFLAG_EXECUTING)
          \<and> (case requested_job (jobs t j) of
               None \<Rightarrow> True
             | Some i \<Rightarrow> i \<noteq> j \<and> i < SCHEDI_MAXIMUM_JOBS
                 \<and> (gen (jobs t i) = requested_job_gen (jobs t j) \<longrightarrow> i \<notin> free_slots t)))"

lemmas reach_steps = job_reach.step[OF _ job_step.set_state] job_reach.step[OF _ job_step.mark_executing]
  job_reach.step[OF _ job_step.unmark_executing] job_reach.step[OF _ job_step.unmark_access]
  job_reach.step[OF _ job_step.mark_access] job_reach.step[OF _ job_step.complete]
  job_reach.step[OF _ job_step.queue_check] job_reach.step[OF _ job_step.tick]

text \<open>The job after the run, before it is handed on.\<close>

definition suspended :: "nat \<Rightarrow> 'a jobsys_scheme \<Rightarrow> 'a jobsys_scheme" where
  "suspended j t = snd (schedi_job_unmark_executing
     (upd_job j (\<lambda>x. x\<lparr>state := schedi_job_state_suspended\<rparr>) t) j)"

lemma suspended_reach: "job_reach b t \<Longrightarrow> job_reach b (suspended j t)"
  unfolding suspended_def by (intro reach_steps)

lemma suspended_eq:
  assumes "\<not> bit (meta t j) 1"
  shows "suspended j t = set_meta j (meta t j AND NOT SCHEDI_JOB_METAFLAG_EXECUTING)
    (upd_job j (\<lambda>x. x\<lparr>state := schedi_job_state_suspended\<rparr>) t)"
  using assms by (simp add: suspended_def mark_defs unmark_or_snd meta_ban_zero_iff flag_clear_iff)

lemma mark_access_keeps [simp]:
  "gen (jobs (snd (schedi_job_mark_access s i)) k) = gen (jobs s k)"
  "requested_job_gen (jobs (snd (schedi_job_mark_access s i)) k) = requested_job_gen (jobs s k)"
  "empty_sections (snd (schedi_job_mark_access s i)) = empty_sections s"
  by (auto simp: mark_access_eq Let_def)

lemma notify_reach:
  assumes "job_reach b s" "case requested_job (jobs s j) of None \<Rightarrow> True
      | Some i \<Rightarrow> i < SCHEDI_MAXIMUM_JOBS \<and> (gen (jobs s i) = requested_job_gen (jobs s j) \<longrightarrow> i \<notin> free_slots s)"
  shows "job_reach b (worker_notify b s j)"
proof (cases "requested_job (jobs s j)")
  case (Some i)
  define s1 where "s1 = snd (schedi_job_mark_access s i)"
  have r1: "job_reach b s1" unfolding s1_def using assms(1) by (rule reach_steps)
  moreover have "gen (jobs s1 i) = requested_job_gen (jobs s1 j) \<Longrightarrow>
      job_reach b (snd (schedi_job_add_available_job b s1 i))"
    using assms(2) Some r1 by (intro job_reach.step[OF r1 job_step.add_available_job]) (simp add: s1_def)
  ultimately have "job_reach b (if gen (jobs s1 i) = requested_job_gen (jobs s1 j)
      then snd (schedi_job_add_available_job b s1 i) else s1)" by simp
  then show ?thesis using Some r1
    by (simp add: worker_notify_def Let_def reach_steps(4) case_prod_beta flip: s1_def)
qed (use assms in \<open>simp add: worker_notify_def\<close>)

text \<open>Notifying another job leaves this one alone.\<close>

lemma notify_frame:
  assumes "case requested_job (jobs s j) of None \<Rightarrow> True | Some i \<Rightarrow> i \<noteq> j"
  shows "jobs (worker_notify b s j) j = jobs s j"
    and "empty_sections (worker_notify b s j) = empty_sections s"
    and "dtor_calls (worker_notify b s j) = dtor_calls s"
    and "completed (worker_notify b s j) = completed s"
  using assms
  by (auto simp: worker_notify_def Let_def case_prod_beta schedi_job_add_available_job_def
      cas_update_frame mark_access_eq unmark_access_eq split: option.split)

section \<open>One pass of the loop\<close>

lemma picked_claimed:
  assumes "life_inv s xs" "schedi_job_pickready s = (Some j, s1)"
  shows "claimed s1 j"
proof -
  note p = pickready_spec[OF life_inv_sched(1)[OF assms(1)] assms(2), unfolded pick_spec_def, simplified]
  then have "slot_ok (meta s j) (count (ready_bag s) j)"
    using assms(1) by (simp add: life_inv_def sched_inv_def)
  from slot_ok_facts(2)[OF this] p have "bit (meta s j) 5" by simp
  with assms(1) p show ?thesis by (auto simp: life_inv_bits)
qed

lemma pick_reach: "job_reach b s \<Longrightarrow> schedi_job_pickready s = (r, s1) \<Longrightarrow> job_reach b s1"
  using job_reach.step[OF _ job_step.pick, of b s] by simp

text \<open>The state in which the job function is called.\<close>

definition run_state :: "'a jobsys_scheme \<Rightarrow> nat \<Rightarrow> 'a jobsys_scheme" where
  "run_state s j = snd (schedi_job_unmark_access (snd (schedi_job_mark_executing
     (upd_job j (\<lambda>x. x\<lparr>state := schedi_job_state_working\<rparr>) s) j)) j)"

definition finish_job :: "build \<Rightarrow> nat \<Rightarrow> 'a jobsys_scheme \<Rightarrow> 'a jobsys_scheme" where
  "finish_job b j t = snd (schedi_job_destroy b
     (worker_notify b (schedi_job_completion_indicate (suspended j t) j) j) j)"

lemma got_a_job_eq:
  "worker_got_a_job b run s j =
    (if meta s j AND (SCHEDI_JOB_METAFLAG_UNSTABLE OR SCHEDI_JOB_METAFLAG_EXECUTING) \<noteq> 0
     then upd_job j (\<lambda>x. x\<lparr>state := schedi_job_state_working\<rparr>) s
     else case run (run_state s j) j of (ret, t) \<Rightarrow>
       if ret < 0 then finish_job b j t
       else if ret = 1 then snd (schedi_job_mark_readybasic b (suspended j t) j)
       else suspended j t)"
  by (simp add: worker_got_a_job_def run_state_def finish_job_def suspended_def Let_def case_prod_beta
      schedi_job_mark_executing_def mark_or_eq meta_ban_def)

lemma indicate_frame [simp]:
  "jobs (schedi_job_completion_indicate s j) = jobs s"
  "empty_sections (schedi_job_completion_indicate s j) = empty_sections s"
  "dtor_calls (schedi_job_completion_indicate s j) = dtor_calls s"
  by (simp_all add: schedi_job_completion_indicate_def split: option.split)

lemma suspended_frame:
  assumes "\<not> bit (meta t j) 1"
  shows "jobs (suspended j t) = (jobs t)(j := (jobs t j)\<lparr>state := schedi_job_state_suspended,
      meta_flag := meta t j AND NOT SCHEDI_JOB_METAFLAG_EXECUTING\<rparr>)"
    and "empty_sections (suspended j t) = empty_sections t" "dtor_calls (suspended j t) = dtor_calls t"
    and "completed (suspended j t) = completed t"
  using assms by (simp_all add: suspended_eq)

text \<open>The state in which a finished job is destroyed.\<close>

lemma finish_ready:
  assumes "job_returned b j ret t" "ret < 0"
  defines "s \<equiv> worker_notify b (schedi_job_completion_indicate (suspended j t) j) j"
  shows "job_reach b s" "claimed s j" "idle (meta s j)"
    and "gen (jobs s j) = gen (jobs t j)" "dtor_call (jobs s j) = dtor_call (jobs t j)"
    and "dtor_calls s = dtor_calls t"
    and "case completion_indicator (jobs t j) of None \<Rightarrow> completed s = completed t
      | Some i \<Rightarrow> completed s = (completed t)(i := True)"
proof -
  let ?c = "schedi_job_completion_indicate (suspended j t) j"
  have i: "idle (meta t j AND NOT SCHEDI_JOB_METAFLAG_EXECUTING)" and r: "job_reach b t" "claimed t j"
    using assms(1,2) by (simp_all add: job_returned_def)
  then have n: "\<not> bit (meta t j) 1" by (simp add: idle_bits bit_and_iff bit_not_iff bit_flags)
  note f = suspended_frame[OF n]
  have rc: "job_reach b ?c" by (rule reach_steps(6)[OF suspended_reach[OF r(1)]])
  have req: "requested_job (jobs ?c j) = requested_job (jobs t j)"
    "requested_job_gen (jobs ?c j) = requested_job_gen (jobs t j)" "gen (jobs ?c k) = gen (jobs t k)" for k
    using f(1) by simp_all
  have other: "case requested_job (jobs ?c j) of None \<Rightarrow> True | Some i \<Rightarrow> i \<noteq> j"
    using assms(1,2) req by (auto simp: job_returned_def split: option.splits)
  note nf = notify_frame[OF other, of b, folded s_def]
  show "job_reach b s" unfolding s_def
    using assms(1,2) req f(2) by (intro notify_reach[OF rc]) (auto simp: job_returned_def split: option.splits)
  show "claimed s j" using nf(2) f(2) r(2) by simp
  show "idle (meta s j)" using nf(1) f(1) i by simp
  show "gen (jobs s j) = gen (jobs t j)" "dtor_call (jobs s j) = dtor_call (jobs t j)"
    "dtor_calls s = dtor_calls t"
    using nf f by (simp_all add: dtor_call_def split: option.split)
  show "case completion_indicator (jobs t j) of None \<Rightarrow> completed s = completed t
      | Some i \<Rightarrow> completed s = (completed t)(i := True)"
    using nf(4) f by (simp add: schedi_job_completion_indicate_def split: option.split)
qed

lemma continue_reach: "job_reach b s \<Longrightarrow> job_reach b (worker_continue b s)"
  unfolding worker_continue_def by (intro reach_steps)

lemma got_a_job_reach:
  assumes "job_reach b s" "claimed s j"
    and "\<And>ret t. run (run_state s j) j = (ret, t) \<Longrightarrow> job_returned b j ret t"
  shows "job_reach b (worker_got_a_job b run s j)"
proof -
  obtain ret t where run: "run (run_state s j) j = (ret, t)" by force
  note jr = assms(3)[OF run]
  then have t: "job_reach b t" "claimed t j" by (simp_all add: job_returned_def)
  have "job_reach b (finish_job b j t)" if "ret < 0"
    unfolding finish_job_def
    using job_reach.step[OF finish_ready(1)[OF jr that] job_step.destroy] finish_ready(2,3)[OF jr that] by blast
  moreover have "job_reach b (snd (schedi_job_mark_readybasic b (suspended j t) j))"
  proof (rule job_reach.step[OF suspended_reach[OF t(1)] job_step.mark_readybasic])
    show "claimed (suspended j t) j" using t(2) by (simp add: suspended_def mark_defs unmark_or_snd)
  qed
  ultimately show ?thesis
    using suspended_reach[OF t(1)] reach_steps(1)[OF assms(1)] run by (simp add: got_a_job_eq)
qed

lemma run_state_reach:
  assumes "job_reach b s" "claimed s j"
  shows "job_reach b (run_state s j)" "claimed (run_state s j) j"
proof -
  show "job_reach b (run_state s j)" unfolding run_state_def using assms(1) by (intro reach_steps)
  show "claimed (run_state s j) j" using assms(2)
    by (simp add: run_state_def mark_defs mark_or_eq unmark_access_eq Let_def)
qed

section \<open>Properties\<close>



text \<open>
  C29: A job that finishes is gone after the pass. When a worker picks a job that
  nobody executes and its function returns a negative value, the same pass marks
  its completion indicator, runs its destructor once as the last of the queued
  ones, clears its word, and moves its slot to the next generation.
\<close>

theorem finished_job_torn_down:
  assumes "job_reach b s" "addr_ok (job_addr b)" "schedi_job_pickready s = (Some j, s1)"
    and "meta s1 j AND SCHEDI_JOB_METAFLAG_EXECUTING = 0"
    and "run (run_state s1 j) j = (ret, t)" "ret < 0" "job_returned b j ret t"
  shows "let s' = snd (worker_pass b run sd s)
    in meta s' j = 0 \<and> gen (jobs s' j) = gen (jobs t j) + 1
       \<and> state (jobs s' j) = schedi_job_state_nulljob
       \<and> (\<exists>earlier. dtor_calls s' = dtor_calls t @ earlier @ dtor_call (jobs t j))
       \<and> (case completion_indicator (jobs t j) of None \<Rightarrow> True | Some i \<Rightarrow> completed s' i)"
proof -
  let ?u = "worker_notify b (schedi_job_completion_indicate (suspended j t) j) j"
  note fr = finish_ready[OF assms(7,6)]
  from job_reach_life_inv[OF fr(1) assms(2)] obtain xs where inv: "life_inv ?u xs" by blast
  let ?c = "schedi_job_destroy_queue_check b (snd (schedi_job_destroy b ?u j))"
  note d = destroy_then_check[OF assms(2) inv _ _ fr(3)]
  have "settled (meta s j)" "meta s1 j = picked_word (meta s j)"
    using pickready_spec[OF _ assms(3)] job_reach_life_inv[OF assms(1,2)]
    by (auto simp: pick_spec_def life_inv_def)
  then have "\<not> bit (meta s1 j) 1" by (simp add: picked_word_bits settled_iff)
  with assms(4) have "worker_got_a_job b run s1 j = finish_job b j t"
    using assms(5,6) by (simp add: got_a_job_eq ban_iffs)
  then have s': "snd (worker_pass b run sd s) = schedi_ready_jobs_cache_reorganize_tick b ?c"
    using assms(3) by (simp add: worker_pass_def finish_job_def worker_continue_def)
  have ok: "cache_ok ?c"
    using destroy_queue_check_drains(1)[OF assms(2) destroy_life_inv(2)[OF assms(2) inv _ _ fr(3)] refl] fr(2)
    by (simp add: life_inv_sched)
  note tk = tick_cached(3)[OF ok, of b, unfolded same_rest_def]
  have comp: "completed ?c = completed ?u" by (simp add: destroy_completed)
  show ?thesis unfolding s' Let_def using d fr tk comp
    by (auto simp: torn_down_def split: option.splits)
qed

text \<open>The example job, made ready and picked.\<close>

definition example_ready :: jobsys where
  "example_ready = snd (schedi_job_mark_readybasic example_build example_state 0)"

lemma example_ready_reach: "job_reach example_build example_ready"
  unfolding example_ready_def
  by (rule job_reach.step[OF example_reach]) (rule job_step.mark_readybasic[OF example_claimed])

theorem finished_job_torn_down_witness:
  "fst (schedi_job_pickready example_ready) = Some 0
   \<and> gen (jobs (snd (worker_pass example_build (\<lambda>t j. (-1, t)) False example_ready)) 0) =
       gen (jobs (run_state (snd (schedi_job_pickready example_ready)) 0) 0) + 1"
proof -
  let ?s1 = "snd (schedi_job_pickready example_ready)"
  let ?t = "run_state ?s1 0"
  have f: "fst (schedi_job_pickready example_ready) = Some 0" by code_simp
  then have p: "schedi_job_pickready example_ready = (Some 0, ?s1)" by (metis prod.collapse)
  from job_reach_life_inv[OF example_ready_reach example_addr] obtain xs where "life_inv example_ready xs" by blast
  from picked_claimed[OF this p] have c: "claimed ?s1 0" .
  note rs = run_state_reach[OF pick_reach[OF example_ready_reach p] c]
  have "idle (meta ?t 0 AND NOT SCHEDI_JOB_METAFLAG_EXECUTING)" "requested_job (jobs ?t 0) = None"
    "meta ?s1 0 AND SCHEDI_JOB_METAFLAG_EXECUTING = 0" by code_simp+
  moreover from this rs have "job_returned example_build 0 (-1) ?t" by (simp add: job_returned_def)
  ultimately show ?thesis
    using finished_job_torn_down[OF example_ready_reach example_addr p, of "\<lambda>t j. (-1, t)" "-1" ?t False] f
    by (simp add: Let_def)
qed

text \<open>
  Starting workers: \<^verbatim>\<open>schedi_worker_init\<close> starts threads one after the other, at
  most \<^verbatim>\<open>SCHEDI_MAX_WORKERS\<close>, and stops at the first one that cannot be created;
  it returns that error, or 0 when all were started, and the count grows by the
  number of started threads.
\<close>

lemma worker_init_counts_started:
  assumes "m \<le> SCHEDI_MAX_WORKERS" "int m \<le> n" "\<forall>i < m. create i = 0"
    and "m < SCHEDI_MAX_WORKERS \<longrightarrow> int m < n \<longrightarrow> create m \<noteq> 0"
  shows "fst (schedi_worker_init create n t) =
      (if m < SCHEDI_MAX_WORKERS \<and> int m < n then create m else 0)
    \<and> worker_count (snd (schedi_worker_init create n t)) = worker_count t + m"
proof -
  have "fst (worker_init_loop create n i t) = (if m < SCHEDI_MAX_WORKERS \<and> int m < n then create m else 0)
      \<and> worker_count (snd (worker_init_loop create n i t)) = worker_count t + (m - i)"
    if "i \<le> m" for i t
    using that
  proof (induction "m - i" arbitrary: i t)
    case 0
    then show ?case using assms by (subst worker_init_loop.simps, subst (2) worker_init_loop.simps)
        (auto simp: Let_def)
  next
    case (Suc k)
    then have "i < m" by simp
    with assms have "int i < n" "i < SCHEDI_MAX_WORKERS" "create i = 0" by simp_all
    with Suc.hyps(1)[of "Suc i"] Suc.hyps(2) \<open>i < m\<close> show ?case
      by (subst worker_init_loop.simps, subst (2) worker_init_loop.simps) (simp add: Let_def)
  qed
  from this[of 0 t] show ?thesis by (simp add: schedi_worker_init_def)
qed

end
