(* ===== verification/Byte_Ring.thy ===== *)
theory Byte_Ring
  imports Schedi_Prelude
begin

text \<open>
  Byte rings as the epoll sockets use them: a buffer that is copied into and out
  of in one piece or, around the end, in two. \<open>ring_slice\<close> is what a ring holds;
  the lemmas say what the copies of \<^verbatim>\<open>src/src/jobs.c\<close> do to it.
\<close>

section \<open>Contents of a ring\<close>

definition memcpy_at :: "u8 list \<Rightarrow> nat \<Rightarrow> u8 list \<Rightarrow> u8 list" where
  "memcpy_at buf pos data = take pos buf @ data @ drop (pos + length data) buf"

definition ring_slice :: "u8 list \<Rightarrow> nat \<Rightarrow> nat \<Rightarrow> u8 list" where
  "ring_slice buf t n = map (\<lambda>k. buf ! ((t + k) mod length buf)) [0..<n]"

lemma length_ring_slice [simp]: "length (ring_slice buf t n) = n"
  by (simp add: ring_slice_def)

lemma ring_slice_0 [simp]: "ring_slice buf t 0 = []"
  by (simp add: ring_slice_def)

lemma nth_ring_slice [simp]: "k < n \<Longrightarrow> ring_slice buf t n ! k = buf ! ((t + k) mod length buf)"
  by (simp add: ring_slice_def)

lemma ring_slice_append:
  "ring_slice buf t (m + n) = ring_slice buf t m @ ring_slice buf ((t + m) mod length buf) n"
proof (rule nth_equalityI)
  fix i assume i: "i < length (ring_slice buf t (m + n))"
  show "ring_slice buf t (m + n) ! i = (ring_slice buf t m @ ring_slice buf ((t + m) mod length buf) n) ! i"
  proof (cases "i < m")
    case False
    then have "((t + m) mod length buf + (i - m)) mod length buf = (t + i) mod length buf"
      by (intro ring_advance) simp
    with False i show ?thesis by (simp add: nth_append)
  qed (use i in \<open>simp add: nth_append\<close>)
qed simp

lemma ring_slice_take: "m \<le> n \<Longrightarrow> take m (ring_slice buf t n) = ring_slice buf t m"
  by (rule nth_equalityI) simp_all

lemma ring_slice_drop:
  "m \<le> n \<Longrightarrow> drop m (ring_slice buf t n) = ring_slice buf ((t + m) mod length buf) (n - m)"
  using ring_slice_append[of buf t m "n - m"] by simp

text \<open>Copying out, in one piece and in two.\<close>

lemma slice_one_piece:
  assumes "t + n \<le> length buf"
  shows "take n (drop t buf) = ring_slice buf t n"
  using assms by (intro nth_equalityI) simp_all

lemma slice_two_pieces:
  assumes "t < length buf" "length buf \<le> t + n" "n \<le> length buf"
  shows "take (length buf - t) (drop t buf) @ take (n - (length buf - t)) buf = ring_slice buf t n"
proof (rule nth_equalityI)
  let ?N = "length buf"
  show "length (take (?N - t) (drop t buf) @ take (n - (?N - t)) buf) = length (ring_slice buf t n)"
    using assms by simp
  fix i assume "i < length (take (?N - t) (drop t buf) @ take (n - (?N - t)) buf)"
  then have i: "i < n" using assms by simp
  show "(take (?N - t) (drop t buf) @ take (n - (?N - t)) buf) ! i = ring_slice buf t n ! i"
  proof (cases "i < ?N - t")
    case False
    then have "(t + i) mod ?N = i - (?N - t)"
      using assms i by (auto simp: mod_if)
    with False i assms show ?thesis by (simp add: nth_append)
  qed (use i assms in \<open>simp add: nth_append\<close>)
qed

section \<open>Copying in\<close>

definition ring_put :: "u8 list \<Rightarrow> nat \<Rightarrow> u8 list \<Rightarrow> u8 list \<Rightarrow> bool" where
  "ring_put buf h data buf' \<longleftrightarrow> length buf' = length buf
     \<and> (\<forall>i < length data. buf' ! ((h + i) mod length buf) = data ! i)
     \<and> (\<forall>p < length buf. (\<forall>i < length data. p \<noteq> (h + i) mod length buf) \<longrightarrow> buf' ! p = buf ! p)"

lemma ring_put_slice:
  assumes "ring_put buf ((t + m) mod length buf) data buf'" "m + length data \<le> length buf"
  shows "ring_slice buf' t (m + length data) = ring_slice buf t m @ data"
proof (rule nth_equalityI)
  let ?N = "length buf"
  have len: "length buf' = ?N" using assms(1) by (simp add: ring_put_def)
  show "length (ring_slice buf' t (m + length data)) = length (ring_slice buf t m @ data)" by simp
  fix i assume "i < length (ring_slice buf' t (m + length data))"
  then have i: "i < m + length data" by simp
  show "ring_slice buf' t (m + length data) ! i = (ring_slice buf t m @ data) ! i"
  proof (cases "i < m")
    case True
    have "(t + i) mod ?N \<noteq> ((t + m) mod ?N + k) mod ?N" if "k < length data" for k
    proof -
      have "((t + m) mod ?N + k) mod ?N = (t + (m + k)) mod ?N" by (simp add: mod_add_left_eq add.assoc)
      then show ?thesis using True that assms(2) ring_index_eq_iff[of i ?N "m + k" t] by simp
    qed
    moreover have "(t + i) mod ?N < ?N" using True assms(2) by (intro mod_less_divisor) linarith
    ultimately have "buf' ! ((t + i) mod ?N) = buf ! ((t + i) mod ?N)"
      using assms(1) by (simp add: ring_put_def)
    with True i len show ?thesis by (simp add: nth_append)
  next
    case False
    then have "i - m < length data" using i by simp
    then have "buf' ! (((t + m) mod ?N + (i - m)) mod ?N) = data ! (i - m)"
      using assms(1) unfolding ring_put_def by blast
    moreover have "((t + m) mod ?N + (i - m)) mod ?N = (t + i) mod ?N"
      using False by (intro ring_advance) simp
    ultimately show ?thesis using False i len by (simp add: nth_append)
  qed
qed

lemma nth_memcpy_at:
  assumes "pos + length data \<le> length buf" "p < length buf"
  shows "memcpy_at buf pos data ! p = (if pos \<le> p \<and> p < pos + length data then data ! (p - pos) else buf ! p)"
  using assms by (auto simp: memcpy_at_def nth_append min_def)

lemma length_memcpy_at [simp]: "pos + length data \<le> length buf \<Longrightarrow> length (memcpy_at buf pos data) = length buf"
  by (simp add: memcpy_at_def)

lemma put_one_piece:
  assumes "h + length data \<le> length buf" "h < length buf"
  shows "ring_put buf h data (memcpy_at buf h data)"
  using assms
  by (auto simp: ring_put_def nth_memcpy_at) (metis le_add_diff_inverse nat_add_left_cancel_less)

lemma put_two_pieces:
  assumes "h < length buf" "length buf \<le> h + length data" "length data \<le> length buf"
  shows "ring_put buf h data (memcpy_at (memcpy_at buf h (take (length buf - h) data)) 0
    (drop (length buf - h) data))"
proof -
  let ?N = "length buf"
  let ?b1 = "memcpy_at buf h (take (?N - h) data)"
  let ?b2 = "memcpy_at ?b1 0 (drop (?N - h) data)"
  have l: "h + length (take (?N - h) data) = ?N" using assms by simp
  have len1: "length ?b1 = ?N" using l by simp
  have r: "0 + length (drop (?N - h) data) \<le> length ?b1" using assms len1 by simp
  have n: "?b2 ! p = (if p < length data - (?N - h) then data ! (?N - h + p)
      else if h \<le> p then data ! (p - h) else buf ! p)" if "p < ?N" for p
    using that assms l len1 nth_memcpy_at[OF r, of p]
      nth_memcpy_at[of h "take (?N - h) data" buf p] by simp
  have wrap: "(h + i) mod ?N = (if i < ?N - h then h + i else i - (?N - h))" if "i < length data" for i
    using that assms by (auto simp: mod_if)
  show ?thesis
    unfolding ring_put_def
  proof (intro conjI allI impI)
    show "length ?b2 = ?N" using r len1 by simp
    fix i assume i: "i < length data"
    then have "(h + i) mod ?N < ?N" using assms by (intro mod_less_divisor) linarith
    from n[OF this] show "?b2 ! ((h + i) mod ?N) = data ! i"
      using wrap[OF i] i assms by (cases "i < ?N - h") auto
  next
    fix p assume p: "p < ?N" "\<forall>i < length data. p \<noteq> (h + i) mod ?N"
    have "\<not> p < length data - (?N - h)"
    proof
      assume a: "p < length data - (?N - h)"
      then have "p = (h + (?N - h + p)) mod ?N" using assms p(1) by simp
      with p(2) a show False by auto
    qed
    moreover have "\<not> h \<le> p"
    proof
      assume "h \<le> p"
      then have "p = (h + (p - h)) mod ?N" "p - h < length data" using p(1) assms by auto
      with p(2) show False by blast
    qed
    ultimately show "?b2 ! p = buf ! p" using n[OF p(1)] by simp
  qed
qed

section \<open>Byte by byte\<close>

text \<open>The rings as one would write them first: one byte at a time, with the position wrapping at the end.\<close>

fun put_bytes :: "u8 list \<Rightarrow> nat \<Rightarrow> u8 list \<Rightarrow> u8 list \<times> nat" where
  "put_bytes buf h [] = (buf, h)"
| "put_bytes buf h (x # xs) = put_bytes (buf[h := x]) ((h + 1) mod length buf) xs"

fun get_bytes :: "u8 list \<Rightarrow> nat \<Rightarrow> nat \<Rightarrow> u8 list \<times> nat" where
  "get_bytes buf t 0 = ([], t)"
| "get_bytes buf t (Suc n) = (let (xs, t') = get_bytes buf ((t + 1) mod length buf) n in (buf ! t # xs, t'))"

lemma get_bytes_slice:
  "t < length buf \<Longrightarrow> get_bytes buf t n = (ring_slice buf t n, (t + n) mod length buf)"
proof (induction n arbitrary: t)
  case (Suc n)
  have "(t + 1) mod length buf < length buf" using Suc.prems by (intro mod_less_divisor) linarith
  with Suc ring_slice_append[of buf t 1 n] show ?case
    by (simp add: ring_slice_def Let_def mod_add_left_eq del: upt_Suc) (simp add: mod_Suc_eq)
qed simp

lemma ring_put_unique:
  assumes "ring_put buf h data b1" "ring_put buf h data b2"
  shows "b1 = b2"
proof (rule nth_equalityI)
  show "length b1 = length b2" using assms by (simp add: ring_put_def)
  fix p assume "p < length b1"
  then have p: "p < length buf" using assms(1) by (simp add: ring_put_def)
  show "b1 ! p = b2 ! p"
  proof (cases "\<exists>i < length data. p = (h + i) mod length buf")
    case True
    then show ?thesis using assms unfolding ring_put_def by metis
  next
    case False
    then show ?thesis using assms p unfolding ring_put_def by metis
  qed
qed

lemma put_bytes_ring_put:
  assumes "h < length buf" "length data \<le> length buf"
  shows "ring_put buf h data (fst (put_bytes buf h data)) \<and> snd (put_bytes buf h data) = (h + length data) mod length buf"
  using assms
proof (induction data arbitrary: buf h)
  case Nil
  then show ?case by (simp add: ring_put_def)
next
  case (Cons x xs)
  let ?N = "length buf"
  let ?h = "(h + 1) mod ?N"
  let ?b = "buf[h := x]"
  let ?c = "fst (put_bytes ?b ?h xs)"
  have "?h < ?N" using Cons.prems(1) by (intro mod_less_divisor) linarith
  with Cons.IH[of ?h ?b] Cons.prems
  have c: "length ?c = ?N" "\<And>i. i < length xs \<Longrightarrow> ?c ! ((?h + i) mod ?N) = xs ! i"
    "\<And>p. p < ?N \<Longrightarrow> (\<And>i. i < length xs \<Longrightarrow> p \<noteq> (?h + i) mod ?N) \<Longrightarrow> ?c ! p = ?b ! p"
    and s: "snd (put_bytes ?b ?h xs) = (?h + length xs) mod ?N"
    by (auto simp: ring_put_def)
  have adv: "(?h + i) mod ?N = (h + Suc i) mod ?N" for i by (simp add: mod_add_left_eq)
  have h: "h \<noteq> (?h + i) mod ?N" if "i < length xs" for i
    using ring_index_eq_iff[of 0 ?N "Suc i" h] that Cons.prems unfolding adv by (cases buf) simp_all
  have "?c ! ((h + i) mod ?N) = (x # xs) ! i" if "i < length (x # xs)" for i
  proof (cases i)
    case 0
    with c(3)[of h] h Cons.prems(1) show ?thesis by simp
  next
    case (Suc k)
    with c(2)[of k] that adv show ?thesis by simp
  qed
  moreover have "?c ! p = buf ! p" if p: "p < ?N" "\<forall>i < length (x # xs). p \<noteq> (h + i) mod ?N" for p
  proof -
    have "p \<noteq> h" using p(2) Cons.prems(1) by force
    moreover have "p \<noteq> (?h + i) mod ?N" if "i < length xs" for i
      using p(2)[rule_format, of "Suc i"] that unfolding adv by simp
    ultimately show ?thesis using c(3)[OF p(1)] by simp
  qed
  ultimately show ?case using c(1) s adv by (simp add: ring_put_def)
qed

end
