(* ===== verification/Epoll_Socket.thy ===== *)
theory Epoll_Socket
  imports Job_Core Byte_Ring
begin

text \<open>
  The long-term epoll sockets of \<^verbatim>\<open>src/src/jobs.c\<close>: one packed word with the fill
  counts of both ring buffers and the readiness flags, the read and the write
  ring, and the operations that jobs and the epoll thread call. The kernel's
  answers to \<^verbatim>\<open>send\<close> and \<^verbatim>\<open>recv\<close> are arguments; calls of \<^verbatim>\<open>schedi_epoll_mod\<close> and of
  \<^verbatim>\<open>timerfd_settime\<close> are recorded in the state, and bytes that the kernel took are
  appended to \<open>wire\<close>.
\<close>

section \<open>Data\<close>

definition SCHEDI_JOB_EPOLLSOCKET_BUFFERSIZE :: nat where
  "SCHEDI_JOB_EPOLLSOCKET_BUFFERSIZE = 1024"

definition SCHEDI_JOB_EPOLLSOCKET_AVAIL_SHIFT :: "build \<Rightarrow> nat" where
  "SCHEDI_JOB_EPOLLSOCKET_AVAIL_SHIFT b = (if ext_timeout b then 28 else 29)"
definition SCHEDI_JOB_EPOLLSOCKET_COUNT_MASK :: "build \<Rightarrow> u64" where
  "SCHEDI_JOB_EPOLLSOCKET_COUNT_MASK b = (if ext_timeout b then push_bit 28 1 - 1 else push_bit 29 1 - 1)"
definition SCHEDI_JOB_EPOLLSOCKET_AVAIL_MASK :: "build \<Rightarrow> u64" where
  "SCHEDI_JOB_EPOLLSOCKET_AVAIL_MASK b =
     (if ext_timeout b then push_bit 28 (push_bit 28 1 - 1) else push_bit 29 (push_bit 29 1 - 1))"
definition SCHEDI_JOB_EPOLLSOCKET_TIMEOUT :: u64 where
  [flag_defs]: "SCHEDI_JOB_EPOLLSOCKET_TIMEOUT = push_bit 57 1"
definition SCHEDI_JOB_EPOLLSOCKET_EPOLLDID :: u64 where
  [flag_defs]: "SCHEDI_JOB_EPOLLSOCKET_EPOLLDID = push_bit 58 1"
definition SCHEDI_JOB_EPOLLSOCKET_EPOLLNT :: u64 where
  [flag_defs]: "SCHEDI_JOB_EPOLLSOCKET_EPOLLNT = push_bit 59 1"
definition SCHEDI_JOB_EPOLLSOCKET_READ_READY :: u64 where
  [flag_defs]: "SCHEDI_JOB_EPOLLSOCKET_READ_READY = push_bit 60 1"
definition SCHEDI_JOB_EPOLLSOCKET_WRITE_READY :: u64 where
  [flag_defs]: "SCHEDI_JOB_EPOLLSOCKET_WRITE_READY = push_bit 61 1"
definition SCHEDI_JOB_EPOLLSOCKET_READY :: u64 where
  [flag_defs]: "SCHEDI_JOB_EPOLLSOCKET_READY = push_bit 62 1"
definition SCHEDI_JOB_EPOLLSOCKET_DEAD :: u64 where
  [flag_defs]: "SCHEDI_JOB_EPOLLSOCKET_DEAD = push_bit 63 1"

text \<open>Event bits of \<^verbatim>\<open>sys/epoll.h\<close>.\<close>

definition EPOLLIN :: u32 where "EPOLLIN = 1"
definition EPOLLOUT :: u32 where "EPOLLOUT = 4"
definition EPOLLERR :: u32 where "EPOLLERR = 8"
definition EPOLLHUP :: u32 where "EPOLLHUP = 16"
definition EPOLLONESHOT :: u32 where "EPOLLONESHOT = push_bit 30 1"

record epollsocket =
  sock_job :: nat
  sock_gen :: u64
  sock_fd :: int
  sock_htc :: u64
  read_head :: nat
  read_tail :: nat
  read_buffer :: "u8 list"
  read_count_condition :: u32
  write_head :: nat
  write_tail :: nat
  write_buffer :: "u8 list"
  write_avail_condition :: u32
  fall :: int
  data_ptr :: nat
  timeout_sec :: int
  to_timer_fd :: int

text \<open>A socket, the job system, and what went to the kernel.\<close>

record sock_state =
  sock :: epollsocket
  sys :: jobsys
  epoll_mods :: "u32 list"
  timer_resets :: nat
  wire :: "u8 list"

text \<open>What \<^verbatim>\<open>send\<close> and \<^verbatim>\<open>recv\<close> answer; \<open>Again\<close> is a negative result with \<^verbatim>\<open>EAGAIN\<close> or \<^verbatim>\<open>EWOULDBLOCK\<close>.\<close>

datatype send_result = Sent nat | SendAgain | SendError
datatype recv_result = Got "u8 list" | RecvAgain | RecvError

section \<open>The packed word\<close>

definition schedi_job_epollsocket_count_from :: "build \<Rightarrow> u64 \<Rightarrow> int" where
  "schedi_job_epollsocket_count_from b htc = uint (htc AND SCHEDI_JOB_EPOLLSOCKET_COUNT_MASK b)"

definition schedi_job_epollsocket_avail_from :: "build \<Rightarrow> u64 \<Rightarrow> int" where
  "schedi_job_epollsocket_avail_from b htc =
     uint (drop_bit (SCHEDI_JOB_EPOLLSOCKET_AVAIL_SHIFT b) (htc AND SCHEDI_JOB_EPOLLSOCKET_AVAIL_MASK b))"

abbreviation has_flag :: "u64 \<Rightarrow> u64 \<Rightarrow> bool" where
  "has_flag htc f \<equiv> htc AND f \<noteq> 0"

definition socket_ready :: "bool \<Rightarrow> bool \<Rightarrow> bool \<Rightarrow> bool \<Rightarrow> bool \<Rightarrow> bool" where
  "socket_ready epollnt epolldid read_ready write_ready is_dead =
     ((if \<not> epollnt then read_ready \<and> write_ready \<or> is_dead else False) \<or> epolldid)"

text \<open>
  The bodies of the loops on the word; a swap returns the old and the new word
  for \<^verbatim>\<open>schedi_job_epollsocket_jobready_update\<close>.
\<close>

definition avail_add_body ::
  "build \<Rightarrow> u32 \<Rightarrow> int \<Rightarrow> bool \<Rightarrow> u64 \<Rightarrow> ((u64 \<times> u64) option, u64) cas_step" where
  "avail_add_body b wcond delta dead htc =
     (if ext_timeout b \<and> has_flag htc SCHEDI_JOB_EPOLLSOCKET_TIMEOUT then CasReturn None
      else
        let des_avail = schedi_job_epollsocket_avail_from b htc + delta;
            write_ready = wcond \<le> word_of_int des_avail;
            read_ready = has_flag htc SCHEDI_JOB_EPOLLSOCKET_READ_READY;
            is_dead = dead \<or> has_flag htc SCHEDI_JOB_EPOLLSOCKET_DEAD;
            ready = socket_ready (has_flag htc SCHEDI_JOB_EPOLLSOCKET_EPOLLNT)
              (has_flag htc SCHEDI_JOB_EPOLLSOCKET_EPOLLDID) read_ready write_ready is_dead;
            des = (htc AND NOT (SCHEDI_JOB_EPOLLSOCKET_AVAIL_MASK b
                OR SCHEDI_JOB_EPOLLSOCKET_WRITE_READY OR SCHEDI_JOB_EPOLLSOCKET_READY))
              OR push_bit (SCHEDI_JOB_EPOLLSOCKET_AVAIL_SHIFT b) (word_of_int des_avail)
              OR (if write_ready then SCHEDI_JOB_EPOLLSOCKET_WRITE_READY else 0)
              OR (if ready then SCHEDI_JOB_EPOLLSOCKET_READY else 0)
              OR (if is_dead then SCHEDI_JOB_EPOLLSOCKET_DEAD else 0)
        in CasTry des (Some (htc, des)))"

definition count_add_body ::
  "build \<Rightarrow> u32 \<Rightarrow> int \<Rightarrow> bool \<Rightarrow> u64 \<Rightarrow> ((u64 \<times> u64) option, u64) cas_step" where
  "count_add_body b rcond delta dead htc =
     (if ext_timeout b \<and> has_flag htc SCHEDI_JOB_EPOLLSOCKET_TIMEOUT then CasReturn None
      else
        let des_count = schedi_job_epollsocket_count_from b htc + delta;
            read_ready = rcond \<le> word_of_int des_count;
            write_ready = has_flag htc SCHEDI_JOB_EPOLLSOCKET_WRITE_READY;
            is_dead = dead \<or> has_flag htc SCHEDI_JOB_EPOLLSOCKET_DEAD;
            ready = socket_ready (has_flag htc SCHEDI_JOB_EPOLLSOCKET_EPOLLNT)
              (has_flag htc SCHEDI_JOB_EPOLLSOCKET_EPOLLDID) read_ready write_ready is_dead;
            des = (htc AND NOT (SCHEDI_JOB_EPOLLSOCKET_COUNT_MASK b
                OR SCHEDI_JOB_EPOLLSOCKET_READ_READY OR SCHEDI_JOB_EPOLLSOCKET_READY))
              OR (word_of_int des_count AND SCHEDI_JOB_EPOLLSOCKET_COUNT_MASK b)
              OR (if read_ready then SCHEDI_JOB_EPOLLSOCKET_READ_READY else 0)
              OR (if ready then SCHEDI_JOB_EPOLLSOCKET_READY else 0)
              OR (if is_dead then SCHEDI_JOB_EPOLLSOCKET_DEAD else 0)
        in CasTry des (Some (htc, des)))"

definition socket_or_body :: "u64 \<Rightarrow> u64 \<Rightarrow> ((u64 \<times> u64) option, u64) cas_step" where
  "socket_or_body flags htc = (let des = htc OR flags in CasTry des (Some (htc, des)))"

definition done_jobside_body :: "u64 \<Rightarrow> ((u64 \<times> u64) option, u64) cas_step" where
  "done_jobside_body htc =
     (let d1 = htc OR SCHEDI_JOB_EPOLLSOCKET_EPOLLNT;
          des = (if \<not> has_flag d1 SCHEDI_JOB_EPOLLSOCKET_EPOLLDID
                 then d1 AND NOT SCHEDI_JOB_EPOLLSOCKET_READY else d1)
      in CasTry des (Some (htc, des)))"

definition untimeout_body :: "u64 \<Rightarrow> ((u64 \<times> u64) option, u64) cas_step" where
  "untimeout_body htc =
     (if \<not> has_flag htc SCHEDI_JOB_EPOLLSOCKET_EPOLLDID then CasReturn None
      else
        let d1 = (htc AND NOT SCHEDI_JOB_EPOLLSOCKET_EPOLLDID) AND NOT SCHEDI_JOB_EPOLLSOCKET_TIMEOUT;
            ready = socket_ready (has_flag htc SCHEDI_JOB_EPOLLSOCKET_EPOLLNT) False
              (has_flag htc SCHEDI_JOB_EPOLLSOCKET_READ_READY)
              (has_flag htc SCHEDI_JOB_EPOLLSOCKET_WRITE_READY) (has_flag htc SCHEDI_JOB_EPOLLSOCKET_DEAD);
            des = (if ready then d1 OR SCHEDI_JOB_EPOLLSOCKET_READY
                   else d1 AND NOT SCHEDI_JOB_EPOLLSOCKET_READY)
        in CasTry des (Some (htc, des)))"

section \<open>Readiness of the socket and of its job\<close>

definition schedi_job_epollsocket_accessjob :: "epollsocket \<Rightarrow> jobsys \<Rightarrow> bool \<times> jobsys" where
  "schedi_job_epollsocket_accessjob k s =
     (let (m, s1) = schedi_job_mark_access s (sock_job k)
      in if m = 0
         then if gen (jobs s1 (sock_job k)) = sock_gen k then (True, s1)
              else (False, snd (schedi_job_unmark_access s1 (sock_job k)))
         else (False, s1))"

definition schedi_job_epollsocket_jobready_update ::
  "build \<Rightarrow> sock_state \<Rightarrow> u64 \<Rightarrow> u64 \<Rightarrow> sock_state" where
  "schedi_job_epollsocket_jobready_update b st old_htc new_htc =
     (let st1 = (if ext_timeout b then st\<lparr>timer_resets := timer_resets st + 1\<rparr> else st);
          old_ready = has_flag old_htc SCHEDI_JOB_EPOLLSOCKET_READY;
          new_ready = has_flag new_htc SCHEDI_JOB_EPOLLSOCKET_READY
      in if old_ready = new_ready then st1
         else
           let (ok, s1) = schedi_job_epollsocket_accessjob (sock st1) (sys st1)
           in if \<not> ok then st1\<lparr>sys := s1\<rparr>
              else
                let job = sock_job (sock st1);
                    s2 = snd (schedi_job_meta_flag_cas_update b s1 job (if new_ready then 1 else -1) 0 0 0 0 False)
                in st1\<lparr>sys := snd (schedi_job_unmark_access s2 job)\<rparr>)"

text \<open>A loop on the word followed by the update of the job.\<close>

definition socket_cas ::
  "build \<Rightarrow> (u64 \<Rightarrow> ((u64 \<times> u64) option, u64) cas_step) \<Rightarrow> sock_state \<Rightarrow> sock_state" where
  "socket_cas b body st =
     (case cas_seq body (sock_htc (sock st)) of
        (None, _) \<Rightarrow> st
      | (Some (old, new), htc) \<Rightarrow>
          schedi_job_epollsocket_jobready_update b (st\<lparr>sock := (sock st)\<lparr>sock_htc := htc\<rparr>\<rparr>) old new)"

definition schedi_job_epollsocket_avail_add :: "build \<Rightarrow> sock_state \<Rightarrow> int \<Rightarrow> bool \<Rightarrow> sock_state" where
  "schedi_job_epollsocket_avail_add b st delta dead =
     socket_cas b (avail_add_body b (write_avail_condition (sock st)) delta dead) st"

definition schedi_job_epollsocket_count_add :: "build \<Rightarrow> sock_state \<Rightarrow> int \<Rightarrow> bool \<Rightarrow> sock_state" where
  "schedi_job_epollsocket_count_add b st delta dead =
     socket_cas b (count_add_body b (read_count_condition (sock st)) delta dead) st"

definition schedi_job_epollsocket_dead :: "build \<Rightarrow> sock_state \<Rightarrow> sock_state" where
  "schedi_job_epollsocket_dead b st =
     socket_cas b (socket_or_body (SCHEDI_JOB_EPOLLSOCKET_DEAD OR SCHEDI_JOB_EPOLLSOCKET_READY)) st"

definition schedi_job_epollsocket_done_cas_epollside :: "build \<Rightarrow> sock_state \<Rightarrow> sock_state" where
  "schedi_job_epollsocket_done_cas_epollside b st =
     socket_cas b (socket_or_body (SCHEDI_JOB_EPOLLSOCKET_EPOLLDID OR SCHEDI_JOB_EPOLLSOCKET_READY)) st"

definition schedi_job_epollsocket_done_cas_jobside :: "build \<Rightarrow> sock_state \<Rightarrow> sock_state" where
  "schedi_job_epollsocket_done_cas_jobside b st = socket_cas b done_jobside_body st"

definition schedi_job_epollsocket_timeout_cas :: "build \<Rightarrow> sock_state \<Rightarrow> sock_state" where
  "schedi_job_epollsocket_timeout_cas b st =
     socket_cas b (socket_or_body (SCHEDI_JOB_EPOLLSOCKET_TIMEOUT OR SCHEDI_JOB_EPOLLSOCKET_READY)) st"

definition schedi_job_epollsocket_untimeout :: "build \<Rightarrow> sock_state \<Rightarrow> int \<times> sock_state" where
  "schedi_job_epollsocket_untimeout b st =
     (if fst (cas_seq untimeout_body (sock_htc (sock st))) = None then (-1, st)
      else (0, socket_cas b untimeout_body st))"

definition schedi_job_epollsocket_timeout :: "sock_state \<Rightarrow> bool" where
  "schedi_job_epollsocket_timeout st = has_flag (sock_htc (sock st)) SCHEDI_JOB_EPOLLSOCKET_TIMEOUT"

definition schedi_job_epollsocket_ready :: "sock_state \<Rightarrow> bool" where
  "schedi_job_epollsocket_ready st = has_flag (sock_htc (sock st)) SCHEDI_JOB_EPOLLSOCKET_READY"

definition schedi_job_tool_epollsocket_read_cond :: "build \<Rightarrow> sock_state \<Rightarrow> u32 \<Rightarrow> sock_state" where
  "schedi_job_tool_epollsocket_read_cond b st c =
     schedi_job_epollsocket_count_add b (st\<lparr>sock := (sock st)\<lparr>read_count_condition := c\<rparr>\<rparr>) 0 False"

definition schedi_job_tool_epollsocket_write_cond :: "build \<Rightarrow> sock_state \<Rightarrow> u32 \<Rightarrow> sock_state" where
  "schedi_job_tool_epollsocket_write_cond b st c =
     schedi_job_epollsocket_avail_add b (st\<lparr>sock := (sock st)\<lparr>write_avail_condition := c\<rparr>\<rparr>) 0 False"

text \<open>Giving up one of the two references; the result says whether the socket was freed.\<close>

definition schedi_job_epollsocket_done_side :: "build \<Rightarrow> sock_state \<Rightarrow> bool \<Rightarrow> int \<times> sock_state" where
  "schedi_job_epollsocket_done_side b st epollside =
     (let st1 = (if \<not> epollside then schedi_job_epollsocket_done_cas_jobside b st
                 else schedi_job_epollsocket_done_cas_epollside b st);
          p = fall (sock st1);
          st2 = st1\<lparr>sock := (sock st1)\<lparr>fall := p - 1\<rparr>\<rparr>
      in (if p = 1 then 0 else -1, st2))"

definition schedi_job_epollsocket_done :: "build \<Rightarrow> sock_state \<Rightarrow> int \<times> sock_state" where
  "schedi_job_epollsocket_done b st = schedi_job_epollsocket_done_side b st False"

section \<open>The ring buffers\<close>

definition schedi_job_epollsocket_epoll_activator :: "build \<Rightarrow> sock_state \<Rightarrow> sock_state" where
  "schedi_job_epollsocket_epoll_activator b st =
     (let htc = sock_htc (sock st);
          N = int SCHEDI_JOB_EPOLLSOCKET_BUFFERSIZE;
          m1 = (if schedi_job_epollsocket_count_from b htc \<noteq> N then [EPOLLIN OR EPOLLONESHOT] else []);
          m2 = (if schedi_job_epollsocket_avail_from b htc \<noteq> N then [EPOLLOUT OR EPOLLONESHOT] else [])
      in st\<lparr>epoll_mods := epoll_mods st @ m1 @ m2\<rparr>)"

definition schedi_job_epollsocket_write_buffer_data ::
  "build \<Rightarrow> sock_state \<Rightarrow> u8 list \<Rightarrow> nat \<times> sock_state" where
  "schedi_job_epollsocket_write_buffer_data b st data =
     (let k = sock st;
          N = SCHEDI_JOB_EPOLLSOCKET_BUFFERSIZE;
          avail = nat (schedi_job_epollsocket_avail_from b (sock_htc k));
          head = write_head k;
          write_size = min (length data) avail;
          first_write = min write_size (N - head);
          buf1 = memcpy_at (write_buffer k) head (take first_write data);
          (buf2, new_head, total) =
            (if N \<le> head + write_size
             then let rest_write = write_size - first_write
                  in (memcpy_at buf1 0 (take rest_write (drop first_write data)), rest_write,
                      first_write + rest_write)
             else (buf1, head + first_write, first_write));
          st1 = st\<lparr>sock := k\<lparr>write_buffer := buf2, write_head := new_head\<rparr>\<rparr>
      in (total, schedi_job_epollsocket_avail_add b st1 (- int total) False))"

definition schedi_job_epollsocket_write ::
  "build \<Rightarrow> send_result \<Rightarrow> sock_state \<Rightarrow> u8 list \<Rightarrow> int \<times> sock_state" where
  "schedi_job_epollsocket_write b r st data =
     (let empty = (schedi_job_epollsocket_avail_from b (sock_htc (sock st))
            = int SCHEDI_JOB_EPOLLSOCKET_BUFFERSIZE)
      in if empty \<and> r = SendError then (-1, schedi_job_epollsocket_dead b st)
         else
           let sent = (if empty then (case r of Sent n \<Rightarrow> n | _ \<Rightarrow> 0) else 0);
               st1 = st\<lparr>wire := wire st @ take sent data\<rparr>;
               rest = drop sent data
           in if rest \<noteq> []
              then let (ret, st2) = schedi_job_epollsocket_write_buffer_data b st1 rest
                   in (int sent + int ret, schedi_job_epollsocket_epoll_activator b st2)
              else (int sent, st1))"

text \<open>The result of a read is the bytes copied out; their number is the return value.\<close>

definition schedi_job_epollsocket_read :: "build \<Rightarrow> sock_state \<Rightarrow> nat \<Rightarrow> u8 list \<times> sock_state" where
  "schedi_job_epollsocket_read b st n =
     (let k = sock st;
          N = SCHEDI_JOB_EPOLLSOCKET_BUFFERSIZE;
          count = nat (schedi_job_epollsocket_count_from b (sock_htc k));
          tail = read_tail k;
          read_size = min count n;
          (data, tail') =
            (if N \<le> read_size + tail
             then let fread = N - tail; rest_read = read_size - fread
                  in (take fread (drop tail (read_buffer k)) @ take rest_read (read_buffer k), rest_read)
             else (take read_size (drop tail (read_buffer k)), tail + read_size));
          st1 = schedi_job_epollsocket_count_add b st (- int read_size) False;
          st2 = st1\<lparr>sock := (sock st1)\<lparr>read_tail := tail'\<rparr>\<rparr>;
          st3 = (if count = N then schedi_job_epollsocket_epoll_activator b st2 else st2)
      in (data, st3))"

text \<open>
  Flushing the write ring: \<open>r1\<close> answers the send from the tail to the end of the
  buffer, \<open>r2\<close> the send of the part that wrapped around.
\<close>

definition schedi_job_epollsocket_write_return ::
  "build \<Rightarrow> send_result \<Rightarrow> send_result \<Rightarrow> sock_state \<Rightarrow> int \<times> sock_state" where
  "schedi_job_epollsocket_write_return b r1 r2 st =
     (let k = sock st;
          N = SCHEDI_JOB_EPOLLSOCKET_BUFFERSIZE;
          tail = write_tail k;
          avail = nat (schedi_job_epollsocket_avail_from b (sock_htc k));
          sendable = N - avail
      in if sendable = 0 then (0, st)
         else
           let first = min sendable (N - tail)
           in (case r1 of
                 SendAgain \<Rightarrow> (0, st)
               | SendError \<Rightarrow> (-1, schedi_job_epollsocket_dead b st)
               | Sent sent \<Rightarrow>
                   let w1 = take sent (drop tail (write_buffer k));
                       tail1 = (tail + sent) mod N;
                       (total, tail2, dead, w2) =
                         (if sent = first \<and> first < sendable
                          then (case r2 of
                                  Sent rest \<Rightarrow>
                                    if rest > 0
                                    then (sent + rest, rest, False, take rest (write_buffer k))
                                    else (sent, tail1, False, [])
                                | SendAgain \<Rightarrow> (sent, tail1, False, [])
                                | SendError \<Rightarrow> (sent, tail1, True, []))
                          else (sent, tail1, False, []));
                       st1 = schedi_job_epollsocket_avail_add b (st\<lparr>wire := wire st @ w1 @ w2\<rparr>) (int total) dead;
                       st2 = st1\<lparr>sock := (sock st1)\<lparr>write_tail := tail2\<rparr>\<rparr>
                   in (if dead then -1 else int total, st2)))"

text \<open>Filling the read ring: \<open>r1\<close> and \<open>r2\<close> answer the two \<^verbatim>\<open>recv\<close> calls.\<close>

definition schedi_job_epollsocket_read_return ::
  "build \<Rightarrow> recv_result \<Rightarrow> recv_result \<Rightarrow> sock_state \<Rightarrow> int \<times> sock_state" where
  "schedi_job_epollsocket_read_return b r1 r2 st =
     (let k = sock st;
          N = SCHEDI_JOB_EPOLLSOCKET_BUFFERSIZE;
          head = read_head k;
          count = nat (schedi_job_epollsocket_count_from b (sock_htc k));
          free = N - count
      in if free = 0 then (0, st)
         else
           let first = min free (N - head)
           in (case r1 of
                 RecvAgain \<Rightarrow> (0, st)
               | RecvError \<Rightarrow> (-1, schedi_job_epollsocket_dead b st)
               | Got d1 \<Rightarrow>
                   if d1 = [] then (-1, schedi_job_epollsocket_dead b st)
                   else
                     let buf1 = memcpy_at (read_buffer k) head d1;
                         head1 = (head + length d1) mod N;
                         (total, head2, dead, buf2) =
                           (if length d1 = first \<and> first < free
                            then (case r2 of
                                    Got d2 \<Rightarrow>
                                      if d2 \<noteq> []
                                      then (length d1 + length d2, length d2, False, memcpy_at buf1 0 d2)
                                      else (length d1, head1, True, buf1)
                                  | RecvAgain \<Rightarrow> (length d1, head1, False, buf1)
                                  | RecvError \<Rightarrow> (length d1, head1, True, buf1))
                            else (length d1, head1, False, buf1));
                         st1 = st\<lparr>sock := k\<lparr>read_buffer := buf2\<rparr>\<rparr>;
                         st2 = schedi_job_epollsocket_count_add b st1 (int total) dead;
                         st3 = st2\<lparr>sock := (sock st2)\<lparr>read_head := head2\<rparr>\<rparr>
                     in (if dead then -1 else int total, st3)))"

text \<open>The epoll thread's entry: which of the kernel's answers are asked for depends on the events.\<close>

definition schedi_job_epollsocket_return ::
  "build \<Rightarrow> recv_result \<times> recv_result \<Rightarrow> send_result \<times> send_result \<Rightarrow> sock_state \<Rightarrow> u32
    \<Rightarrow> int \<times> sock_state" where
  "schedi_job_epollsocket_return b rcv sd st events =
     (let (dead, st1) =
        (if events AND (EPOLLERR OR EPOLLHUP) \<noteq> 0 \<and> events AND (EPOLLIN OR EPOLLOUT) = 0
         then (True, schedi_job_epollsocket_dead b st)
         else if events AND EPOLLIN \<noteq> 0
         then (let (r, s') = schedi_job_epollsocket_read_return b (fst rcv) (snd rcv) st in (r < 0, s'))
         else if events AND EPOLLOUT \<noteq> 0
         then (let (r, s') = schedi_job_epollsocket_write_return b (fst sd) (snd sd) st in (r < 0, s'))
         else (False, st));
          st2 = schedi_job_epollsocket_epoll_activator b st1
      in (if dead then -1 else 0, st2))"

section \<open>Fields and flags of the packed word\<close>

abbreviation shift :: "build \<Rightarrow> nat" where
  "shift b \<equiv> SCHEDI_JOB_EPOLLSOCKET_AVAIL_SHIFT b"

lemma shift_bounds: "28 \<le> shift b" "shift b \<le> 29" "ext_timeout b \<Longrightarrow> shift b = 28"
  by (simp_all add: SCHEDI_JOB_EPOLLSOCKET_AVAIL_SHIFT_def)

lemma socket_masks:
  "SCHEDI_JOB_EPOLLSOCKET_COUNT_MASK b = mask (shift b)"
  "SCHEDI_JOB_EPOLLSOCKET_AVAIL_MASK b = push_bit (shift b) (mask (shift b))"
  by (simp_all add: SCHEDI_JOB_EPOLLSOCKET_COUNT_MASK_def SCHEDI_JOB_EPOLLSOCKET_AVAIL_MASK_def
      SCHEDI_JOB_EPOLLSOCKET_AVAIL_SHIFT_def mask_eq_exp_minus_1)

lemma bit_socket_masks:
  "bit (SCHEDI_JOB_EPOLLSOCKET_COUNT_MASK b) n \<longleftrightarrow> n < shift b"
  "bit (SCHEDI_JOB_EPOLLSOCKET_AVAIL_MASK b) n \<longleftrightarrow> shift b \<le> n \<and> n < 2 * shift b"
  using shift_bounds[of b] by (auto simp: socket_masks bit_push_bit_iff bit_mask_word)

lemma bit_socket_flags:
  "bit SCHEDI_JOB_EPOLLSOCKET_TIMEOUT n \<longleftrightarrow> n = 57"
  "bit SCHEDI_JOB_EPOLLSOCKET_EPOLLDID n \<longleftrightarrow> n = 58"
  "bit SCHEDI_JOB_EPOLLSOCKET_EPOLLNT n \<longleftrightarrow> n = 59"
  "bit SCHEDI_JOB_EPOLLSOCKET_READ_READY n \<longleftrightarrow> n = 60"
  "bit SCHEDI_JOB_EPOLLSOCKET_WRITE_READY n \<longleftrightarrow> n = 61"
  "bit SCHEDI_JOB_EPOLLSOCKET_READY n \<longleftrightarrow> n = 62"
  "bit SCHEDI_JOB_EPOLLSOCKET_DEAD n \<longleftrightarrow> n = 63"
  by (simp_all only: flag_defs, (subst bit_one_shifted; simp)+)

lemma socket_flag_iff:
  "has_flag h SCHEDI_JOB_EPOLLSOCKET_TIMEOUT \<longleftrightarrow> bit h 57"
  "has_flag h SCHEDI_JOB_EPOLLSOCKET_EPOLLDID \<longleftrightarrow> bit h 58"
  "has_flag h SCHEDI_JOB_EPOLLSOCKET_EPOLLNT \<longleftrightarrow> bit h 59"
  "has_flag h SCHEDI_JOB_EPOLLSOCKET_READ_READY \<longleftrightarrow> bit h 60"
  "has_flag h SCHEDI_JOB_EPOLLSOCKET_WRITE_READY \<longleftrightarrow> bit h 61"
  "has_flag h SCHEDI_JOB_EPOLLSOCKET_READY \<longleftrightarrow> bit h 62"
  "has_flag h SCHEDI_JOB_EPOLLSOCKET_DEAD \<longleftrightarrow> bit h 63"
  by (simp_all only: flag_defs push_bit_of_1 and_exp_eq_0_iff_not_bit not_not)

text \<open>The fill counts as natural numbers.\<close>

definition cnt :: "build \<Rightarrow> u64 \<Rightarrow> nat" where
  "cnt b h = unat (h AND mask (shift b))"

definition avl :: "build \<Rightarrow> u64 \<Rightarrow> nat" where
  "avl b h = unat (drop_bit (shift b) h AND mask (shift b))"

lemma count_from_cnt: "schedi_job_epollsocket_count_from b h = int (cnt b h)"
  by (simp add: schedi_job_epollsocket_count_from_def cnt_def socket_masks)

lemma avail_from_avl: "schedi_job_epollsocket_avail_from b h = int (avl b h)"
proof -
  have "drop_bit (shift b) (h AND SCHEDI_JOB_EPOLLSOCKET_AVAIL_MASK b) = drop_bit (shift b) h AND mask (shift b)"
    using shift_bounds[of b]
    by (intro bit_word_eqI) (auto simp: bit_drop_bit_eq bit_and_iff bit_socket_masks bit_mask_word)
  then show ?thesis by (simp add: schedi_job_epollsocket_avail_from_def avl_def)
qed

lemma unat_small: "m < 2 ^ shift b \<Longrightarrow> unat (word_of_int (int m) :: u64) = m"
proof -
  assume m: "m < 2 ^ shift b"
  have "(2::nat) ^ shift b \<le> 2 ^ 29" using shift_bounds(2) by (intro power_increasing) simp_all
  with m have "m < 2 ^ 29" by (rule less_le_trans)
  then show ?thesis by (simp add: unat_of_nat)
qed

lemma bit_word_small:
  assumes "m < 2 ^ shift b" "bit (word_of_int (int m) :: u64) n"
  shows "n < shift b"
  using assms(1) by (intro bit_below[OF _ assms(2)]) (simp only: unat_small)

lemma field_eq:
  assumes "m < 2 ^ shift b" "\<And>n. bit (h :: u64) n \<longleftrightarrow> n < shift b \<and> bit (word_of_int (int m) :: u64) n"
  shows "unat h = m"
proof -
  have "h = word_of_int (int m)"
    using assms(2) bit_word_small[OF assms(1)] by (intro bit_word_eqI) blast
  then show ?thesis by (simp only: unat_small[OF assms(1)])
qed

lemma cond_le: "m < 2 ^ shift b \<Longrightarrow> (c :: u32) \<le> word_of_int (int m) \<longleftrightarrow> unat c \<le> m"
proof -
  assume m: "m < 2 ^ shift b"
  have "(2::nat) ^ shift b \<le> 2 ^ 29" using shift_bounds(2) by (intro power_increasing) simp_all
  with m have "m < 2 ^ 29" by (rule less_le_trans)
  then show ?thesis by (simp add: word_le_nat_alt unat_of_nat)
qed

text \<open>The flags after an update of a fill count, and what it keeps.\<close>

definition recomputed :: "u64 \<Rightarrow> u64 \<Rightarrow> bool \<Rightarrow> bool" where
  "recomputed h d dead \<longleftrightarrow> bit d 57 = bit h 57 \<and> bit d 58 = bit h 58 \<and> bit d 59 = bit h 59
     \<and> bit d 63 = (dead \<or> bit h 63)
     \<and> bit d 62 = socket_ready (bit d 59) (bit d 58) (bit d 60) (bit d 61) (bit d 63)"

text \<open>
  The READY flag is what the other flags say, except on a socket that its job has
  given up and the epoll side has not: there a socket that dies is made ready.
\<close>

definition flags_ok :: "u64 \<Rightarrow> bool" where
  "flags_ok h \<longleftrightarrow> bit h 59 \<and> \<not> bit h 58
     \<or> bit h 62 = socket_ready (bit h 59) (bit h 58) (bit h 60) (bit h 61) (bit h 63)"

lemma recomputed_flags: "recomputed h d dead \<Longrightarrow> flags_ok d"
  by (simp add: recomputed_def flags_ok_def)

lemma count_add_bits:
  assumes "count_add_body b rc delta dead h = CasTry d r" "int (cnt b h) + delta = int m" "m < 2 ^ shift b"
  shows "bit d n \<longleftrightarrow>
    (if n < shift b then bit (word_of_int (int m) :: u64) n
     else if n = 60 then unat rc \<le> m
     else if n = 62 then socket_ready (bit h 59) (bit h 58) (unat rc \<le> m) (bit h 61) (dead \<or> bit h 63)
     else if n = 63 then dead \<or> bit h 63 else bit h n)"
proof -
  define rr where "rr \<longleftrightarrow> unat rc \<le> m"
  define rdy where "rdy = socket_ready (bit h 59) (bit h 58) rr (bit h 61) (dead \<or> bit h 63)"
  define D where "D = (h AND NOT (SCHEDI_JOB_EPOLLSOCKET_COUNT_MASK b
                OR SCHEDI_JOB_EPOLLSOCKET_READ_READY OR SCHEDI_JOB_EPOLLSOCKET_READY))
              OR (word_of_int (int m) AND SCHEDI_JOB_EPOLLSOCKET_COUNT_MASK b)
              OR (if rr then SCHEDI_JOB_EPOLLSOCKET_READ_READY else 0)
              OR (if rdy then SCHEDI_JOB_EPOLLSOCKET_READY else 0)
              OR (if dead \<or> bit h 63 then SCHEDI_JOB_EPOLLSOCKET_DEAD else 0)"
  have "count_add_body b rc delta dead h =
      (if ext_timeout b \<and> bit h 57 then CasReturn None else CasTry D (Some (h, D)))"
    unfolding count_add_body_def Let_def count_from_cnt assms(2) cond_le[OF assms(3)] socket_flag_iff D_def rr_def rdy_def ..
  with assms(1) have d: "d = D" by (simp split: if_splits)
  have "bit (if p then f else 0) n \<longleftrightarrow> p \<and> bit f n" for p and f :: u64 by simp
  then show ?thesis
    using shift_bounds(1,2)[of b] bit_imp_le_length[of h n]
    unfolding d D_def rr_def[symmetric] rdy_def[symmetric]
    by (auto simp: bit_or_iff bit_and_iff bit_not_iff bit_socket_masks bit_socket_flags)
qed

lemma count_add_effect:
  assumes "count_add_body b rc delta dead h = CasTry d r" "int (cnt b h) + delta = int m" "m < 2 ^ shift b"
  shows "r = Some (h, d)" "cnt b d = m" "avl b d = avl b h" "bit d 60 \<longleftrightarrow> unat rc \<le> m"
    and "bit d 61 = bit h 61" "recomputed h d dead"
proof -
  note b = count_add_bits[OF assms]
  show "r = Some (h, d)" using assms(1) by (auto simp: count_add_body_def Let_def split: if_splits)
  show "cnt b d = m" unfolding cnt_def using shift_bounds(2)[of b]
    by (intro field_eq[OF assms(3)]) (auto simp: bit_and_iff bit_mask_word b)
  have "drop_bit (shift b) d AND mask (shift b) = drop_bit (shift b) h AND mask (shift b)"
    using shift_bounds[of b]
    by (intro bit_word_eqI) (auto simp: bit_and_iff bit_mask_word bit_drop_bit_eq b)
  then show "avl b d = avl b h" by (simp add: avl_def)
  show "bit d 60 \<longleftrightarrow> unat rc \<le> m" "bit d 61 = bit h 61" "recomputed h d dead"
    using shift_bounds(2)[of b] by (simp_all add: b recomputed_def)
qed

lemma avail_add_bits:
  assumes "avail_add_body b wc delta dead h = CasTry d r" "int (avl b h) + delta = int m" "m < 2 ^ shift b"
  shows "bit d n \<longleftrightarrow>
    (if shift b \<le> n \<and> n < 2 * shift b then bit (word_of_int (int m) :: u64) (n - shift b)
     else if n = 61 then unat wc \<le> m
     else if n = 62 then socket_ready (bit h 59) (bit h 58) (bit h 60) (unat wc \<le> m) (dead \<or> bit h 63)
     else if n = 63 then dead \<or> bit h 63 else bit h n)"
proof -
  define wr where "wr \<longleftrightarrow> unat wc \<le> m"
  define rdy where "rdy = socket_ready (bit h 59) (bit h 58) (bit h 60) wr (dead \<or> bit h 63)"
  define D where "D = (h AND NOT (SCHEDI_JOB_EPOLLSOCKET_AVAIL_MASK b
                OR SCHEDI_JOB_EPOLLSOCKET_WRITE_READY OR SCHEDI_JOB_EPOLLSOCKET_READY))
              OR push_bit (shift b) (word_of_int (int m))
              OR (if wr then SCHEDI_JOB_EPOLLSOCKET_WRITE_READY else 0)
              OR (if rdy then SCHEDI_JOB_EPOLLSOCKET_READY else 0)
              OR (if dead \<or> bit h 63 then SCHEDI_JOB_EPOLLSOCKET_DEAD else 0)"
  have "avail_add_body b wc delta dead h =
      (if ext_timeout b \<and> bit h 57 then CasReturn None else CasTry D (Some (h, D)))"
    unfolding avail_add_body_def Let_def avail_from_avl assms(2) cond_le[OF assms(3)] socket_flag_iff D_def wr_def rdy_def ..
  with assms(1) have d: "d = D" by (simp split: if_splits)
  have ifb: "bit (if p then f else 0) n \<longleftrightarrow> p \<and> bit f n" for p and f :: u64 by simp
  let ?W = "word_of_int (int m) :: u64"
  have "bit D n \<longleftrightarrow> bit h n \<and> \<not> (shift b \<le> n \<and> n < 2 * shift b) \<and> n \<noteq> 61 \<and> n \<noteq> 62
      \<or> shift b \<le> n \<and> n < 64 \<and> bit ?W (n - shift b) \<or> wr \<and> n = 61 \<or> rdy \<and> n = 62
      \<or> (dead \<or> bit h 63) \<and> n = 63"
    using bit_imp_le_length[of h n]
    unfolding D_def bit_or_iff bit_and_iff bit_not_iff bit_push_bit_iff bit_socket_masks bit_socket_flags ifb
    by (auto simp: bit_simps)
  moreover have "bit ?W (n - shift b) \<Longrightarrow> n - shift b < shift b" by (rule bit_word_small[OF assms(3)])
  ultimately show ?thesis
    using shift_bounds(1,2)[of b] unfolding d wr_def[symmetric] rdy_def[symmetric]
    by (cases "shift b \<le> n \<and> n < 2 * shift b") (fastforce, auto)
qed

lemma avail_add_effect:
  assumes "avail_add_body b wc delta dead h = CasTry d r" "int (avl b h) + delta = int m" "m < 2 ^ shift b"
  shows "r = Some (h, d)" "avl b d = m" "cnt b d = cnt b h" "bit d 61 \<longleftrightarrow> unat wc \<le> m"
    and "bit d 60 = bit h 60" "recomputed h d dead \<or> \<not> ext_timeout b"
    and "bit d 62 = socket_ready (bit d 59) (bit d 58) (bit d 60) (bit d 61) (bit d 63)"
      "bit d 63 = (dead \<or> bit h 63)" "bit d 58 = bit h 58" "bit d 59 = bit h 59"
proof -
  note b = avail_add_bits[OF assms]
  show "r = Some (h, d)" using assms(1) by (auto simp: avail_add_body_def Let_def split: if_splits)
  show "avl b d = m" unfolding avl_def using shift_bounds(2)[of b]
    by (intro field_eq[OF assms(3)]) (auto simp: bit_and_iff bit_mask_word bit_drop_bit_eq b)
  have "d AND mask (shift b) = h AND mask (shift b)"
    using shift_bounds[of b] by (intro bit_word_eqI) (auto simp: bit_and_iff bit_mask_word b)
  then show "cnt b d = cnt b h" by (simp add: cnt_def)
  show "bit d 61 \<longleftrightarrow> unat wc \<le> m" "bit d 60 = bit h 60" "recomputed h d dead \<or> \<not> ext_timeout b"
    "bit d 62 = socket_ready (bit d 59) (bit d 58) (bit d 60) (bit d 61) (bit d 63)"
    "bit d 63 = (dead \<or> bit h 63)" "bit d 58 = bit h 58" "bit d 59 = bit h 59"
    using shift_bounds[of b] by (auto simp: b recomputed_def)
qed

section \<open>The rings are byte streams\<close>

abbreviation BUF :: nat where
  "BUF \<equiv> SCHEDI_JOB_EPOLLSOCKET_BUFFERSIZE"

text \<open>
  The positions agree with the fill counts and the readiness flags with the
  thresholds. The invariant is only kept while the socket has not timed out:
  a timed-out socket leaves its counts alone and still moves its positions.
\<close>

definition sock_ok :: "build \<Rightarrow> epollsocket \<Rightarrow> bool" where
  "sock_ok b k \<longleftrightarrow> length (read_buffer k) = BUF \<and> length (write_buffer k) = BUF
     \<and> read_tail k < BUF \<and> write_tail k < BUF \<and> cnt b (sock_htc k) \<le> BUF \<and> avl b (sock_htc k) \<le> BUF
     \<and> read_head k = (read_tail k + cnt b (sock_htc k)) mod BUF
     \<and> write_head k = (write_tail k + (BUF - avl b (sock_htc k))) mod BUF
     \<and> (has_flag (sock_htc k) SCHEDI_JOB_EPOLLSOCKET_READ_READY \<longleftrightarrow> unat (read_count_condition k) \<le> cnt b (sock_htc k))
     \<and> (has_flag (sock_htc k) SCHEDI_JOB_EPOLLSOCKET_WRITE_READY \<longleftrightarrow> unat (write_avail_condition k) \<le> avl b (sock_htc k))
     \<and> flags_ok (sock_htc k)"

definition timed_out :: "build \<Rightarrow> epollsocket \<Rightarrow> bool" where
  "timed_out b k \<longleftrightarrow> ext_timeout b \<and> has_flag (sock_htc k) SCHEDI_JOB_EPOLLSOCKET_TIMEOUT"

definition incoming :: "build \<Rightarrow> epollsocket \<Rightarrow> u8 list" where
  "incoming b k = ring_slice (read_buffer k) (read_tail k) (cnt b (sock_htc k))"

definition outgoing :: "build \<Rightarrow> epollsocket \<Rightarrow> u8 list" where
  "outgoing b k = ring_slice (write_buffer k) (write_tail k) (BUF - avl b (sock_htc k))"

lemma BUF_pos [simp]: "0 < BUF"
  by (simp add: SCHEDI_JOB_EPOLLSOCKET_BUFFERSIZE_def)

lemma BUF_fits: "m \<le> BUF \<Longrightarrow> m < 2 ^ shift b"
proof -
  assume "m \<le> BUF"
  moreover have "(2::nat) ^ 28 \<le> 2 ^ shift b" using shift_bounds(1) by (intro power_increasing) simp_all
  ultimately show ?thesis by (simp add: SCHEDI_JOB_EPOLLSOCKET_BUFFERSIZE_def)
qed

lemma jobready_update_frame [simp]:
  "sock (schedi_job_epollsocket_jobready_update b st old new) = sock st"
  "wire (schedi_job_epollsocket_jobready_update b st old new) = wire st"
  "epoll_mods (schedi_job_epollsocket_jobready_update b st old new) = epoll_mods st"
  by (simp_all add: schedi_job_epollsocket_jobready_update_def Let_def case_prod_beta)

lemma socket_cas_frame [simp]:
  "wire (socket_cas b body st) = wire st" "epoll_mods (socket_cas b body st) = epoll_mods st"
  by (simp_all add: socket_cas_def case_prod_beta split: option.split prod.split)

lemma socket_cas_sock:
  "body (sock_htc (sock st)) = CasTry d (Some (h, d')) \<Longrightarrow>
    sock (socket_cas b body st) = (sock st)\<lparr>sock_htc := d\<rparr>"
  by (simp add: socket_cas_def cas_seq_def)

lemma count_add_wire: "wire (schedi_job_epollsocket_count_add b st delta dead) = wire st"
  by (simp add: schedi_job_epollsocket_count_add_def)

text \<open>A change of one fill count, on a socket that has not timed out.\<close>

lemma count_add_sock:
  assumes "\<not> timed_out b (sock st)" "int (cnt b (sock_htc (sock st))) + delta = int m" "m \<le> BUF"
  obtains d where "sock (schedi_job_epollsocket_count_add b st delta dead) = (sock st)\<lparr>sock_htc := d\<rparr>"
    "cnt b d = m" "avl b d = avl b (sock_htc (sock st))"
    "bit d 60 \<longleftrightarrow> unat (read_count_condition (sock st)) \<le> m" "bit d 61 = bit (sock_htc (sock st)) 61"
    "recomputed (sock_htc (sock st)) d dead"
proof -
  let ?body = "count_add_body b (read_count_condition (sock st)) delta dead"
  obtain d r where t: "?body (sock_htc (sock st)) = CasTry d r"
    using assms(1) by (auto simp: count_add_body_def timed_out_def Let_def)
  note e = count_add_effect[OF t assms(2) BUF_fits[OF assms(3)]]
  then show ?thesis using socket_cas_sock[of ?body st d] t
    by (intro that[of d]) (simp_all add: schedi_job_epollsocket_count_add_def)
qed

lemma avail_add_sock:
  assumes "\<not> timed_out b (sock st)" "int (avl b (sock_htc (sock st))) + delta = int m" "m \<le> BUF"
  obtains d where "sock (schedi_job_epollsocket_avail_add b st delta dead) = (sock st)\<lparr>sock_htc := d\<rparr>"
    "avl b d = m" "cnt b d = cnt b (sock_htc (sock st))"
    "bit d 61 \<longleftrightarrow> unat (write_avail_condition (sock st)) \<le> m" "bit d 60 = bit (sock_htc (sock st)) 60"
    "ext_timeout b \<longrightarrow> bit d 57 = bit (sock_htc (sock st)) 57" "flags_ok d"
proof -
  let ?body = "avail_add_body b (write_avail_condition (sock st)) delta dead"
  obtain d r where t: "?body (sock_htc (sock st)) = CasTry d r"
    using assms(1) by (auto simp: avail_add_body_def timed_out_def Let_def)
  note e = avail_add_effect[OF t assms(2) BUF_fits[OF assms(3)]]
  then show ?thesis using socket_cas_sock[of ?body st d] t
    by (intro that[of d]) (auto simp: schedi_job_epollsocket_avail_add_def recomputed_def flags_ok_def)
qed

lemma wrapped_position:
  assumes "t < BUF" "m \<le> BUF" "BUF \<le> t + m"
  shows "(t + m) mod BUF = m - (BUF - t)"
  using assms by (auto simp: mod_if)

lemma socket_kept [simp]:
  "sock (schedi_job_epollsocket_epoll_activator b st) = sock st"
  "wire (schedi_job_epollsocket_epoll_activator b st) = wire st"
  by (simp_all add: schedi_job_epollsocket_epoll_activator_def Let_def)

lemma add_frame [simp]:
  "wire (schedi_job_epollsocket_count_add b st delta dead) = wire st"
  "wire (schedi_job_epollsocket_avail_add b st delta dead) = wire st"
  "wire (schedi_job_epollsocket_dead b st) = wire st"
  by (simp_all add: schedi_job_epollsocket_count_add_def schedi_job_epollsocket_avail_add_def
      schedi_job_epollsocket_dead_def)

subsection \<open>Reading\<close>

lemma read_result:
  assumes "length (read_buffer (sock st)) = BUF" "read_tail (sock st) < BUF" "cnt b (sock_htc (sock st)) \<le> BUF"
    and "m = min (cnt b (sock_htc (sock st))) n" "schedi_job_epollsocket_read b st n = (data, st')"
  shows "data = ring_slice (read_buffer (sock st)) (read_tail (sock st)) m"
    and "sock st' = (sock (schedi_job_epollsocket_count_add b st (- int m) False))\<lparr>read_tail := (read_tail (sock st) + m) mod BUF\<rparr>"
    and "wire st' = wire st"
proof -
  let ?k = "sock st"
  define tl where "tl = (read_tail ?k + m) mod BUF"
  have pieces: "(if BUF \<le> m + read_tail ?k
      then let fread = BUF - read_tail ?k; rest_read = m - fread
           in (take fread (drop (read_tail ?k) (read_buffer ?k)) @ take rest_read (read_buffer ?k), rest_read)
      else (take m (drop (read_tail ?k) (read_buffer ?k)), read_tail ?k + m))
    = (ring_slice (read_buffer ?k) (read_tail ?k) m, tl)"
    using assms(1-4) slice_two_pieces[of "read_tail ?k" "read_buffer ?k" m] wrapped_position[of "read_tail ?k" m]
      slice_one_piece[of "read_tail ?k" m "read_buffer ?k"]
    by (auto simp: tl_def add.commute)
  have cn: "nat (int x) = x" for x by simp
  from assms(5) show "data = ring_slice (read_buffer ?k) (read_tail ?k) m"
    "sock st' = (sock (schedi_job_epollsocket_count_add b st (- int m) False))\<lparr>read_tail := (read_tail ?k + m) mod BUF\<rparr>"
    "wire st' = wire st"
    unfolding schedi_job_epollsocket_read_def Let_def count_from_cnt cn assms(4)[symmetric]
      pieces[unfolded Let_def] prod.case tl_def[symmetric]
    by auto
qed

lemma read_effect:
  assumes "sock_ok b (sock st)" "\<not> timed_out b (sock st)"
    and "schedi_job_epollsocket_read b st n = (data, st')"
  shows "data = take n (incoming b (sock st))" "incoming b (sock st') = drop n (incoming b (sock st))"
    and "outgoing b (sock st') = outgoing b (sock st)" "wire st' = wire st"
    and "sock_ok b (sock st')" "\<not> timed_out b (sock st')"
proof -
  let ?k = "sock st"
  let ?h = "sock_htc ?k"
  define c where "c = cnt b ?h"
  define m where "m = min c n"
  have ok: "length (read_buffer ?k) = BUF" "read_tail ?k < BUF" "c \<le> BUF" "m \<le> c"
    "read_head ?k = (read_tail ?k + c) mod BUF"
    using assms(1) by (simp_all add: sock_ok_def c_def m_def)
  have delta: "int (cnt b ?h) + - int m = int (c - m)" using ok(4) by (simp add: c_def)
  obtain d where d: "sock (schedi_job_epollsocket_count_add b st (- int m) False) = ?k\<lparr>sock_htc := d\<rparr>"
    "cnt b d = c - m" "avl b d = avl b ?h" "bit d 60 \<longleftrightarrow> unat (read_count_condition ?k) \<le> c - m"
    "bit d 61 = bit ?h 61" "recomputed ?h d False"
    by (rule count_add_sock[OF assms(2) delta, of False]) (use ok in simp)
  define tl where "tl = (read_tail ?k + m) mod BUF"
  have st': "data = ring_slice (read_buffer ?k) (read_tail ?k) m"
    "sock st' = ?k\<lparr>sock_htc := d, read_tail := tl\<rparr>" "wire st' = wire st"
    using read_result[OF ok(1-3)[unfolded c_def] m_def[unfolded c_def] assms(3)] d(1) by (simp_all add: tl_def)
  have mn: "take n (ring_slice (read_buffer ?k) (read_tail ?k) c) = ring_slice (read_buffer ?k) (read_tail ?k) m"
    "drop n (ring_slice (read_buffer ?k) (read_tail ?k) c) = ring_slice (read_buffer ?k) tl (c - m)"
    using ring_slice_take[OF ok(4), of "read_buffer ?k" "read_tail ?k"]
      ring_slice_drop[OF ok(4), of "read_buffer ?k" "read_tail ?k"] ok(1)
    by (auto simp: m_def min_def tl_def)
  show "data = take n (incoming b ?k)" using st'(1) mn by (simp add: incoming_def c_def)
  show "incoming b (sock st') = drop n (incoming b ?k)"
    using st'(2) mn d(2) by (simp add: incoming_def c_def)
  show "outgoing b (sock st') = outgoing b ?k" using st'(2) d(3) by (simp add: outgoing_def)
  show "wire st' = wire st" by (fact st'(3))
  have "(tl + (c - m)) mod BUF = (read_tail ?k + c) mod BUF"
    unfolding tl_def by (rule ring_advance[OF ok(4)])
  then show "sock_ok b (sock st')"
    using assms(1) st'(2) d ok recomputed_flags[OF d(6)] by (simp add: sock_ok_def socket_flag_iff tl_def)
  show "\<not> timed_out b (sock st')"
    using assms(2) st'(2) d(6) by (simp add: timed_out_def socket_flag_iff recomputed_def)
qed

subsection \<open>Writing\<close>

text \<open>The copy into a ring with \<open>m\<close> bytes in it, in one piece or two.\<close>

lemma ring_copy_in:
  assumes "length buf = BUF" "t < BUF" "length data \<le> BUF - m" "m \<le> BUF"
    and "h = (t + m) mod BUF" "f = min (length data) (BUF - h)"
    and "(buf', h') = (if BUF \<le> h + length data
        then (memcpy_at (memcpy_at buf h (take f data)) 0 (take (length data - f) (drop f data)), length data - f)
        else (memcpy_at buf h (take f data), h + f))"
  shows "length buf' = BUF" "ring_slice buf' t (m + length data) = ring_slice buf t m @ data"
    and "h' = (t + (m + length data)) mod BUF" "ring_put buf h data buf'" "h' = (h + length data) mod BUF"
proof -
  have h: "h < BUF" using assms(5) by simp
  have nh: "(t + (m + length data)) mod BUF = (h + length data) mod BUF"
    unfolding assms(5) by (simp add: mod_add_left_eq add.assoc)
  have "ring_put buf h data buf' \<and> h' = (h + length data) mod BUF"
  proof (cases "BUF \<le> h + length data")
    case True
    then have "f = BUF - h" using assms(6) by simp
    with True assms(1,3,7) h put_two_pieces[of h buf data] wrapped_position[of h "length data"]
    show ?thesis by simp
  next
    case False
    then have "f = length data" using assms(6) by simp
    with False assms(1,7) h put_one_piece[of h data buf] show ?thesis by simp
  qed
  then have p: "ring_put buf h data buf'" and h': "h' = (h + length data) mod BUF" by auto
  show "length buf' = BUF" using p assms(1) by (simp add: ring_put_def)
  show "ring_slice buf' t (m + length data) = ring_slice buf t m @ data"
    using p assms(1,3-5) by (intro ring_put_slice) simp_all
  show "h' = (t + (m + length data)) mod BUF" using h' nh by simp
  show "ring_put buf h data buf'" "h' = (h + length data) mod BUF" by (fact p h')+
qed

lemma write_buffer_data_effect:
  assumes "sock_ok b (sock st)" "\<not> timed_out b (sock st)"
    and "schedi_job_epollsocket_write_buffer_data b st data = (tot, st')"
  shows "tot = min (length data) (avl b (sock_htc (sock st)))"
    and "outgoing b (sock st') = outgoing b (sock st) @ take tot data"
    and "incoming b (sock st') = incoming b (sock st)" "wire st' = wire st"
    and "sock_ok b (sock st')" "\<not> timed_out b (sock st')"
    and "ring_put (write_buffer (sock st)) (write_head (sock st)) (take tot data) (write_buffer (sock st'))"
    and "write_head (sock st') = (write_head (sock st) + tot) mod BUF"
proof -
  let ?k = "sock st"
  let ?h = "sock_htc ?k"
  define a where "a = avl b ?h"
  define w where "w = min (length data) a"
  define dat where "dat = take w data"
  define f where "f = min w (BUF - write_head ?k)"
  have ok: "length (write_buffer ?k) = BUF" "write_tail ?k < BUF" "a \<le> BUF" "w \<le> a" "length dat = w"
    "write_head ?k = (write_tail ?k + (BUF - a)) mod BUF"
    using assms(1) by (simp_all add: sock_ok_def a_def w_def dat_def)
  have fw: "f \<le> w" by (simp add: f_def)
  have tk: "take f data = take f dat" "take (w - f) (drop f data) = take (w - f) (drop f dat)"
    using fw by (simp_all add: dat_def min_def drop_take)
  obtain buf' h' where bh: "(buf', h') = (if BUF \<le> write_head ?k + w
        then (memcpy_at (memcpy_at (write_buffer ?k) (write_head ?k) (take f dat)) 0
               (take (w - f) (drop f dat)), w - f)
        else (memcpy_at (write_buffer ?k) (write_head ?k) (take f dat), write_head ?k + f))"
    by (metis surj_pair)
  have "length dat \<le> BUF - (BUF - a)" using ok by simp
  note c = ring_copy_in[OF ok(1,2) this diff_le_self ok(6), of f buf' h', unfolded ok(5), OF f_def bh]
  let ?st1 = "st\<lparr>sock := ?k\<lparr>write_buffer := buf', write_head := h'\<rparr>\<rparr>"
  have sum: "f + (w - f) = w" "\<not> BUF \<le> write_head ?k + w \<Longrightarrow> f = w" using fw by (auto simp: f_def)
  have an: "nat (int a) = a" by simp
  have res: "(tot, st') = (w, schedi_job_epollsocket_avail_add b ?st1 (- int w) False)"
    using assms(3)[symmetric] bh sum
    unfolding schedi_job_epollsocket_write_buffer_data_def Let_def avail_from_avl a_def[symmetric] an
      w_def[symmetric] f_def[symmetric] tk
    by (auto split: if_splits)
  have delta: "int (avl b (sock_htc (sock ?st1))) + - int w = int (a - w)" using ok(4) by (simp add: a_def)
  have nt: "\<not> timed_out b (sock ?st1)" using assms(2) by (simp add: timed_out_def)
  obtain d where d: "sock (schedi_job_epollsocket_avail_add b ?st1 (- int w) False) = (sock ?st1)\<lparr>sock_htc := d\<rparr>"
    "avl b d = a - w" "cnt b d = cnt b ?h" "bit d 61 \<longleftrightarrow> unat (write_avail_condition ?k) \<le> a - w"
    "bit d 60 = bit ?h 60" "ext_timeout b \<longrightarrow> bit d 57 = bit ?h 57" "flags_ok d"
    by (rule avail_add_sock[OF nt delta, of False]) (use ok in simp_all)
  have s': "sock st' = ?k\<lparr>write_buffer := buf', write_head := h', sock_htc := d\<rparr>" "tot = w" "wire st' = wire st"
    using res d(1) by simp_all
  have pend: "BUF - (a - w) = (BUF - a) + w" using ok by simp
  show "tot = min (length data) (avl b ?h)" using s'(2) by (simp add: w_def a_def)
  show "outgoing b (sock st') = outgoing b ?k @ take tot data"
    using c(2) s' d(2) pend by (simp add: outgoing_def a_def dat_def)
  show "incoming b (sock st') = incoming b ?k" using s' d(3) by (simp add: incoming_def)
  show "wire st' = wire st" by (fact s'(3))
  show "sock_ok b (sock st')"
    using assms(1) s'(1) d c(1,3) pend ok by (simp add: sock_ok_def socket_flag_iff)
  show "\<not> timed_out b (sock st')" using assms(2) s'(1) d(6) by (simp add: timed_out_def socket_flag_iff)
  show "ring_put (write_buffer ?k) (write_head ?k) (take tot data) (write_buffer (sock st'))"
    "write_head (sock st') = (write_head ?k + tot) mod BUF"
    using c(4,5) s'(1,2) by (simp_all add: dat_def)
qed

text \<open>A socket that dies keeps its rings.\<close>

lemma socket_or_fields:
  assumes "\<And>n. bit flags n \<Longrightarrow> 58 \<le> n"
  shows "cnt b (h OR flags) = cnt b h" "avl b (h OR flags) = avl b h"
proof -
  have "(h OR flags) AND mask (shift b) = h AND mask (shift b)"
    "drop_bit (shift b) (h OR flags) AND mask (shift b) = drop_bit (shift b) h AND mask (shift b)"
    using shift_bounds(2)[of b]
    by (intro bit_word_eqI; auto simp: bit_and_iff bit_or_iff bit_mask_word bit_drop_bit_eq dest!: assms)+
  then show "cnt b (h OR flags) = cnt b h" "avl b (h OR flags) = avl b h"
    by (simp_all add: cnt_def avl_def)
qed

lemma dead_effect:
  assumes "sock_ok b (sock st)"
  shows "incoming b (sock (schedi_job_epollsocket_dead b st)) = incoming b (sock st)"
    and "outgoing b (sock (schedi_job_epollsocket_dead b st)) = outgoing b (sock st)"
    and "sock_ok b (sock (schedi_job_epollsocket_dead b st))"
    and "timed_out b (sock (schedi_job_epollsocket_dead b st)) = timed_out b (sock st)"
    and "has_flag (sock_htc (sock (schedi_job_epollsocket_dead b st))) SCHEDI_JOB_EPOLLSOCKET_DEAD"
    and "has_flag (sock_htc (sock (schedi_job_epollsocket_dead b st))) SCHEDI_JOB_EPOLLSOCKET_READY"
proof -
  let ?f = "SCHEDI_JOB_EPOLLSOCKET_DEAD OR SCHEDI_JOB_EPOLLSOCKET_READY"
  let ?d = "sock_htc (sock st) OR ?f"
  have s: "sock (schedi_job_epollsocket_dead b st) = (sock st)\<lparr>sock_htc := ?d\<rparr>"
    unfolding schedi_job_epollsocket_dead_def
    by (rule socket_cas_sock[of _ _ _ "sock_htc (sock st)" ?d]) (simp add: socket_or_body_def Let_def)
  have f: "cnt b ?d = cnt b (sock_htc (sock st))" "avl b ?d = avl b (sock_htc (sock st))"
    by (rule socket_or_fields; auto simp: bit_or_iff bit_socket_flags)+
  show "incoming b (sock (schedi_job_epollsocket_dead b st)) = incoming b (sock st)"
    "outgoing b (sock (schedi_job_epollsocket_dead b st)) = outgoing b (sock st)"
    unfolding s by (simp_all add: incoming_def outgoing_def f)
  show "sock_ok b (sock (schedi_job_epollsocket_dead b st))"
    "timed_out b (sock (schedi_job_epollsocket_dead b st)) = timed_out b (sock st)"
    "has_flag (sock_htc (sock (schedi_job_epollsocket_dead b st))) SCHEDI_JOB_EPOLLSOCKET_DEAD"
    "has_flag (sock_htc (sock (schedi_job_epollsocket_dead b st))) SCHEDI_JOB_EPOLLSOCKET_READY"
    using assms unfolding s sock_ok_def timed_out_def socket_flag_iff
    by (simp_all add: f bit_or_iff bit_socket_flags flags_ok_def socket_ready_def)
qed

lemma outgoing_empty: "avl b (sock_htc k) = BUF \<Longrightarrow> outgoing b k = []"
  by (simp add: outgoing_def)

text \<open>The kernel takes at most what it is offered.\<close>

definition send_fits :: "nat \<Rightarrow> send_result \<Rightarrow> bool" where
  "send_fits n r = (case r of Sent m \<Rightarrow> m \<le> n | _ \<Rightarrow> True)"

definition recv_fits :: "nat \<Rightarrow> recv_result \<Rightarrow> bool" where
  "recv_fits n r = (case r of Got d \<Rightarrow> length d \<le> n | _ \<Rightarrow> True)"

lemma write_effect:
  assumes "sock_ok b (sock st)" "\<not> timed_out b (sock st)" "send_fits (length data) r"
    and "schedi_job_epollsocket_write b r st data = (ret, st')"
  shows "ret \<le> int (length data)"
    and "wire st' @ outgoing b (sock st') = wire st @ outgoing b (sock st) @ take (nat ret) data"
    and "incoming b (sock st') = incoming b (sock st)" "sock_ok b (sock st')" "\<not> timed_out b (sock st')"
    and "ret = -1 \<or> 0 \<le> ret"
proof -
  let ?k = "sock st"
  define emp where "emp = (schedi_job_epollsocket_avail_from b (sock_htc ?k) = int BUF)"
  have emp: "emp \<Longrightarrow> outgoing b ?k = []" by (simp add: emp_def avail_from_avl outgoing_empty)
  define n where "n = (if emp then (case r of Sent n \<Rightarrow> n | _ \<Rightarrow> 0) else 0)"
  define st1 where "st1 = st\<lparr>wire := wire st @ take n data\<rparr>"
  have n: "n \<le> length data" using assms(3) by (auto simp: n_def send_fits_def split: send_result.splits)
  have w: "wire st1 @ outgoing b (sock st1) = wire st @ outgoing b ?k @ take n data"
    using emp by (cases emp) (auto simp: st1_def n_def)
  have ok1: "sock_ok b (sock st1)" "\<not> timed_out b (sock st1)" using assms(1,2) by (simp_all add: st1_def)
  have all: "ret \<le> int (length data)
    \<and> wire st' @ outgoing b (sock st') = wire st @ outgoing b ?k @ take (nat ret) data
    \<and> incoming b (sock st') = incoming b ?k \<and> sock_ok b (sock st') \<and> \<not> timed_out b (sock st')
    \<and> (ret = -1 \<or> 0 \<le> ret)"
  proof (cases "emp \<and> r = SendError")
    case True
    with assms(4) have "ret = -1" "st' = schedi_job_epollsocket_dead b st"
      by (simp_all add: schedi_job_epollsocket_write_def Let_def emp_def)
    with assms(1,2) dead_effect[OF assms(1)] show ?thesis by simp
  next
    case False
    have wr: "(if drop n data \<noteq> [] then (case schedi_job_epollsocket_write_buffer_data b st1 (drop n data) of
        (ret, st2) \<Rightarrow> (int n + int ret, schedi_job_epollsocket_epoll_activator b st2))
      else (int n, st1)) = (ret, st')"
      using assms(4) False unfolding schedi_job_epollsocket_write_def Let_def st1_def n_def emp_def by simp
    show ?thesis
    proof (cases "drop n data = []")
      case True
      with wr have "ret = int n" "st' = st1" by simp_all
      with ok1 w n show ?thesis by (simp add: st1_def)
    next
      case ne: False
      obtain m st2 where m: "schedi_job_epollsocket_write_buffer_data b st1 (drop n data) = (m, st2)" by force
      note e = write_buffer_data_effect[OF ok1 m]
      have r: "ret = int n + int m" "sock st' = sock st2" "wire st' = wire st2"
        using wr ne m by (auto simp: schedi_job_epollsocket_epoll_activator_def Let_def)
      have "m \<le> length data - n" using e(1) by simp
      moreover have "take (n + m) data = take n data @ take m (drop n data)" by (rule take_add)
      ultimately show ?thesis using e r w n by (auto simp: st1_def nat_add_distrib)
    qed
  qed
  then show "ret \<le> int (length data)"
    "wire st' @ outgoing b (sock st') = wire st @ outgoing b ?k @ take (nat ret) data"
    "incoming b (sock st') = incoming b ?k" "sock_ok b (sock st')" "\<not> timed_out b (sock st')"
    "ret = -1 \<or> 0 \<le> ret" by simp_all
qed

subsection \<open>Flushing the write ring\<close>

lemma wrapped_first:
  assumes "t < BUF" "f = min m (BUF - t)" "f < m"
  shows "(t + f) mod BUF = 0" "m - f \<le> t + m - BUF" "f = BUF - t"
  using assms by (auto simp: min_def split: if_splits)

lemma flush_pieces:
  assumes "length buf = BUF" "t < BUF" "m \<le> BUF" "f = min m (BUF - t)"
    and "send_fits f (Sent s)" "send_fits (m - f) r2"
    and "(tot, tail2, dead, w2) =
      (if s = f \<and> f < m
       then (case r2 of
               Sent rest \<Rightarrow> if rest > 0 then (s + rest, rest, False, take rest buf)
                            else (s, (t + s) mod BUF, False, [])
             | SendAgain \<Rightarrow> (s, (t + s) mod BUF, False, [])
             | SendError \<Rightarrow> (s, (t + s) mod BUF, True, []))
       else (s, (t + s) mod BUF, False, []))"
  shows "tot \<le> m" "tail2 = (t + tot) mod BUF" "take s (drop t buf) @ w2 = ring_slice buf t tot"
proof -
  have s: "s \<le> f" "t + s \<le> length buf"
    using assms(1,2,4,5) less_or_eq_imp_le[of t BUF] by (simp_all add: send_fits_def le_diff_conv2)
  have one: "take s (drop t buf) = ring_slice buf t s" by (rule slice_one_piece[OF s(2)])
  have all: "tot \<le> m \<and> tail2 = (t + tot) mod BUF \<and> take s (drop t buf) @ w2 = ring_slice buf t tot"
  proof (cases "\<exists>rest > 0. s = f \<and> f < m \<and> r2 = Sent rest")
    case True
    then obtain rest where r: "rest > 0" "s = f" "f < m" "r2 = Sent rest" by blast
    note w = wrapped_first[OF assms(2,4) r(3)]
    have le: "rest \<le> m - f" using assms(6) r(4) by (simp add: send_fits_def)
    then have lt: "rest < BUF" using w(3) assms(2,3) by simp
    have eq: "tot = f + rest" "tail2 = rest" "w2 = take rest buf" using assms(7) r by simp_all
    have "(t + (f + rest)) mod BUF = rest"
      using w(3) assms(2) lt by simp
    moreover have "take rest buf = ring_slice buf 0 rest"
      using slice_one_piece[of 0 rest buf] lt assms(1) by simp
    ultimately show ?thesis
      using eq le r one ring_slice_append[of buf t f rest] w(1) assms(1) by simp
  next
    case False
    then have "tot = s" "tail2 = (t + s) mod BUF" "w2 = []"
      using assms(7) by (cases r2; force split: if_splits)+
    with s one assms(4) show ?thesis by simp
  qed
  then show "tot \<le> m" "tail2 = (t + tot) mod BUF" "take s (drop t buf) @ w2 = ring_slice buf t tot"
    by simp_all
qed

text \<open>What the kernel may answer to the two sends of a flush and to the two receives of a fill.\<close>

definition flush_fits :: "build \<Rightarrow> epollsocket \<Rightarrow> send_result \<Rightarrow> send_result \<Rightarrow> bool" where
  "flush_fits b k r1 r2 =
     (let m = BUF - avl b (sock_htc k); f = min m (BUF - write_tail k)
      in send_fits f r1 \<and> send_fits (m - f) r2)"

definition fill_fits :: "build \<Rightarrow> epollsocket \<Rightarrow> recv_result \<Rightarrow> recv_result \<Rightarrow> bool" where
  "fill_fits b k r1 r2 =
     (let m = BUF - cnt b (sock_htc k); f = min m (BUF - read_head k)
      in recv_fits f r1 \<and> recv_fits (m - f) r2)"

lemma write_return_effect:
  assumes "sock_ok b (sock st)" "\<not> timed_out b (sock st)" "flush_fits b (sock st) r1 r2"
    and "schedi_job_epollsocket_write_return b r1 r2 st = (ret, st')"
  shows "wire st' @ outgoing b (sock st') = wire st @ outgoing b (sock st)"
    and "incoming b (sock st') = incoming b (sock st)" "sock_ok b (sock st')" "\<not> timed_out b (sock st')"
proof -
  let ?k = "sock st"
  let ?h = "sock_htc ?k"
  let ?t = "write_tail ?k"
  define m where "m = BUF - avl b ?h"
  define f where "f = min m (BUF - ?t)"
  have ok: "length (write_buffer ?k) = BUF" "?t < BUF" "m \<le> BUF" "avl b ?h \<le> BUF"
    "write_head ?k = (?t + m) mod BUF"
    using assms(1) by (simp_all add: sock_ok_def m_def)
  have fits: "send_fits f r1" "send_fits (m - f) r2"
    using assms(3) by (simp_all add: flush_fits_def Let_def m_def f_def)
  have an: "nat (int (avl b ?h)) = avl b ?h" by simp
  note wr = assms(4)[unfolded schedi_job_epollsocket_write_return_def Let_def avail_from_avl an, folded m_def, folded f_def]
  note de = dead_effect[OF assms(1)]
  have all: "wire st' @ outgoing b (sock st') = wire st @ outgoing b ?k
    \<and> incoming b (sock st') = incoming b ?k \<and> sock_ok b (sock st') \<and> \<not> timed_out b (sock st')"
  proof (cases "m \<noteq> 0 \<and> (\<exists>s. r1 = Sent s)")
    case False
    then have "st' = st \<or> st' = schedi_job_epollsocket_dead b st"
      using wr by (auto split: if_splits send_result.splits)
    then show ?thesis using de assms(1,2) by (auto simp: schedi_job_epollsocket_dead_def)
  next
    case True
    then obtain s where s: "m \<noteq> 0" "r1 = Sent s" by blast
    define X where "X =
      (if s = f \<and> f < m
       then (case r2 of
               Sent rest \<Rightarrow> if rest > 0 then (s + rest, rest, False, take rest (write_buffer ?k))
                            else (s, (?t + s) mod BUF, False, [])
             | SendAgain \<Rightarrow> (s, (?t + s) mod BUF, False, [])
             | SendError \<Rightarrow> (s, (?t + s) mod BUF, True, []))
       else (s, (?t + s) mod BUF, False, []))"
    obtain tot tail2 dead w2 where X: "(tot, tail2, dead, w2) = X" by (cases X) auto
    note q = X[unfolded X_def]
    note fp = flush_pieces[OF ok(1,2,3) f_def fits(1)[unfolded s(2)] fits(2) q]
    define st0 where "st0 = st\<lparr>wire := wire st @ take s (drop ?t (write_buffer ?k)) @ w2\<rparr>"
    have st': "st' = (let st1 = schedi_job_epollsocket_avail_add b st0 (int tot) dead
        in st1\<lparr>sock := (sock st1)\<lparr>write_tail := tail2\<rparr>\<rparr>)"
      using wr s q[symmetric] by (simp add: st0_def Let_def)
    have nt: "\<not> timed_out b (sock st0)" using assms(2) by (simp add: st0_def)
    have delta: "int (avl b (sock_htc (sock st0))) + int tot = int (avl b ?h + tot)" by (simp add: st0_def)
    obtain d where d: "sock (schedi_job_epollsocket_avail_add b st0 (int tot) dead) = (sock st0)\<lparr>sock_htc := d\<rparr>"
      "avl b d = avl b ?h + tot" "cnt b d = cnt b ?h"
      "bit d 61 \<longleftrightarrow> unat (write_avail_condition ?k) \<le> avl b ?h + tot" "bit d 60 = bit ?h 60"
      "ext_timeout b \<longrightarrow> bit d 57 = bit ?h 57" "flags_ok d"
      by (rule avail_add_sock[OF nt delta, of dead]) (use fp(1) ok m_def in \<open>simp_all add: st0_def\<close>)
    have s': "sock st' = ?k\<lparr>sock_htc := d, write_tail := tail2\<rparr>"
      "wire st' = wire st @ ring_slice (write_buffer ?k) ?t tot"
      using st' d(1) fp(3) by (simp_all add: Let_def st0_def schedi_job_epollsocket_avail_add_def)
    have pend: "BUF - (avl b ?h + tot) = m - tot" and m_le: "avl b ?h + tot \<le> BUF"
      using fp(1) ok(4) by (simp_all add: m_def)
    have "outgoing b ?k = ring_slice (write_buffer ?k) ?t tot @ ring_slice (write_buffer ?k) tail2 (m - tot)"
      using ring_slice_append[of "write_buffer ?k" ?t tot "m - tot"] fp(1,2) ok(1)
      by (simp add: outgoing_def m_def[symmetric])
    moreover have "(tail2 + (m - tot)) mod BUF = (?t + m) mod BUF"
      unfolding fp(2) by (rule ring_advance[OF fp(1)])
    moreover have "tail2 < BUF" using fp(2) by simp
    ultimately have "wire st' @ outgoing b (sock st') = wire st @ outgoing b ?k" "sock_ok b (sock st')"
      using assms(1) s' d pend ok(3-5) fp(1) m_le
      by (simp_all add: outgoing_def sock_ok_def socket_flag_iff m_def[symmetric])
    moreover have "incoming b (sock st') = incoming b ?k" using s'(1) d(3) by (simp add: incoming_def)
    moreover have "\<not> timed_out b (sock st')" using assms(2) s'(1) d(6) by (auto simp: timed_out_def socket_flag_iff)
    ultimately show ?thesis by simp
  qed
  then show "wire st' @ outgoing b (sock st') = wire st @ outgoing b ?k" "incoming b (sock st') = incoming b ?k"
    "sock_ok b (sock st')" "\<not> timed_out b (sock st')" by simp_all
qed

subsection \<open>Filling the read ring\<close>

fun recv_bytes :: "recv_result \<Rightarrow> u8 list" where
  "recv_bytes (Got d) = d"
| "recv_bytes _ = []"

text \<open>The bytes that the two receives of a fill put into the ring.\<close>

definition arrived :: "build \<Rightarrow> epollsocket \<Rightarrow> recv_result \<Rightarrow> recv_result \<Rightarrow> u8 list" where
  "arrived b k r1 r2 =
     (let m = BUF - cnt b (sock_htc k); f = min m (BUF - read_head k)
      in if m = 0 then []
         else recv_bytes r1 @ (if length (recv_bytes r1) = f \<and> f < m then recv_bytes r2 else []))"

lemma fill_pieces:
  assumes "length buf = BUF" "t < BUF" "c \<le> BUF" "h = (t + c) mod BUF" "f = min (BUF - c) (BUF - h)"
    and "length d1 \<le> f" "length d2 \<le> BUF - c - f" "d2 \<noteq> [] \<Longrightarrow> length d1 = f \<and> f < BUF - c"
    and "buf1 = memcpy_at buf h d1"
  shows "length (if d2 = [] then buf1 else memcpy_at buf1 0 d2) = BUF"
    and "ring_slice (if d2 = [] then buf1 else memcpy_at buf1 0 d2) t (c + length (d1 @ d2))
      = ring_slice buf t c @ d1 @ d2"
    and "(if d2 = [] then (h + length d1) mod BUF else length d2) = (t + (c + length (d1 @ d2))) mod BUF"
proof -
  have h: "h < BUF" "h + length d1 \<le> BUF" using assms(4,5,6) mod_less_divisor[OF BUF_pos, of "t + c"] by linarith+
  have p1: "ring_put buf ((t + c) mod length buf) d1 buf1"
    unfolding assms(1,9) assms(4)[symmetric] using h assms(1) by (intro put_one_piece) simp_all
  have l1: "length buf1 = BUF" using p1 assms(1) by (simp add: ring_put_def)
  have c1: "c + length d1 \<le> BUF" using assms(3,5,6) by linarith
  have s1: "ring_slice buf1 t (c + length d1) = ring_slice buf t c @ d1"
    using p1 c1 assms(1) by (intro ring_put_slice) simp_all
  have n1: "(h + length d1) mod BUF = (t + (c + length d1)) mod BUF"
    unfolding assms(4) by (simp add: mod_add_left_eq add.assoc)
  show "length (if d2 = [] then buf1 else memcpy_at buf1 0 d2) = BUF"
    using l1 assms(3,7) by simp
  show "ring_slice (if d2 = [] then buf1 else memcpy_at buf1 0 d2) t (c + length (d1 @ d2))
      = ring_slice buf t c @ d1 @ d2"
    "(if d2 = [] then (h + length d1) mod BUF else length d2) = (t + (c + length (d1 @ d2))) mod BUF"
  proof (atomize (full), cases "d2 = []")
    case False
    with assms(8) have f: "length d1 = f" "f < BUF - c" by simp_all
    then have wrap: "h + length d1 = BUF" using assms(5) h by linarith
    then have pos: "(t + (c + length d1)) mod BUF = 0" using n1 by simp
    have d2: "length d2 < BUF" using assms(7) f wrap h assms(3) False
      by (cases d1) (auto simp: Suc_le_eq)
    have "ring_put buf1 ((t + (c + length d1)) mod length buf1) d2 (memcpy_at buf1 0 d2)"
      unfolding l1 pos using d2 l1 by (intro put_one_piece) simp_all
    then have "ring_slice (memcpy_at buf1 0 d2) t (c + length d1 + length d2) = ring_slice buf1 t (c + length d1) @ d2"
      using assms(7) f c1 l1 by (intro ring_put_slice) simp_all
    moreover have "(t + (c + length d1) + length d2) mod BUF = length d2"
      using pos d2 by (simp add: mod_add_left_eq[symmetric, of "t + (c + length d1)"])
    ultimately show "ring_slice (if d2 = [] then buf1 else memcpy_at buf1 0 d2) t (c + length (d1 @ d2))
        = ring_slice buf t c @ d1 @ d2 \<and>
      (if d2 = [] then (h + length d1) mod BUF else length d2) = (t + (c + length (d1 @ d2))) mod BUF"
      using False s1 by (simp add: add.assoc)
  qed (use s1 n1 in simp)
qed

text \<open>The two receives of \<^verbatim>\<open>schedi_job_epollsocket_read_return\<close>, as one outcome.\<close>

lemma read_return_cases:
  assumes "schedi_job_epollsocket_read_return b r1 r2 st = (ret, st')" "sock_ok b (sock st)"
    and "m = BUF - cnt b (sock_htc (sock st))" "f = min m (BUF - read_head (sock st))"
  obtains (idle) "arrived b (sock st) r1 r2 = []" "st' = st \<or> st' = schedi_job_epollsocket_dead b st"
  | (filled) d1 d2 dead buf1 where "arrived b (sock st) r1 r2 = d1 @ d2" "r1 = Got d1"
      "d2 \<noteq> [] \<Longrightarrow> r2 = Got d2 \<and> length d1 = f \<and> f < m"
      "buf1 = memcpy_at (read_buffer (sock st)) (read_head (sock st)) d1"
      "st' = (let st2 = schedi_job_epollsocket_count_add b
                 (st\<lparr>sock := (sock st)\<lparr>read_buffer := if d2 = [] then buf1 else memcpy_at buf1 0 d2\<rparr>\<rparr>)
                 (int (length (d1 @ d2))) dead
              in st2\<lparr>sock := (sock st2)\<lparr>read_head :=
                   if d2 = [] then (read_head (sock st) + length d1) mod BUF else length d2\<rparr>\<rparr>)"
proof (cases "m = 0 \<or> recv_bytes r1 = []")
  case True
  have cn: "nat (int x) = x" for x by simp
  have "read_head (sock st) < BUF" using assms(2) by (simp add: sock_ok_def)
  then have "f = 0 \<Longrightarrow> m = 0" using assms(4) by simp
  moreover have "arrived b (sock st) r1 r2 = (if m = 0 then []
      else recv_bytes r1 @ (if length (recv_bytes r1) = f \<and> f < m then recv_bytes r2 else []))"
    unfolding arrived_def Let_def assms(3,4) ..
  ultimately have "arrived b (sock st) r1 r2 = []" using True by (cases "m = 0") (simp, cases "f = 0", simp_all)
  moreover have "st' = st \<or> st' = schedi_job_epollsocket_dead b st"
    using True assms(1) unfolding schedi_job_epollsocket_read_return_def Let_def count_from_cnt cn assms(3)[symmetric]
    by (cases r1) (auto split: if_splits)
  ultimately show ?thesis by (rule idle)
next
  case False
  then obtain d1 where d1: "r1 = Got d1" "d1 \<noteq> []" "m \<noteq> 0" by (cases r1) auto
  define d2 where "d2 = (if length d1 = f \<and> f < m then recv_bytes r2 else [])"
  define dead where "dead \<longleftrightarrow> length d1 = f \<and> f < m \<and> (r2 = Got [] \<or> r2 = RecvError)"
  have cn: "nat (int x) = x" for x by simp
  show ?thesis
  proof (rule filled[of d1 d2 _ dead])
    show "arrived b (sock st) r1 r2 = d1 @ d2"
      unfolding arrived_def Let_def assms(3)[symmetric] assms(4)[symmetric] d2_def using d1 by simp
    show "d2 \<noteq> [] \<Longrightarrow> r2 = Got d2 \<and> length d1 = f \<and> f < m"
      by (cases r2) (auto simp: d2_def split: if_splits)
    show "st' = (let st2 = schedi_job_epollsocket_count_add b
                 (st\<lparr>sock := (sock st)\<lparr>read_buffer := if d2 = []
                    then memcpy_at (read_buffer (sock st)) (read_head (sock st)) d1
                    else memcpy_at (memcpy_at (read_buffer (sock st)) (read_head (sock st)) d1) 0 d2\<rparr>\<rparr>)
                 (int (length (d1 @ d2))) dead
              in st2\<lparr>sock := (sock st2)\<lparr>read_head :=
                   if d2 = [] then (read_head (sock st) + length d1) mod BUF else length d2\<rparr>\<rparr>)"
      using d1 assms(1) unfolding schedi_job_epollsocket_read_return_def Let_def count_from_cnt cn assms(3)[symmetric]
        assms(4)[symmetric]
      by (cases r2) (auto simp: d2_def dead_def split: if_splits)
  qed (use d1 in simp_all)
qed

lemma read_return_effect:
  assumes "sock_ok b (sock st)" "\<not> timed_out b (sock st)" "fill_fits b (sock st) r1 r2"
    and "schedi_job_epollsocket_read_return b r1 r2 st = (ret, st')"
  shows "incoming b (sock st') = incoming b (sock st) @ arrived b (sock st) r1 r2"
    and "outgoing b (sock st') = outgoing b (sock st)" "wire st' = wire st"
    and "sock_ok b (sock st')" "\<not> timed_out b (sock st')"
proof -
  let ?k = "sock st"
  let ?h = "sock_htc ?k"
  define c where "c = cnt b ?h"
  define m where "m = BUF - cnt b ?h"
  define f where "f = min m (BUF - read_head ?k)"
  have ok: "length (read_buffer ?k) = BUF" "read_tail ?k < BUF" "c \<le> BUF" "read_head ?k = (read_tail ?k + c) mod BUF"
    using assms(1) by (simp_all add: sock_ok_def c_def)
  have f': "f = min (BUF - c) (BUF - read_head ?k)" by (simp add: f_def m_def c_def)
  have all: "incoming b (sock st') = incoming b ?k @ arrived b ?k r1 r2 \<and> outgoing b (sock st') = outgoing b ?k
    \<and> wire st' = wire st \<and> sock_ok b (sock st') \<and> \<not> timed_out b (sock st')"
  proof (rule read_return_cases[OF assms(4,1) m_def f_def])
    assume "arrived b ?k r1 r2 = []" "st' = st \<or> st' = schedi_job_epollsocket_dead b st"
    then show ?thesis using dead_effect[OF assms(1)] assms(1,2) by (auto simp: schedi_job_epollsocket_dead_def)
  next
    fix d1 d2 dead buf1
    assume r: "arrived b ?k r1 r2 = d1 @ d2" "r1 = Got d1"
      "d2 \<noteq> [] \<Longrightarrow> r2 = Got d2 \<and> length d1 = f \<and> f < m" "buf1 = memcpy_at (read_buffer ?k) (read_head ?k) d1"
      and st': "st' = (let st2 = schedi_job_epollsocket_count_add b
                 (st\<lparr>sock := ?k\<lparr>read_buffer := if d2 = [] then buf1 else memcpy_at buf1 0 d2\<rparr>\<rparr>)
                 (int (length (d1 @ d2))) dead
              in st2\<lparr>sock := (sock st2)\<lparr>read_head :=
                   if d2 = [] then (read_head ?k + length d1) mod BUF else length d2\<rparr>\<rparr>)"
    define dd where "dd = d1 @ d2"
    define buf2 where "buf2 = (if d2 = [] then buf1 else memcpy_at buf1 0 d2)"
    have fits: "recv_fits f r1" "recv_fits (BUF - c - f) r2"
      using assms(3) by (simp_all add: fill_fits_def Let_def f' c_def)
    then have l: "length d1 \<le> f" "length d2 \<le> BUF - c - f"
      using r(2,3) by (simp add: recv_fits_def, cases "d2 = []") (simp_all add: recv_fits_def)
    have r3: "d2 \<noteq> [] \<Longrightarrow> length d1 = f \<and> f < BUF - c" using r(3) by (simp add: m_def c_def)
    note fp = fill_pieces[OF ok f' l r3 r(4), folded buf2_def dd_def, simplified]
    have sum: "c + length dd \<le> BUF" using l ok(3) min.cobounded1[of "BUF - c" "BUF - read_head ?k", folded f'] unfolding dd_def length_append by linarith
    let ?st1 = "st\<lparr>sock := ?k\<lparr>read_buffer := buf2\<rparr>\<rparr>"
    have nt: "\<not> timed_out b (sock ?st1)" using assms(2) by (simp add: timed_out_def)
    have delta: "int (cnt b (sock_htc (sock ?st1))) + int (length dd) = int (c + length dd)" by (simp add: c_def)
    obtain d where d: "sock (schedi_job_epollsocket_count_add b ?st1 (int (length dd)) dead) = (sock ?st1)\<lparr>sock_htc := d\<rparr>"
      "cnt b d = c + length dd" "avl b d = avl b ?h"
      "bit d 60 \<longleftrightarrow> unat (read_count_condition ?k) \<le> c + length dd" "bit d 61 = bit ?h 61" "recomputed ?h d dead"
      by (rule count_add_sock[OF nt delta sum, of dead]) simp_all
    define hd2 where "hd2 = (if d2 = [] then (read_head ?k + length d1) mod BUF else length d2)"
    have hd2: "hd2 = (read_tail ?k + (c + length dd)) mod BUF" using fp(3) by (simp only: hd2_def)
    have s': "sock st' = ?k\<lparr>read_buffer := buf2, sock_htc := d, read_head := hd2\<rparr>" "wire st' = wire st"
      using st'[folded buf2_def dd_def hd2_def] d(1) by (simp_all add: Let_def count_add_wire)
    have "incoming b (sock st') = incoming b ?k @ arrived b ?k r1 r2"
      using s'(1) d(2) fp(2) r(1) by (simp add: incoming_def c_def[symmetric] dd_def)
    moreover have "sock_ok b (sock st')"
      using assms(1) s'(1) d fp(1) sum hd2 recomputed_flags[OF d(6)] by (simp add: sock_ok_def socket_flag_iff)
    moreover have "outgoing b (sock st') = outgoing b ?k" using s'(1) d(3) by (simp add: outgoing_def)
    moreover have "\<not> timed_out b (sock st')"
      using assms(2) s'(1) d(6) by (auto simp: timed_out_def socket_flag_iff recomputed_def)
    ultimately show ?thesis using s'(2) by simp
  qed
  then show "incoming b (sock st') = incoming b ?k @ arrived b ?k r1 r2"
    "outgoing b (sock st') = outgoing b ?k" "wire st' = wire st" "sock_ok b (sock st')" "\<not> timed_out b (sock st')"
    by simp_all
qed

end
