(* ===== verification/Epoll.thy ===== *)
theory Epoll
  imports Epoll_Socket
begin

text \<open>
  The epoll side of \<^verbatim>\<open>src/src/epoll.c\<close> and the operations of \<^verbatim>\<open>src/src/jobs.c\<close> that
  register descriptors: the wrappers around \<^verbatim>\<open>epoll_ctl\<close>, one-time requests,
  creation and re-registration of epoll sockets, the two event handlers and the
  drain loops. The kernel is the argument \<open>ctl\<close>: its answer to a call, given
  every call made before. Pointers to sockets and to \<^verbatim>\<open>struct schedi_epoll_data\<close> are
  keys of two heaps, where a freed object is \<open>None\<close>; the results of \<^verbatim>\<open>malloc\<close>, of
  \<^verbatim>\<open>timerfd_create\<close> and of \<^verbatim>\<open>timerfd_settime\<close> are arguments.
\<close>

section \<open>Calls of the kernel\<close>

datatype ep_instance = EpRead | EpWrite

datatype ctl_call =
    CtlAdd ep_instance int u32 nat
  | CtlMod ep_instance int u32 nat
  | CtlDel ep_instance int

type_synonym ctl_history = "(ctl_call \<times> int) list"
type_synonym kernel = "ctl_history \<Rightarrow> ctl_call \<Rightarrow> int"

datatype epoll_data =
    EpollDataNone
  | EpollDataJob epoll_request
  | EpollDataSocket nat
  | EpollDataSockTo nat

record ep_state =
  ep_sys :: jobsys
  socks :: "nat \<Rightarrow> epollsocket option"
  edata :: "nat \<Rightarrow> epoll_data option"
  ctl_log :: ctl_history
  timer_sets :: "(int \<times> int) list"
  wires :: "nat \<Rightarrow> u8 list"
  closed_fds :: "int list"

definition epoll_ctl :: "kernel \<Rightarrow> ep_state \<Rightarrow> ctl_call \<Rightarrow> int \<times> ep_state" where
  "epoll_ctl ctl st c =
     (let r = ctl (ctl_log st) c in (r, st\<lparr>ctl_log := ctl_log st @ [(c, r)]\<rparr>))"

definition free_data :: "ep_state \<Rightarrow> nat \<Rightarrow> ep_state" where
  "free_data st d = st\<lparr>edata := (edata st)(d := None)\<rparr>"

definition schedi_epoll_del :: "kernel \<Rightarrow> ep_state \<Rightarrow> int \<Rightarrow> ep_state" where
  "schedi_epoll_del ctl st fd =
     snd (epoll_ctl ctl (snd (epoll_ctl ctl st (CtlDel EpRead fd))) (CtlDel EpWrite fd))"

definition schedi_epoll_del_read :: "kernel \<Rightarrow> ep_state \<Rightarrow> int \<Rightarrow> ep_state" where
  "schedi_epoll_del_read ctl st fd = snd (epoll_ctl ctl st (CtlDel EpRead fd))"

definition schedi_epoll_del_write :: "kernel \<Rightarrow> ep_state \<Rightarrow> int \<Rightarrow> ep_state" where
  "schedi_epoll_del_write ctl st fd = snd (epoll_ctl ctl st (CtlDel EpWrite fd))"

definition schedi_epoll_del_socketcompletely :: "build \<Rightarrow> kernel \<Rightarrow> ep_state \<Rightarrow> epollsocket \<Rightarrow> ep_state" where
  "schedi_epoll_del_socketcompletely b ctl st k =
     (let st1 = schedi_epoll_del ctl st (sock_fd k)
      in if ext_timeout b then schedi_epoll_del_read ctl st1 (to_timer_fd k) else st1)"

text \<open>\<open>added\<close> is the instance that the failure path takes the descriptor out of.\<close>

definition schedi_epoll_add :: "kernel \<Rightarrow> ep_state \<Rightarrow> int \<Rightarrow> nat \<Rightarrow> u32 \<Rightarrow> int \<times> ep_state" where
  "schedi_epoll_add ctl st fd data events =
     (let (fail1, added, st1) =
        (if events AND EPOLLIN \<noteq> 0
         then let (r, s1) = epoll_ctl ctl st (CtlAdd EpRead fd (events AND NOT EPOLLOUT) data)
              in (r < 0, if r < 0 then None else Some EpRead, s1)
         else (False, None, st));
          (fail, st2) =
        (if fail1 then (True, st1)
         else if events AND EPOLLOUT \<noteq> 0
         then let (r, s2) = epoll_ctl ctl st1 (CtlAdd EpWrite fd (events AND NOT EPOLLIN) data)
              in (r < 0, s2)
         else (False, st1))
      in if fail
         then (-1, free_data (case added of
                 None \<Rightarrow> st2
               | Some i \<Rightarrow> snd (epoll_ctl ctl st2 (CtlDel i fd))) data)
         else (0, st2))"

definition schedi_epoll_mod :: "kernel \<Rightarrow> ep_state \<Rightarrow> int \<Rightarrow> nat \<Rightarrow> u32 \<Rightarrow> int \<times> ep_state" where
  "schedi_epoll_mod ctl st fd data events =
     (let (r1, st1) =
        (if events AND EPOLLIN \<noteq> 0
         then epoll_ctl ctl st (CtlMod EpRead fd (events AND NOT EPOLLOUT) data) else (0, st));
          (r2, st2) =
        (if events AND EPOLLOUT \<noteq> 0
         then epoll_ctl ctl st1 (CtlMod EpWrite fd (events AND NOT EPOLLIN) data) else (0, st1))
      in (r1 OR r2, st2))"

section \<open>One-time requests\<close>

text \<open>
  \<^verbatim>\<open>schedi_job_tool_epoll\<close>; \<open>req_mem\<close> says whether the request could be allocated
  and \<open>data_mem\<close> is the address of the data, if that could.
\<close>

definition schedi_job_tool_epoll ::
  "build \<Rightarrow> kernel \<Rightarrow> bool \<Rightarrow> nat option \<Rightarrow> ep_state \<Rightarrow> nat \<Rightarrow> int \<Rightarrow> u32 \<Rightarrow> int \<times> ep_state" where
  "schedi_job_tool_epoll b ctl req_mem data_mem st job socketfd events =
     (if \<not> req_mem then (-1, st)
      else
        let req = \<lparr>req_socketfd = socketfd, req_owner = job, req_job_gen = gen (jobs (ep_sys st) job),
                   req_list = job\<rparr>;
            s1 = upd_job job (\<lambda>x. x\<lparr>total_req := total_req x + 1\<rparr>) (ep_sys st);
            (r, s2) = schedi_job_meta_flag_cas_update b s1 job 0 1 0 0 0 False
        in if r \<noteq> 0 then (-4, st\<lparr>ep_sys := s2\<rparr>)
           else
             let undo = (\<lambda>s. snd (schedi_job_meta_flag_cas_update b s job 0 (-1) 0 0 0 False))
             in (case data_mem of
                   None \<Rightarrow> (-2, st\<lparr>ep_sys := undo s2\<rparr>)
                 | Some d \<Rightarrow>
                     let (a, st1) = schedi_epoll_add ctl (st\<lparr>ep_sys := s2,
                           edata := (edata st)(d \<mapsto> EpollDataJob req)\<rparr>) socketfd d events
                     in if a < 0 then (-3, st1\<lparr>ep_sys := undo (ep_sys st1)\<rparr>) else (0, st1)))"

section \<open>Registration of sockets\<close>

text \<open>\<open>r\<close> is what \<^verbatim>\<open>timerfd_settime\<close> returns.\<close>

definition schedi_job_epollsocket_timeout_reset :: "int \<Rightarrow> ep_state \<Rightarrow> epollsocket \<Rightarrow> int \<times> ep_state" where
  "schedi_job_epollsocket_timeout_reset r st k =
     (r, st\<lparr>timer_sets := timer_sets st @ [(to_timer_fd k, timeout_sec k)]\<rparr>)"

definition schedi_job_epollsocket_timeout_stop :: "int \<Rightarrow> ep_state \<Rightarrow> epollsocket \<Rightarrow> int \<times> ep_state" where
  "schedi_job_epollsocket_timeout_stop r st k =
     (r, st\<lparr>timer_sets := timer_sets st @ [(to_timer_fd k, 0)]\<rparr>)"

definition schedi_job_epollsocket_push_epoll ::
  "kernel \<Rightarrow> nat \<Rightarrow> ep_state \<Rightarrow> nat \<Rightarrow> epollsocket \<Rightarrow> int \<times> ep_state" where
  "schedi_job_epollsocket_push_epoll ctl d st p k =
     schedi_epoll_add ctl (st\<lparr>edata := (edata st)(d \<mapsto> EpollDataSocket p),
         socks := (socks st)(p \<mapsto> k\<lparr>data_ptr := d\<rparr>)\<rparr>)
       (sock_fd k) d (EPOLLIN OR EPOLLOUT OR EPOLLONESHOT)"

definition schedi_job_epollsocket_timer_push_epoll ::
  "kernel \<Rightarrow> nat \<Rightarrow> ep_state \<Rightarrow> nat \<Rightarrow> epollsocket \<Rightarrow> int \<times> ep_state" where
  "schedi_job_epollsocket_timer_push_epoll ctl d st p k =
     (if to_timer_fd k < 0 then (-1, st)
      else
        let (r, st1) = schedi_epoll_add ctl (st\<lparr>edata := (edata st)(d \<mapsto> EpollDataSockTo p)\<rparr>)
              (to_timer_fd k) d EPOLLIN
        in (if r < 0 then -1 else 0, st1))"

text \<open>
  \<open>sets\<close> are the results of stopping and of starting the timer, \<open>ds\<close> the addresses
  of the timer's and of the socket's data; the state has the socket \<open>k\<close> at \<open>p\<close>.
\<close>

definition schedi_job_epollsocket_epollisize ::
  "build \<Rightarrow> kernel \<Rightarrow> int \<times> int \<Rightarrow> nat \<times> nat \<Rightarrow> ep_state \<Rightarrow> nat \<Rightarrow> epollsocket \<Rightarrow> int \<times> ep_state" where
  "schedi_job_epollsocket_epollisize b ctl sets ds st p k =
     (let fail_timer_push = (\<lambda>s. (-1, s));
          fail_epoll_push = (\<lambda>s. fail_timer_push
            (if ext_timeout b then schedi_epoll_del_read ctl s (to_timer_fd k) else s));
          fail_timeout_reset = (\<lambda>s. fail_epoll_push (schedi_epoll_del ctl s (sock_fd k)));
          (r1, st1) = (if ext_timeout b then schedi_job_epollsocket_timeout_stop (fst sets) st k else (0, st))
      in if r1 \<noteq> 0 then fail_epoll_push st1
         else
           let (r2, st2) = (if ext_timeout b
                 then schedi_job_epollsocket_timer_push_epoll ctl (fst ds) st1 p k else (0, st1))
           in if r2 \<noteq> 0 then fail_timer_push st2
              else
                let (r3, st3) = schedi_job_epollsocket_push_epoll ctl (snd ds) st2 p k
                in if r3 \<noteq> 0 then fail_epoll_push st3
                   else
                     let (r4, st4) = (if ext_timeout b
                           then schedi_job_epollsocket_timeout_reset (snd sets) st3 k else (0, st3))
                     in if r4 \<noteq> 0 then fail_timeout_reset st4 else (0, st4))"

text \<open>
  A socket as the constructor fills it in; \<open>bufs\<close> is what the allocated buffers
  happen to hold.
\<close>

definition new_epollsocket ::
  "build \<Rightarrow> nat \<Rightarrow> u64 \<Rightarrow> int \<Rightarrow> u32 \<Rightarrow> u32 \<Rightarrow> u8 list \<times> u8 list \<Rightarrow> epollsocket" where
  "new_epollsocket b job g fd rc wc bufs =
     (let htc = push_bit (SCHEDI_JOB_EPOLLSOCKET_AVAIL_SHIFT b) (word_of_nat SCHEDI_JOB_EPOLLSOCKET_BUFFERSIZE);
          read_ready = rc \<le> word_of_int (schedi_job_epollsocket_count_from b htc);
          write_ready = wc \<le> word_of_int (schedi_job_epollsocket_avail_from b htc);
          des_htc = htc
            OR (if read_ready then SCHEDI_JOB_EPOLLSOCKET_READ_READY else 0)
            OR (if write_ready then SCHEDI_JOB_EPOLLSOCKET_WRITE_READY else 0)
            OR (if read_ready \<and> write_ready then SCHEDI_JOB_EPOLLSOCKET_READY else 0)
      in \<lparr>sock_job = job, sock_gen = g, sock_fd = fd, sock_htc = des_htc,
          read_head = 0, read_tail = 0, read_buffer = fst bufs, read_count_condition = rc,
          write_head = 0, write_tail = 0, write_buffer = snd bufs, write_avail_condition = wc,
          fall = 2, data_ptr = 0, timeout_sec = 0, to_timer_fd = -1\<rparr>)"

definition close_fd :: "ep_state \<Rightarrow> int \<Rightarrow> ep_state" where
  "close_fd st fd = st\<lparr>closed_fds := closed_fds st @ [fd]\<rparr>"

text \<open>
  \<^verbatim>\<open>schedi_job_tool_epollsocket\<close>: \<open>tfd\<close> is what \<^verbatim>\<open>timerfd_create\<close> returns and \<open>p\<close> the
  address of the new socket. The result is whether the socket was made.
\<close>

definition schedi_job_tool_epollsocket ::
  "build \<Rightarrow> kernel \<Rightarrow> int \<Rightarrow> int \<times> int \<Rightarrow> nat \<times> nat \<Rightarrow> u8 list \<times> u8 list \<Rightarrow> nat \<Rightarrow> ep_state
    \<Rightarrow> nat \<Rightarrow> int \<Rightarrow> u32 \<Rightarrow> u32 \<Rightarrow> int \<Rightarrow> nat option \<times> ep_state" where
  "schedi_job_tool_epollsocket b ctl tfd sets ds bufs p st job fd rc wc sec =
     (let k = new_epollsocket b job (gen (jobs (ep_sys st) job)) fd rc wc bufs;
          ready = has_flag (sock_htc k) SCHEDI_JOB_EPOLLSOCKET_READY;
          upd = (\<lambda>delta s. if ready
             then s\<lparr>ep_sys := snd (schedi_job_meta_flag_cas_update b (ep_sys s) job delta 0 0 0 0 False)\<rparr>
             else s);
          k' = (if ext_timeout b then k\<lparr>timeout_sec := sec, to_timer_fd := tfd\<rparr> else k);
          st1 = upd 1 (st\<lparr>socks := (socks st)(p \<mapsto> k'), wires := (wires st)(p := [])\<rparr>);
          fail = (\<lambda>s. let s' = upd (-1) s in (None, s'\<lparr>socks := (socks s')(p := None)\<rparr>))
      in if ext_timeout b \<and> tfd = -1 then fail st1
         else
           let (r, st2) = schedi_job_epollsocket_epollisize b ctl sets ds st1 p k'
           in if r \<noteq> 0 then fail (if ext_timeout b then close_fd st2 tfd else st2)
              else (Some p, st2))"

section \<open>Socket operations on the heap\<close>

text \<open>
  An operation on the socket \<open>k\<close> at \<open>p\<close>. Its calls of \<^verbatim>\<open>schedi_epoll_mod\<close> come last in
  each of these operations and their results are not used.
\<close>

definition on_socket ::
  "kernel \<Rightarrow> ep_state \<Rightarrow> nat \<Rightarrow> epollsocket \<Rightarrow> (sock_state \<Rightarrow> 'r \<times> sock_state) \<Rightarrow> 'r \<times> ep_state" where
  "on_socket ctl st p k f =
     (let (r, v) = f \<lparr>sock = k, sys = ep_sys st, epoll_mods = [], timer_resets = 0, wire = wires st p\<rparr>;
          st1 = st\<lparr>ep_sys := sys v, socks := (socks st)(p \<mapsto> sock v), wires := (wires st)(p := wire v),
            timer_sets := timer_sets st @ replicate (timer_resets v) (to_timer_fd k, timeout_sec k)\<rparr>
      in (r, fold (\<lambda>ev s. snd (schedi_epoll_mod ctl s (sock_fd k) (data_ptr k) ev)) (epoll_mods v) st1))"

text \<open>\<^verbatim>\<open>schedi_job_epollsocket_done_\<close> with the release of the memory.\<close>

definition epollsocket_done_at ::
  "build \<Rightarrow> kernel \<Rightarrow> ep_state \<Rightarrow> nat \<Rightarrow> epollsocket \<Rightarrow> bool \<Rightarrow> int \<times> ep_state" where
  "epollsocket_done_at b ctl st p k epollside =
     (let (r, st1) = on_socket ctl st p k (\<lambda>v. schedi_job_epollsocket_done_side b v epollside)
      in (r, if r = 0 then st1\<lparr>socks := (socks st1)(p := None)\<rparr> else st1))"

text \<open>
  \<^verbatim>\<open>schedi_job_epollsocket_epollagain\<close> of a build with timeouts; without them the
  function is an assertion that fails.
\<close>

definition schedi_job_epollsocket_epollagain ::
  "build \<Rightarrow> kernel \<Rightarrow> int \<times> int \<Rightarrow> nat \<times> nat \<Rightarrow> ep_state \<Rightarrow> nat \<Rightarrow> epollsocket \<Rightarrow> int \<times> ep_state" where
  "schedi_job_epollsocket_epollagain b ctl sets ds st p k =
     (let (r, st1) = on_socket ctl st p k (schedi_job_epollsocket_untimeout b)
      in if r \<noteq> 0 then (-1, st1)
         else
           let k1 = (the (socks st1 p))\<lparr>fall := fall (the (socks st1 p)) + 1\<rparr>;
               (r2, st2) = schedi_job_epollsocket_epollisize b ctl sets ds
                 (st1\<lparr>socks := (socks st1)(p \<mapsto> k1)\<rparr>) p k1
           in if r2 \<noteq> 0
              then (-1, snd (epollsocket_done_at b ctl st2 p (the (socks st2 p)) True))
              else (0, st2))"

section \<open>The event handlers\<close>

text \<open>An event, with what the kernel answers to the receives and sends made for it.\<close>

record ep_event =
  ev_events :: u32
  ev_data :: "nat option"
  ev_recv :: "recv_result \<times> recv_result"
  ev_send :: "send_result \<times> send_result"

text \<open>A handler returns, waits forever for access to a job, or uses a freed object.\<close>

datatype 'a outcome = Returns 'a | Spins | BadPointer

definition handle_job_event ::
  "build \<Rightarrow> kernel \<Rightarrow> ep_state \<Rightarrow> nat \<Rightarrow> epoll_request \<Rightarrow> u32 \<Rightarrow> ep_state outcome" where
  "handle_job_event b ctl st d req events =
     (let st1 = schedi_epoll_del ctl st (req_socketfd req)
      in (case schedi_job_epoll_request_return b (ep_sys st1) req (events AND (EPOLLERR OR EPOLLHUP) \<noteq> 0) of
            None \<Rightarrow> Spins
          | Some (_, s) \<Rightarrow> Returns (free_data (st1\<lparr>ep_sys := s\<rparr>) d)))"

text \<open>The end of a registration: out of the kernel's lists, data freed, reference given up.\<close>

definition drop_socket :: "build \<Rightarrow> kernel \<Rightarrow> ep_state \<Rightarrow> nat \<Rightarrow> nat \<Rightarrow> epollsocket \<Rightarrow> ep_state" where
  "drop_socket b ctl st d p k =
     snd (epollsocket_done_at b ctl (free_data (schedi_epoll_del_socketcompletely b ctl st k) d) p k True)"

definition handle_socket_event ::
  "build \<Rightarrow> kernel \<Rightarrow> ep_state \<Rightarrow> nat \<Rightarrow> nat \<Rightarrow> ep_event \<Rightarrow> ep_state outcome" where
  "handle_socket_event b ctl st d p ev =
     (case socks st p of
        None \<Rightarrow> BadPointer
      | Some k \<Rightarrow>
          let (r, st1) = on_socket ctl st p k
                (\<lambda>v. schedi_job_epollsocket_return b (ev_recv ev) (ev_send ev) v (ev_events ev))
          in Returns (if r \<noteq> 0 then drop_socket b ctl st1 d p (the (socks st1 p)) else st1))"

definition handle_timeout_event :: "build \<Rightarrow> kernel \<Rightarrow> ep_state \<Rightarrow> nat \<Rightarrow> nat \<Rightarrow> ep_state outcome" where
  "handle_timeout_event b ctl st d p =
     (case socks st p of
        None \<Rightarrow> BadPointer
      | Some k \<Rightarrow>
          if has_flag (sock_htc k) SCHEDI_JOB_EPOLLSOCKET_READY
          then Returns (snd (schedi_job_epollsocket_timeout_reset 0 st k))
          else
            let st1 = snd (on_socket ctl st p k (\<lambda>v. ((), schedi_job_epollsocket_timeout_cas b v)))
            in Returns (drop_socket b ctl st1 d p (the (socks st1 p))))"

definition schedi_epoll_handle_read :: "build \<Rightarrow> kernel \<Rightarrow> ep_state \<Rightarrow> ep_event \<Rightarrow> ep_state outcome" where
  "schedi_epoll_handle_read b ctl st ev =
     (case ev_data ev of
        None \<Rightarrow> Returns st
      | Some d \<Rightarrow>
          (case edata st d of
             None \<Rightarrow> BadPointer
           | Some (EpollDataJob req) \<Rightarrow> handle_job_event b ctl st d req (ev_events ev)
           | Some (EpollDataSocket p) \<Rightarrow> handle_socket_event b ctl st d p ev
           | Some (EpollDataSockTo p) \<Rightarrow>
               if ext_timeout b then handle_timeout_event b ctl st d p else Returns (free_data st d)
           | Some EpollDataNone \<Rightarrow> Returns (free_data st d)))"

definition schedi_epoll_handle_write :: "build \<Rightarrow> kernel \<Rightarrow> ep_state \<Rightarrow> ep_event \<Rightarrow> ep_state outcome" where
  "schedi_epoll_handle_write b ctl st ev =
     (case ev_data ev of
        None \<Rightarrow> Returns st
      | Some d \<Rightarrow>
          (case edata st d of
             None \<Rightarrow> BadPointer
           | Some (EpollDataJob req) \<Rightarrow> handle_job_event b ctl st d req (ev_events ev)
           | Some (EpollDataSocket p) \<Rightarrow> handle_socket_event b ctl st d p ev
           | Some _ \<Rightarrow> Returns (free_data st d)))"

text \<open>
  The drain loops: \<open>waits\<close> are the answers of \<^verbatim>\<open>epoll_wait\<close>, and the first one
  without an event ends the loop.
\<close>

fun handle_events :: "(ep_state \<Rightarrow> ep_event \<Rightarrow> ep_state outcome) \<Rightarrow> ep_event list \<Rightarrow> ep_state \<Rightarrow> ep_state outcome" where
  "handle_events h [] st = Returns st"
| "handle_events h (e # es) st =
     (case h st e of Returns st' \<Rightarrow> handle_events h es st' | Spins \<Rightarrow> Spins | BadPointer \<Rightarrow> BadPointer)"

fun drain :: "(ep_state \<Rightarrow> ep_event \<Rightarrow> ep_state outcome) \<Rightarrow> ep_event list list \<Rightarrow> ep_state \<Rightarrow> ep_state outcome" where
  "drain h [] st = Returns st"
| "drain h (es # waits) st =
     (if es = [] then Returns st
      else (case handle_events h es st of
              Returns st' \<Rightarrow> drain h waits st' | Spins \<Rightarrow> Spins | BadPointer \<Rightarrow> BadPointer))"

definition schedi_epoll_drain_read :: "build \<Rightarrow> kernel \<Rightarrow> ep_event list list \<Rightarrow> ep_state \<Rightarrow> ep_state outcome" where
  "schedi_epoll_drain_read b ctl waits st = drain (schedi_epoll_handle_read b ctl) waits st"

definition schedi_epoll_drain_write :: "build \<Rightarrow> kernel \<Rightarrow> ep_event list list \<Rightarrow> ep_state \<Rightarrow> ep_state outcome" where
  "schedi_epoll_drain_write b ctl waits st = drain (schedi_epoll_handle_write b ctl) waits st"

text \<open>A state without sockets and requests.\<close>

definition ep_start :: ep_state where
  "ep_start = \<lparr>ep_sys = static_jobsys, socks = (\<lambda>_. None), edata = (\<lambda>_. None), ctl_log = [], timer_sets = [],
     wires = (\<lambda>_. []), closed_fds = []\<rparr>"

end
