(* ===== verification/Epoll_Registry.thy ===== *)
theory Epoll_Registry
  imports Epoll
begin

text \<open>
  What is registered with the kernel, and that the objects an event leads to are
  still allocated when the event is handled. The interest lists are those that
  the answered calls describe; what is documented of \<^verbatim>\<open>epoll_ctl\<close> and used here is the
  contract \<open>epoll_kernel\<close>.
\<close>

section \<open>The interest lists\<close>

type_synonym registry = "ep_instance \<Rightarrow> int \<Rightarrow> (u32 \<times> nat) option"

fun ctl_effect :: "registry \<Rightarrow> ctl_call \<times> int \<Rightarrow> registry" where
  "ctl_effect m (CtlAdd i fd ev d, r) = (if 0 \<le> r then m(i := (m i)(fd \<mapsto> (ev, d))) else m)"
| "ctl_effect m (CtlMod i fd ev d, r) = (if 0 \<le> r then m(i := (m i)(fd \<mapsto> (ev, d))) else m)"
| "ctl_effect m (CtlDel i fd, r) = (if 0 \<le> r then m(i := (m i)(fd := None)) else m)"

definition interest :: "ctl_history \<Rightarrow> registry" where
  "interest h = foldl ctl_effect (\<lambda>_ _. None) h"

abbreviation reg :: "ep_state \<Rightarrow> registry" where
  "reg st \<equiv> interest (ctl_log st)"

lemma interest_snoc: "interest (h @ [c]) = ctl_effect (interest h) c"
  by (simp add: interest_def)

lemma reg_epoll_ctl: "reg (snd (epoll_ctl ctl st c)) = ctl_effect (reg st) (c, ctl (ctl_log st) c)"
  by (simp add: epoll_ctl_def Let_def interest_snoc)

lemma reg_ctl_add:
  "reg (snd (epoll_ctl ctl st (CtlAdd i fd ev d))) =
    (if 0 \<le> ctl (ctl_log st) (CtlAdd i fd ev d) then (reg st)(i := (reg st i)(fd \<mapsto> (ev, d))) else reg st)"
  by (simp add: reg_epoll_ctl)

text \<open>The calls change nothing but the history.\<close>

lemma epoll_ctl_frame [simp]:
  "ep_sys (snd (epoll_ctl ctl st c)) = ep_sys st" "socks (snd (epoll_ctl ctl st c)) = socks st"
  "edata (snd (epoll_ctl ctl st c)) = edata st" "timer_sets (snd (epoll_ctl ctl st c)) = timer_sets st"
  "wires (snd (epoll_ctl ctl st c)) = wires st" "closed_fds (snd (epoll_ctl ctl st c)) = closed_fds st"
  "fst (epoll_ctl ctl st c) = ctl (ctl_log st) c"
  by (simp_all add: epoll_ctl_def Let_def)

lemma free_data_frame [simp]:
  "ep_sys (free_data st d) = ep_sys st" "socks (free_data st d) = socks st"
  "edata (free_data st d) = (edata st)(d := None)" "ctl_log (free_data st d) = ctl_log st"
  "wires (free_data st d) = wires st"
  by (simp_all add: free_data_def)

lemma del_frame [simp]:
  "ep_sys (schedi_epoll_del ctl st fd) = ep_sys st" "socks (schedi_epoll_del ctl st fd) = socks st"
  "edata (schedi_epoll_del ctl st fd) = edata st" "wires (schedi_epoll_del ctl st fd) = wires st"
  by (simp_all add: schedi_epoll_del_def)

lemma mod_frame [simp]:
  "ep_sys (snd (schedi_epoll_mod ctl st fd d ev)) = ep_sys st"
  "socks (snd (schedi_epoll_mod ctl st fd d ev)) = socks st"
  "edata (snd (schedi_epoll_mod ctl st fd d ev)) = edata st"
  "wires (snd (schedi_epoll_mod ctl st fd d ev)) = wires st"
  by (simp_all add: schedi_epoll_mod_def Let_def case_prod_beta)

section \<open>What is relied on of the kernel\<close>

text \<open>
  A descriptor is added only where it is not registered, changed only where it
  is, and a registered one can be taken out.
\<close>

locale epoll_kernel =
  fixes ctl :: kernel
  assumes add_new: "0 \<le> ctl h (CtlAdd i fd ev d) \<Longrightarrow> interest h i fd = None"
    and mod_registered: "0 \<le> ctl h (CtlMod i fd ev d) \<Longrightarrow> interest h i fd \<noteq> None"
    and del_registered: "interest h i fd \<noteq> None \<Longrightarrow> 0 \<le> ctl h (CtlDel i fd)"
begin

lemma reg_del_one:
  "reg (snd (epoll_ctl ctl st (CtlDel i fd))) = (reg st)(i := (reg st i)(fd := None))"
proof (cases "reg st i fd = None")
  case True
  then have "(reg st)(i := (reg st i)(fd := None)) = reg st" by (auto simp: fun_eq_iff)
  then show ?thesis by (simp add: reg_epoll_ctl)
qed (use del_registered in \<open>simp add: reg_epoll_ctl\<close>)

lemma reg_del: "reg (schedi_epoll_del ctl st fd) i x = (if x = fd then None else reg st i x)"
  by (cases i) (simp_all add: schedi_epoll_del_def reg_del_one)

lemma reg_add_success:
  assumes "schedi_epoll_add ctl st fd d ev = (0, st')"
  shows "reg st' i x = (if x = fd \<and> i = EpRead \<and> ev AND EPOLLIN \<noteq> 0 then Some (ev AND NOT EPOLLOUT, d)
    else if x = fd \<and> i = EpWrite \<and> ev AND EPOLLOUT \<noteq> 0 then Some (ev AND NOT EPOLLIN, d) else reg st i x)"
    and "ep_sys st' = ep_sys st" "socks st' = socks st" "edata st' = edata st"
  using assms
  by (auto simp: schedi_epoll_add_def Let_def case_prod_beta reg_epoll_ctl split: if_splits)

lemma reg_add_new:
  assumes "schedi_epoll_add ctl st fd d ev = (0, st')"
  shows "ev AND EPOLLIN \<noteq> 0 \<Longrightarrow> reg st EpRead fd = None" "ev AND EPOLLOUT \<noteq> 0 \<Longrightarrow> reg st EpWrite fd = None"
proof -
  show "reg st EpRead fd = None" if "ev AND EPOLLIN \<noteq> 0"
    using assms that add_new[of "ctl_log st" EpRead fd "ev AND NOT EPOLLOUT" d]
    by (auto simp: schedi_epoll_add_def Let_def case_prod_beta split: if_splits)
  let ?st1 = "snd (epoll_ctl ctl st (CtlAdd EpRead fd (ev AND NOT EPOLLOUT) d))"
  show "reg st EpWrite fd = None" if "ev AND EPOLLOUT \<noteq> 0"
    using assms that add_new[of "ctl_log st" EpWrite fd "ev AND NOT EPOLLIN" d]
      add_new[of "ctl_log ?st1" EpWrite fd "ev AND NOT EPOLLIN" d]
    by (auto simp: schedi_epoll_add_def Let_def case_prod_beta reg_ctl_add split: if_splits)
qed

lemma reg_add_failure:
  assumes "schedi_epoll_add ctl st fd d ev = (r, st')" "r \<noteq> 0"
  shows "r = -1" "reg st' = reg st" "edata st' = (edata st)(d := None)" "ep_sys st' = ep_sys st" "socks st' = socks st"
proof -
  show "r = -1" "edata st' = (edata st)(d := None)" "ep_sys st' = ep_sys st" "socks st' = socks st"
    using assms by (auto simp: schedi_epoll_add_def Let_def case_prod_beta split: if_splits)
  show "reg st' = reg st"
    using assms add_new[of "ctl_log st" EpRead fd "ev AND NOT EPOLLOUT" d]
    by (auto simp: schedi_epoll_add_def Let_def case_prod_beta reg_ctl_add reg_del_one fun_eq_iff split: if_splits)
qed

end

text \<open>A kernel that answers from its interest lists only.\<close>

fun plain_kernel :: kernel where
  "plain_kernel h (CtlAdd i fd ev d) = (if interest h i fd = None then 0 else -1)"
| "plain_kernel h (CtlMod i fd ev d) = (if interest h i fd = None then -1 else 0)"
| "plain_kernel h (CtlDel i fd) = (if interest h i fd = None then -1 else 0)"

interpretation plain: epoll_kernel plain_kernel
  by unfold_locales (auto split: if_splits)

section \<open>What socket operations leave alone\<close>

definition sock_id :: "epollsocket \<Rightarrow> int \<times> nat \<times> int" where
  "sock_id k = (sock_fd k, data_ptr k, to_timer_fd k)"

lemma sock_id_simps [simp]:
  "sock_id (k\<lparr>sock_htc := h\<rparr>) = sock_id k" "sock_id (k\<lparr>read_tail := n\<rparr>) = sock_id k"
  "sock_id (k\<lparr>read_head := n\<rparr>) = sock_id k" "sock_id (k\<lparr>write_tail := n\<rparr>) = sock_id k"
  "sock_id (k\<lparr>write_head := n\<rparr>) = sock_id k" "sock_id (k\<lparr>read_buffer := buf\<rparr>) = sock_id k"
  "sock_id (k\<lparr>write_buffer := buf\<rparr>) = sock_id k" "sock_id (k\<lparr>fall := i\<rparr>) = sock_id k"
  by (simp_all add: sock_id_def)

lemma socket_cas_id [simp]:
  "sock_id (sock (socket_cas b body st)) = sock_id (sock st)" "fall (sock (socket_cas b body st)) = fall (sock st)"
  by (simp_all add: socket_cas_def split: prod.split option.split)

lemmas socket_cas_ops = schedi_job_epollsocket_avail_add_def schedi_job_epollsocket_count_add_def
  schedi_job_epollsocket_dead_def schedi_job_epollsocket_done_cas_epollside_def
  schedi_job_epollsocket_done_cas_jobside_def schedi_job_epollsocket_timeout_cas_def

lemma activator_id [simp]: "sock (schedi_job_epollsocket_epoll_activator b st) = sock st"
  by (simp add: schedi_job_epollsocket_epoll_activator_def Let_def)

lemma write_return_id:
  "sock_id (sock (snd (schedi_job_epollsocket_write_return b r1 r2 st))) = sock_id (sock st)"
  "fall (sock (snd (schedi_job_epollsocket_write_return b r1 r2 st))) = fall (sock st)"
  by (cases r1; simp add: schedi_job_epollsocket_write_return_def Let_def socket_cas_ops case_prod_beta)+

lemma read_return_id:
  "sock_id (sock (snd (schedi_job_epollsocket_read_return b r1 r2 st))) = sock_id (sock st)"
  "fall (sock (snd (schedi_job_epollsocket_read_return b r1 r2 st))) = fall (sock st)"
  by (cases r1; simp add: schedi_job_epollsocket_read_return_def Let_def socket_cas_ops case_prod_beta)+

lemma return_id:
  "sock_id (sock (snd (schedi_job_epollsocket_return b rcv sd st ev))) = sock_id (sock st)"
  "fall (sock (snd (schedi_job_epollsocket_return b rcv sd st ev))) = fall (sock st)"
  by (simp_all add: schedi_job_epollsocket_return_def Let_def case_prod_beta socket_cas_ops
      read_return_id write_return_id)

lemma write_id:
  "sock_id (sock (snd (schedi_job_epollsocket_write b r st data))) = sock_id (sock st)"
  "fall (sock (snd (schedi_job_epollsocket_write b r st data))) = fall (sock st)"
  by (auto simp: schedi_job_epollsocket_write_def schedi_job_epollsocket_write_buffer_data_def Let_def
      socket_cas_ops case_prod_beta)

lemma read_id:
  "sock_id (sock (snd (schedi_job_epollsocket_read b st n))) = sock_id (sock st)"
  "fall (sock (snd (schedi_job_epollsocket_read b st n))) = fall (sock st)"
  by (auto simp: schedi_job_epollsocket_read_def Let_def socket_cas_ops case_prod_beta)

lemma done_side_id:
  "sock_id (sock (snd (schedi_job_epollsocket_done_side b st side))) = sock_id (sock st)"
  "fall (sock (snd (schedi_job_epollsocket_done_side b st side))) = fall (sock st) - 1"
  "fst (schedi_job_epollsocket_done_side b st side) = (if fall (sock st) = 1 then 0 else -1)"
  "epoll_mods (snd (schedi_job_epollsocket_done_side b st side)) = epoll_mods st"
  by (auto simp: schedi_job_epollsocket_done_side_def Let_def socket_cas_ops)

text \<open>A socket operation on the heap changes the entry of its descriptor at most, and only where there is one.\<close>

definition keeps_id :: "(sock_state \<Rightarrow> 'r \<times> sock_state) \<Rightarrow> bool" where
  "keeps_id f \<longleftrightarrow> (\<forall>v. sock_id (sock (snd (f v))) = sock_id (sock v) \<and> fall (sock (snd (f v))) = fall (sock v))"

lemma fold_mod_frame [simp]:
  "ep_sys (fold (\<lambda>ev s. snd (schedi_epoll_mod ctl s fd d ev)) evs st) = ep_sys st"
  "socks (fold (\<lambda>ev s. snd (schedi_epoll_mod ctl s fd d ev)) evs st) = socks st"
  "edata (fold (\<lambda>ev s. snd (schedi_epoll_mod ctl s fd d ev)) evs st) = edata st"
  "wires (fold (\<lambda>ev s. snd (schedi_epoll_mod ctl s fd d ev)) evs st) = wires st"
  by (induction evs arbitrary: st) simp_all

lemma on_socket_socks:
  "socks (snd (on_socket ctl st p k f)) = (socks st)(p \<mapsto> sock (snd (f \<lparr>sock = k, sys = ep_sys st,
     epoll_mods = [], timer_resets = 0, wire = wires st p\<rparr>)))"
  "edata (snd (on_socket ctl st p k f)) = edata st"
  by (simp_all add: on_socket_def Let_def case_prod_beta)

text \<open>Two registries that differ in the event masks of registrations with the data \<open>d\<close> of \<open>fd\<close> only.\<close>

definition remasked :: "int \<Rightarrow> nat \<Rightarrow> registry \<Rightarrow> registry \<Rightarrow> bool" where
  "remasked fd d m m' \<longleftrightarrow> (\<forall>i x. m' i x = m i x \<or> x = fd \<and> m i x \<noteq> None \<and> (\<exists>ev. m' i x = Some (ev, d)))"

lemma remasked_refl [simp]: "remasked fd d m m"
  by (simp add: remasked_def)

lemma remasked_trans: "remasked fd d m m' \<Longrightarrow> remasked fd d m' m'' \<Longrightarrow> remasked fd d m m''"
  unfolding remasked_def by metis

context epoll_kernel
begin

lemma remasked_mod: "remasked fd d (reg st) (reg (snd (schedi_epoll_mod ctl st fd d ev)))"
proof -
  have one: "remasked fd d (reg s) (reg (snd (epoll_ctl ctl s (CtlMod i fd e d))))" for s i e
    using mod_registered[of "ctl_log s" i fd e d] by (auto simp: remasked_def reg_epoll_ctl)
  show ?thesis
    by (auto simp: schedi_epoll_mod_def Let_def case_prod_beta intro: one remasked_trans)
qed

lemma remasked_fold: "remasked fd d (reg st) (reg (fold (\<lambda>ev s. snd (schedi_epoll_mod ctl s fd d ev)) evs st))"
  by (induction evs arbitrary: st) (auto intro: remasked_trans remasked_mod)

lemma remasked_on_socket: "remasked (sock_fd k) (data_ptr k) (reg st) (reg (snd (on_socket ctl st p k f)))"
proof -
  let ?v = "snd (f \<lparr>sock = k, sys = ep_sys st, epoll_mods = [], timer_resets = 0, wire = wires st p\<rparr>)"
  let ?st1 = "st\<lparr>ep_sys := sys ?v, socks := (socks st)(p \<mapsto> sock ?v), wires := (wires st)(p := wire ?v),
            timer_sets := timer_sets st @ replicate (timer_resets ?v) (to_timer_fd k, timeout_sec k)\<rparr>"
  have "remasked (sock_fd k) (data_ptr k) (reg ?st1) (reg (fold
      (\<lambda>ev s. snd (schedi_epoll_mod ctl s (sock_fd k) (data_ptr k) ev)) (epoll_mods ?v) ?st1))"
    by (rule remasked_fold)
  then show ?thesis by (simp add: on_socket_def Let_def case_prod_beta)
qed

end

text \<open>
  Registering a descriptor is all or nothing. \<^verbatim>\<open>schedi_epoll_add\<close> returns 0 after
  entering the descriptor, with the given data and only the events of that
  direction, in the list of every direction asked for; or it returns -1, has
  freed the data, and both lists are as they were, also when only the second
  registration failed.
\<close>

lemma epoll_add_all_or_nothing:
  assumes "epoll_kernel ctl" "schedi_epoll_add ctl st fd data events = (r, st')"
  shows "r = 0 \<and> edata st' = edata st
      \<and> (events AND EPOLLIN \<noteq> 0 \<longrightarrow> interest (ctl_log st') EpRead fd = Some (events AND NOT EPOLLOUT, data))
      \<and> (events AND EPOLLOUT \<noteq> 0 \<longrightarrow> interest (ctl_log st') EpWrite fd = Some (events AND NOT EPOLLIN, data))
      \<and> (\<forall>i x. x \<noteq> fd \<longrightarrow> interest (ctl_log st') i x = interest (ctl_log st) i x)
    \<or> r = -1 \<and> edata st' = (edata st)(data := None) \<and> interest (ctl_log st') = interest (ctl_log st)"
proof (cases "r = 0")
  case True
  with assms show ?thesis using epoll_kernel.reg_add_success[of ctl st fd data events st'] by simp
next
  case False
  with assms show ?thesis using epoll_kernel.reg_add_failure[of ctl st fd data events r st'] by simp
qed

text \<open>A descriptor that is registered for writing already: the second half fails and the first is undone.\<close>

definition half_registered :: ep_state where
  "half_registered = \<lparr>ep_sys = static_jobsys, socks = (\<lambda>_. None), edata = (\<lambda>_. None)(4 \<mapsto> EpollDataNone),
     ctl_log = [(CtlAdd EpWrite 9 EPOLLOUT 3, 0)], timer_sets = [], wires = (\<lambda>_. []), closed_fds = []\<rparr>"

end
