(* ===== verification/Epoll_Memory.thy ===== *)
theory Epoll_Memory
  imports Epoll_Registry
begin

text \<open>
  Memory safety of the epoll sockets in builds without timeouts: every object an
  event leads to is allocated, and a socket is allocated exactly as long as its
  job or the epoll side still refers to it. With timeouts the property is lost,
  as the last section shows.
\<close>

section \<open>References\<close>

text \<open>
  \<open>R\<close> gives the data that a descriptor is registered with, \<open>D\<close> the allocated data,
  \<open>S\<close> descriptor, data and reference count of the allocated sockets, and \<open>H\<close> the
  sockets that jobs hold.
\<close>

definition on_epoll :: "(ep_instance \<Rightarrow> int \<Rightarrow> nat option) \<Rightarrow> (nat \<Rightarrow> epoll_data option) \<Rightarrow> nat \<Rightarrow> bool" where
  "on_epoll R D p \<longleftrightarrow> (\<exists>i fd d. R i fd = Some d \<and> D d = Some (EpollDataSocket p))"

definition data_live :: "(nat \<Rightarrow> epoll_data option) \<Rightarrow> (nat \<Rightarrow> (int \<times> nat \<times> int) option) \<Rightarrow> int \<Rightarrow> nat \<Rightarrow> bool" where
  "data_live D S fd d = (case D d of
       Some (EpollDataJob req) \<Rightarrow> req_socketfd req = fd
     | Some (EpollDataSocket p) \<Rightarrow> (\<exists>f. S p = Some (fd, d, f))
     | _ \<Rightarrow> False)"

definition ep_inv ::
  "(ep_instance \<Rightarrow> int \<Rightarrow> nat option) \<Rightarrow> (nat \<Rightarrow> epoll_data option) \<Rightarrow> (nat \<Rightarrow> (int \<times> nat \<times> int) option)
    \<Rightarrow> nat set \<Rightarrow> bool" where
  "ep_inv R D S H \<longleftrightarrow> (\<forall>i fd d. R i fd = Some d \<longrightarrow> data_live D S fd d)
     \<and> (\<forall>p fd d f. S p = Some (fd, d, f) \<longrightarrow>
          0 < f \<and> f = of_bool (p \<in> H) + of_bool (on_epoll R D p))
     \<and> (\<forall>p \<in> H. S p \<noteq> None)
     \<and> (\<forall>i j fd d p. R i fd = Some d \<and> D d = Some (EpollDataSocket p) \<longrightarrow> R j fd = Some d)"

lemma ep_invD:
  assumes "ep_inv R D S H"
  shows "R i fd = Some d \<Longrightarrow> data_live D S fd d"
    and "S p = Some (fd, d, f) \<Longrightarrow> 0 < f \<and> f = of_bool (p \<in> H) + of_bool (on_epoll R D p)"
    and "p \<in> H \<Longrightarrow> \<exists>fd d f. S p = Some (fd, d, f)"
    and "R i fd = Some d \<Longrightarrow> D d = Some (EpollDataSocket p) \<Longrightarrow> R j fd = Some d"
proof -
  note inv = assms[unfolded ep_inv_def, THEN conjunct1] assms[unfolded ep_inv_def, THEN conjunct2, THEN conjunct1]
    assms[unfolded ep_inv_def, THEN conjunct2, THEN conjunct2, THEN conjunct1]
    assms[unfolded ep_inv_def, THEN conjunct2, THEN conjunct2, THEN conjunct2]
  show "R i fd = Some d \<Longrightarrow> data_live D S fd d" using inv(1) by blast
  show "S p = Some (fd, d, f) \<Longrightarrow> 0 < f \<and> f = of_bool (p \<in> H) + of_bool (on_epoll R D p)" using inv(2) by blast
  show "p \<in> H \<Longrightarrow> \<exists>fd d f. S p = Some (fd, d, f)" using inv(3) by (cases "S p") auto
  show "R i fd = Some d \<Longrightarrow> D d = Some (EpollDataSocket p) \<Longrightarrow> R j fd = Some d" using inv(4) by blast
qed

lemma data_live_socket: "D d = Some (EpollDataSocket p) \<Longrightarrow> data_live D S fd d \<longleftrightarrow> (\<exists>f. S p = Some (fd, d, f))"
  by (simp add: data_live_def)

text \<open>Two registrations with the same data or the same socket are of the same descriptor.\<close>

lemma same_descriptor:
  assumes "ep_inv R D S H" "R i fd = Some d" "R i' fd' = Some d"
  shows "fd = fd'"
  using ep_invD(1)[OF assms(1,2)] ep_invD(1)[OF assms(1,3)]
  by (auto simp: data_live_def split: option.splits epoll_data.splits)

lemma same_socket:
  assumes "ep_inv R D S H" "R i fd = Some d" "R i' fd' = Some d'"
    and "D d = Some (EpollDataSocket p)" "D d' = Some (EpollDataSocket p)"
  shows "fd = fd'" "d = d'"
  using ep_invD(1)[OF assms(1,2)] ep_invD(1)[OF assms(1,3)] assms(4,5) by (auto simp: data_live_def)

lemma data_live_cong:
  assumes "D' d = D d" "\<And>p. D d = Some (EpollDataSocket p) \<Longrightarrow> map_option (\<lambda>(a, b, c). (a, b)) (S' p) = map_option (\<lambda>(a, b, c). (a, b)) (S p)"
  shows "data_live D' S' fd d = data_live D S fd d"
proof -
  have "(\<exists>f. S' p = Some (fd, d, f)) = (\<exists>f. S p = Some (fd, d, f))" if "D d = Some (EpollDataSocket p)" for p
    using assms(2)[OF that] by (cases "S p"; cases "S' p") auto
  then show ?thesis using assms(1) by (auto simp: data_live_def split: option.split epoll_data.split)
qed

definition forget :: "(ep_instance \<Rightarrow> int \<Rightarrow> nat option) \<Rightarrow> int \<Rightarrow> ep_instance \<Rightarrow> int \<Rightarrow> nat option" where
  "forget R fd i = (R i)(fd := None)"

definition put_down :: "int \<times> nat \<times> int \<Rightarrow> (int \<times> nat \<times> int) option" where
  "put_down s = (case s of (fd, d, f) \<Rightarrow> if f = 1 then None else Some (fd, d, f - 1))"

text \<open>Only the data of a socket are registered under its descriptor.\<close>

lemma other_descriptor:
  assumes "ep_inv R D S H" "R i fd = Some d" "R j x = Some d'" "D d' = Some (EpollDataSocket q)" "d' \<noteq> d"
  shows "x \<noteq> fd"
  using ep_invD(4)[OF assms(1,3,4), of i] assms(2,5) by auto

text \<open>Taking a descriptor out of both lists and freeing its data.\<close>

lemma forget_on_epoll:
  assumes inv: "ep_inv R D S H" and r: "R i fd = Some d"
  shows "on_epoll (forget R fd) (D(d := None)) q \<longleftrightarrow> on_epoll R D q \<and> D d \<noteq> Some (EpollDataSocket q)"
proof
  assume "on_epoll (forget R fd) (D(d := None)) q"
  then obtain j x d' where j: "x \<noteq> fd" "R j x = Some d'" "d' \<noteq> d" "D d' = Some (EpollDataSocket q)"
    by (auto simp: on_epoll_def forget_def split: if_splits)
  then show "on_epoll R D q \<and> D d \<noteq> Some (EpollDataSocket q)"
    using same_socket[OF inv r j(2)] by (auto simp: on_epoll_def)
next
  assume q: "on_epoll R D q \<and> D d \<noteq> Some (EpollDataSocket q)"
  then obtain j x d' where j: "R j x = Some d'" "D d' = Some (EpollDataSocket q)" by (auto simp: on_epoll_def)
  with q have "d' \<noteq> d" by auto
  moreover from this have "x \<noteq> fd" by (rule other_descriptor[OF inv r j])
  ultimately show "on_epoll (forget R fd) (D(d := None)) q" using j by (auto simp: on_epoll_def forget_def)
qed

lemma forget_live:
  assumes inv: "ep_inv R D S H" and r: "R i fd = Some d" "forget R fd j x = Some d'"
    and S: "\<And>p. D d \<noteq> Some (EpollDataSocket p) \<Longrightarrow> S' p = S p"
  shows "data_live (D(d := None)) S' x d'"
    and "(D(d := None)) d' = Some (EpollDataSocket q) \<Longrightarrow> forget R fd j' x = Some d'"
proof -
  from r(2) have x: "x \<noteq> fd" "R j x = Some d'" by (auto simp: forget_def split: if_splits)
  then have d: "d' \<noteq> d" using same_descriptor[OF inv r(1), of j x] by auto
  have "D d \<noteq> Some (EpollDataSocket p)" if "D d' = Some (EpollDataSocket p)" for p
    using same_socket(1)[OF inv r(1) x(2) _ that] x(1) by auto
  then show "data_live (D(d := None)) S' x d'"
    using ep_invD(1)[OF inv x(2)] d S by (auto simp: data_live_def split: option.splits epoll_data.splits)
  show "forget R fd j' x = Some d'" if "(D(d := None)) d' = Some (EpollDataSocket q)"
    using ep_invD(4)[OF inv x(2)] that x d by (simp add: forget_def)
qed

lemma inv_drop:
  assumes inv: "ep_inv R D S H" and r: "R i fd = Some d" "D d = Some (EpollDataSocket p)" "S p = Some (fd, d, f)"
  shows "ep_inv (forget R fd) (D(d := None)) (S(p := put_down (fd, d, f))) H"
proof -
  have on: "on_epoll R D p" using r by (auto simp: on_epoll_def)
  then have f: "f = of_bool (p \<in> H) + 1" using ep_invD(2)[OF inv r(3)] by simp
  have S: "(S(p := put_down (fd, d, f))) q = S q" if "D d \<noteq> Some (EpollDataSocket q)" for q
    using that r(2) by auto
  show ?thesis unfolding ep_inv_def
  proof (intro conjI allI impI ballI)
    fix q x e n assume q: "(S(p := put_down (fd, d, f))) q = Some (x, e, n)"
    show "0 < n" "n = of_bool (q \<in> H) + of_bool (on_epoll (forget R fd) (D(d := None)) q)"
      using q r(2) f ep_invD(2)[OF inv, of q x e n]
      by (auto simp: forget_on_epoll[OF inv r(1)] put_down_def split: if_splits)
  next
    fix q assume "q \<in> H"
    then show "(S(p := put_down (fd, d, f))) q \<noteq> None" using ep_invD(3)[OF inv] f by (fastforce simp: put_down_def)
  qed (use forget_live[OF inv r(1) _ S] in blast)+
qed

lemma inv_request_done:
  assumes inv: "ep_inv R D S H" and r: "R i fd = Some d" "D d = Some (EpollDataJob req)"
  shows "ep_inv (forget R fd) (D(d := None)) S H"
  unfolding ep_inv_def
proof (intro conjI allI impI ballI)
  fix q x e n assume q: "S q = Some (x, e, n)"
  show "0 < n" "n = of_bool (q \<in> H) + of_bool (on_epoll (forget R fd) (D(d := None)) q)"
    using q r(2) ep_invD(2)[OF inv q] by (auto simp: forget_on_epoll[OF inv r(1)])
next
  fix q assume "q \<in> H" then show "S q \<noteq> None" using ep_invD(3)[OF inv] by fastforce
qed (use forget_live[OF inv r(1), of _ _ _ S] in blast)+

text \<open>New registrations with new data.\<close>

lemma unused_data: "ep_inv R D S H \<Longrightarrow> D d = None \<Longrightarrow> R i fd \<noteq> Some d"
  using ep_invD(1)[of R D S H i fd d] by (auto simp: data_live_def)

lemma unused_socket: "ep_inv R D S H \<Longrightarrow> S p = None \<Longrightarrow> \<not> on_epoll R D p \<and> p \<notin> H"
  using ep_invD(1,3)[of R D S H] by (fastforce simp: on_epoll_def data_live_def)

lemma inv_create:
  assumes inv: "ep_inv R D S H" and n: "S p = None" "D d = None" "\<And>i. R i fd = None"
  shows "ep_inv (\<lambda>i. (R i)(fd \<mapsto> d)) (D(d \<mapsto> EpollDataSocket p)) (S(p \<mapsto> (fd, d, 2))) (insert p H)"
proof -
  let ?R = "\<lambda>i. (R i)(fd \<mapsto> d)" and ?D = "D(d \<mapsto> EpollDataSocket p)" and ?S = "S(p \<mapsto> (fd, d, 2))"
  note fresh = unused_data[OF inv n(2)] unused_socket[OF inv n(1)]
  have on: "on_epoll ?R ?D q \<longleftrightarrow> q = p \<or> on_epoll R D q" for q
  proof
    assume "on_epoll ?R ?D q"
    then show "q = p \<or> on_epoll R D q" by (auto simp: on_epoll_def split: if_splits)
  next
    assume "q = p \<or> on_epoll R D q"
    then show "on_epoll ?R ?D q" using fresh(1) n(3) unfolding on_epoll_def by (metis fun_upd_apply option.distinct(1))
  qed
  have live: "data_live ?D ?S x d'" if "?R i x = Some d'" for i x d'
  proof (cases "x = fd")
    case False
    with that have R: "R i x = Some d'" by simp
    have "S q = ?S q" if "D d' = Some (EpollDataSocket q)" for q
      using ep_invD(1)[OF inv R] that n(1) by (auto simp: data_live_def)
    then show ?thesis using ep_invD(1)[OF inv R] fresh(1)[of i x] R
      by (auto simp: data_live_def split: option.splits epoll_data.splits)
  qed (use that in \<open>simp add: data_live_def\<close>)
  have both: "?R j x = Some d'" if "?R i x = Some d'" "?D d' = Some (EpollDataSocket q)" for i j x d' q
    using that ep_invD(4)[OF inv, of i x d' q j] fresh(1)[of i x] by (auto split: if_splits)
  have count: "0 < f \<and> f = of_bool (q \<in> insert p H) + of_bool (on_epoll ?R ?D q)" if "?S q = Some (x, e, f)" for q x e f
    using that ep_invD(2)[OF inv, of q x e f] by (auto simp: on split: if_splits)
  have held: "?S q \<noteq> None" if "q \<in> insert p H" for q
    using that ep_invD(3)[OF inv, of q] by auto
  show ?thesis unfolding ep_inv_def using live both count held by blast
qed

lemma inv_request:
  assumes inv: "ep_inv R D S H" and n: "D d = None" "req_socketfd req = fd"
    and R: "\<And>i x. R' i x = R i x \<or> x = fd \<and> R i x = None \<and> R' i x = Some d"
  shows "ep_inv R' (D(d \<mapsto> EpollDataJob req)) S H"
proof -
  let ?D = "D(d \<mapsto> EpollDataJob req)"
  note fresh = unused_data[OF inv n(1)]
  have old: "R i x = Some d'" if "R' i x = Some d'" "d' \<noteq> d" for i x d' using R[of i x] that by auto
  have keep: "R' i x = Some d'" if "R i x = Some d'" for i x d' using R[of i x] that by auto
  have on: "on_epoll R' ?D q = on_epoll R D q" for q
    using old keep fresh unfolding on_epoll_def
    by (metis epoll_data.distinct(7) fun_upd_apply option.inject)
  have live: "data_live ?D S x d'" if "R' i x = Some d'" for i x d'
    using R[of i x] that ep_invD(1)[OF inv, of i x d'] fresh[of i x] n(2)
    by (cases "d' = d") (auto simp: data_live_def)
  have both: "R' j x = Some d'" if "R' i x = Some d'" "?D d' = Some (EpollDataSocket q)" for i j x d' q
    using that ep_invD(4)[OF inv old[OF that(1)], of q j] keep by (cases "d' = d") auto
  have count: "0 < f \<and> f = of_bool (q \<in> H) + of_bool (on_epoll R' ?D q)" if "S q = Some (x, e, f)" for q x e f
    using ep_invD(2)[OF inv that] by (simp add: on)
  have held: "S q \<noteq> None" if "q \<in> H" for q using ep_invD(3)[OF inv that] by auto
  show ?thesis unfolding ep_inv_def using live both count held by blast
qed

lemma inv_job_done:
  assumes inv: "ep_inv R D S H" and p: "p \<in> H" "S p = Some (fd, d, f)"
  shows "ep_inv R D (S(p := put_down (fd, d, f))) (H - {p})"
proof -
  let ?S = "S(p := put_down (fd, d, f))"
  note f = ep_invD(2)[OF inv p(2)]
  have live: "data_live D ?S x d'" if R: "R i x = Some d'" for i x d'
  proof -
    have "(\<exists>n. ?S q = Some (x, d', n)) = (\<exists>n. S q = Some (x, d', n))" if "D d' = Some (EpollDataSocket q)" for q
    proof (cases "q = p")
      case True
      with that R have "on_epoll R D p" by (auto simp: on_epoll_def)
      with f p(1) have "f = 2" by simp
      with True p(2) show ?thesis by (auto simp: put_down_def)
    qed simp
    then show ?thesis using ep_invD(1)[OF inv R] by (auto simp: data_live_def split: option.splits epoll_data.splits)
  qed
  have count: "0 < n \<and> n = of_bool (q \<in> H - {p}) + of_bool (on_epoll R D q)" if "?S q = Some (x, e, n)" for q x e n
    using that f p(1) ep_invD(2)[OF inv, of q x e n] by (auto simp: put_down_def split: if_splits)
  have held: "?S q \<noteq> None" if "q \<in> H - {p}" for q using ep_invD(3)[OF inv, of q] that by auto
  show ?thesis unfolding ep_inv_def using live count held ep_invD(4)[OF inv] by blast
qed

section \<open>The operations keep the references right\<close>

definition rdata :: "ep_state \<Rightarrow> ep_instance \<Rightarrow> int \<Rightarrow> nat option" where
  "rdata st i fd = map_option snd (reg st i fd)"

definition shape :: "ep_state \<Rightarrow> nat \<Rightarrow> (int \<times> nat \<times> int) option" where
  "shape st p = map_option (\<lambda>k. (sock_fd k, data_ptr k, fall k)) (socks st p)"

definition ep_safe :: "ep_state \<Rightarrow> nat set \<Rightarrow> bool" where
  "ep_safe st H \<longleftrightarrow> ep_inv (rdata st) (edata st) (shape st) H"

fun safe_outcome :: "(ep_state \<Rightarrow> bool) \<Rightarrow> ep_state outcome \<Rightarrow> bool" where
  "safe_outcome P (Returns st) = P st"
| "safe_outcome P Spins = True"
| "safe_outcome P BadPointer = False"

lemma shape_upd: "socks st' = (socks st)(p \<mapsto> k) \<Longrightarrow> shape st' = (shape st)(p \<mapsto> (sock_fd k, data_ptr k, fall k))"
  by (auto simp: shape_def fun_eq_iff)

lemma sock_idD: "sock_id k = sock_id k' \<Longrightarrow> sock_fd k = sock_fd k' \<and> data_ptr k = data_ptr k'"
  by (simp add: sock_id_def)

lemma rdata_remasked:
  assumes "remasked fd d (reg st) (reg st')" "\<And>i d'. rdata st i fd = Some d' \<Longrightarrow> d' = d"
  shows "rdata st' = rdata st"
proof (intro ext)
  fix i x
  show "rdata st' i x = rdata st i x"
    using assms(1)[unfolded remasked_def, rule_format, of i x] assms(2)[of i] by (auto simp: rdata_def)
qed

lemma done_at_shape:
  assumes "socks st p = Some k" "shape st p = Some s"
  shows "rdata (snd (epollsocket_done_at b ctl st p k side)) = rdata st"
    and "edata (snd (epollsocket_done_at b ctl st p k side)) = edata st"
    and "shape (snd (epollsocket_done_at b ctl st p k side)) = (shape st)(p := put_down s)"
proof -
  let ?v = "\<lparr>sock = k, sys = ep_sys st, epoll_mods = [], timer_resets = 0, wire = wires st p\<rparr>"
  let ?k = "sock (snd (schedi_job_epollsocket_done_side b ?v side))"
  let ?o = "on_socket ctl st p k (\<lambda>v. schedi_job_epollsocket_done_side b v side)"
  have k: "sock_fd ?k = sock_fd k" "data_ptr ?k = data_ptr k" "fall ?k = fall k - 1"
    using sock_idD[OF done_side_id(1)[of b ?v side]] by (simp_all add: done_side_id)
  have "ctl_log (snd ?o) = ctl_log st"
    by (simp add: on_socket_def Let_def case_prod_beta done_side_id(4))
  then show "rdata (snd (epollsocket_done_at b ctl st p k side)) = rdata st"
    by (simp add: epollsocket_done_at_def Let_def case_prod_beta rdata_def fun_eq_iff)
  have r: "fst ?o = (if fall k = 1 then 0 else -1)"
    by (simp add: on_socket_def Let_def case_prod_beta done_side_id(3))
  show "edata (snd (epollsocket_done_at b ctl st p k side)) = edata st"
    by (simp add: epollsocket_done_at_def Let_def case_prod_beta on_socket_socks)
  show "shape (snd (epollsocket_done_at b ctl st p k side)) = (shape st)(p := put_down s)"
    using assms k r
    by (auto simp: epollsocket_done_at_def Let_def case_prod_beta on_socket_socks shape_def put_down_def fun_eq_iff)
qed

context epoll_kernel
begin

lemma rdata_del: "rdata (schedi_epoll_del ctl st fd) = forget (rdata st) fd"
  by (auto simp: rdata_def forget_def fun_eq_iff reg_del)

lemma on_socket_keeps:
  assumes "keeps_id f" "socks st p = Some k" "\<And>i d. rdata st i (sock_fd k) = Some d \<Longrightarrow> d = data_ptr k"
  shows "rdata (snd (on_socket ctl st p k f)) = rdata st" "edata (snd (on_socket ctl st p k f)) = edata st"
    and "shape (snd (on_socket ctl st p k f)) = shape st"
proof -
  show "rdata (snd (on_socket ctl st p k f)) = rdata st"
    by (rule rdata_remasked[OF remasked_on_socket assms(3)])
  show "edata (snd (on_socket ctl st p k f)) = edata st" by (rule on_socket_socks)
  let ?v = "\<lparr>sock = k, sys = ep_sys st, epoll_mods = [], timer_resets = 0, wire = wires st p\<rparr>"
  have "sock_id (sock (snd (f ?v))) = sock_id k" "fall (sock (snd (f ?v))) = fall k"
    using assms(1) by (simp_all add: keeps_id_def)
  then show "shape (snd (on_socket ctl st p k f)) = shape st"
    using assms(2) by (auto simp: shape_upd[OF on_socket_socks(1)] sock_id_def shape_def fun_eq_iff)
qed

lemma drop_socket_safe:
  assumes "ep_safe st H" "\<not> ext_timeout b" "rdata st i fd = Some d" "edata st d = Some (EpollDataSocket p)"
    and "socks st p = Some k"
  shows "ep_safe (drop_socket b ctl st d p k) H" "rdata (drop_socket b ctl st d p k) = forget (rdata st) fd"
proof -
  obtain f where s: "shape st p = Some (fd, d, f)"
    using ep_invD(1)[OF assms(1)[unfolded ep_safe_def] assms(3)] assms(4) by (auto simp: data_live_def)
  then have k: "sock_fd k = fd" using assms(5) by (simp add: shape_def)
  let ?st1 = "free_data (schedi_epoll_del ctl st fd) d"
  have st1: "rdata ?st1 = forget (rdata st) fd" "edata ?st1 = (edata st)(d := None)" "shape ?st1 = shape st"
    "socks ?st1 p = Some k"
    using assms(5) by (simp_all add: rdata_del[symmetric] rdata_def shape_def fun_eq_iff)
  have eq: "drop_socket b ctl st d p k = snd (epollsocket_done_at b ctl ?st1 p k True)"
    using assms(2) k by (simp add: drop_socket_def schedi_epoll_del_socketcompletely_def)
  have "shape ?st1 p = Some (fd, d, f)" using s st1(3) by simp
  note d = done_at_shape[OF st1(4) this, of b ctl True]
  show "rdata (drop_socket b ctl st d p k) = forget (rdata st) fd" using d(1) st1(1) eq by simp
  show "ep_safe (drop_socket b ctl st d p k) H"
    using inv_drop[OF assms(1)[unfolded ep_safe_def] assms(3,4) s] d st1 eq by (simp add: ep_safe_def)
qed

lemma handle_job_event_safe:
  assumes "ep_safe st H" "rdata st i fd = Some d" "edata st d = Some (EpollDataJob req)"
  shows "safe_outcome (\<lambda>st'. ep_safe st' H \<and> (\<forall>j x. x \<noteq> fd \<longrightarrow> rdata st' j x = rdata st j x))
    (handle_job_event b ctl st d req ev)"
proof -
  have fd: "req_socketfd req = fd"
    using ep_invD(1)[OF assms(1)[unfolded ep_safe_def] assms(2)] assms(3) by (simp add: data_live_def)
  let ?st' = "\<lambda>s. free_data ((schedi_epoll_del ctl st fd)\<lparr>ep_sys := s\<rparr>) d"
  have p: "rdata (?st' s) = forget (rdata st) fd" "edata (?st' s) = (edata st)(d := None)" "shape (?st' s) = shape st" for s
    by (simp_all add: rdata_del[symmetric] rdata_def shape_def fun_eq_iff)
  have "ep_safe (?st' s) H" for s
    unfolding ep_safe_def p by (rule inv_request_done[OF assms(1)[unfolded ep_safe_def] assms(2,3)])
  then show ?thesis
    by (simp add: handle_job_event_def Let_def fd p forget_def split: option.split)
qed

lemma handle_socket_event_safe:
  assumes "ep_safe st H" "\<not> ext_timeout b" "rdata st i fd = Some d" "edata st d = Some (EpollDataSocket p)"
  shows "safe_outcome (\<lambda>st'. ep_safe st' H \<and> (\<forall>j x. x \<noteq> fd \<longrightarrow> rdata st' j x = rdata st j x))
    (handle_socket_event b ctl st d p ev)"
proof -
  note inv = assms(1)[unfolded ep_safe_def]
  obtain f where s: "shape st p = Some (fd, d, f)"
    using ep_invD(1)[OF inv assms(3)] assms(4) by (auto simp: data_live_def)
  then obtain k where k: "socks st p = Some k" "sock_fd k = fd" "data_ptr k = d" by (auto simp: shape_def)
  let ?f = "\<lambda>v. schedi_job_epollsocket_return b (ev_recv ev) (ev_send ev) v (ev_events ev)"
  let ?st1 = "snd (on_socket ctl st p k ?f)"
  have own: "d' = data_ptr k" if "rdata st j (sock_fd k) = Some d'" for j d'
    using ep_invD(4)[OF inv assms(3,4), of j] that k by simp
  have "keeps_id ?f" by (simp add: keeps_id_def return_id)
  note st1 = on_socket_keeps[OF this k(1) own]
  have safe1: "ep_safe ?st1 H" using assms(1) st1 by (simp add: ep_safe_def)
  obtain k1 where k1: "socks ?st1 p = Some k1" by (simp add: on_socket_socks)
  have "rdata ?st1 i fd = Some d" "edata ?st1 d = Some (EpollDataSocket p)" using assms(3,4) st1 by simp_all
  note dr = drop_socket_safe[OF safe1 assms(2) this k1]
  show ?thesis using k(1) k1 dr safe1 st1
    by (simp add: handle_socket_event_def Let_def case_prod_beta forget_def)
qed

lemma handler_safe:
  assumes "ep_safe st H" "\<not> ext_timeout b" "rdata st i fd = Some d" "ev_data e = Some d"
    and "h = schedi_epoll_handle_read b ctl \<or> h = schedi_epoll_handle_write b ctl"
  shows "safe_outcome (\<lambda>st'. ep_safe st' H \<and> (\<forall>j x. x \<noteq> fd \<longrightarrow> rdata st' j x = rdata st j x)) (h st e)"
proof -
  have "data_live (edata st) (shape st) fd d" using ep_invD(1)[OF assms(1)[unfolded ep_safe_def] assms(3)] .
  then consider (job) req where "edata st d = Some (EpollDataJob req)"
    | (socket) p where "edata st d = Some (EpollDataSocket p)"
    by (auto simp: data_live_def split: option.splits epoll_data.splits)
  then show ?thesis
  proof cases
    case job
    with assms(4,5) handle_job_event_safe[OF assms(1,3) job] show ?thesis
      by (auto simp: schedi_epoll_handle_read_def schedi_epoll_handle_write_def)
  next
    case socket
    with assms(4,5) handle_socket_event_safe[OF assms(1-3) socket] show ?thesis
      by (auto simp: schedi_epoll_handle_read_def schedi_epoll_handle_write_def)
  qed
qed

end

section \<open>Events in batches\<close>

text \<open>
  What \<^verbatim>\<open>epoll_wait\<close> returns: events of different descriptors that are registered
  with the instance, each with the data of its registration.
\<close>

definition batch_of :: "ep_instance \<Rightarrow> ep_state \<Rightarrow> int list \<Rightarrow> ep_event list \<Rightarrow> bool" where
  "batch_of i st fds es \<longleftrightarrow> distinct fds
     \<and> list_all2 (\<lambda>fd e. rdata st i fd \<noteq> None \<and> ev_data e = rdata st i fd) fds es"

definition handler :: "build \<Rightarrow> kernel \<Rightarrow> ep_instance \<Rightarrow> ep_state \<Rightarrow> ep_event \<Rightarrow> ep_state outcome" where
  "handler b ctl i = (case i of EpRead \<Rightarrow> schedi_epoll_handle_read b ctl | EpWrite \<Rightarrow> schedi_epoll_handle_write b ctl)"

context epoll_kernel
begin

lemma handle_events_safe:
  assumes "ep_safe st H" "\<not> ext_timeout b" "batch_of i st fds es"
  shows "safe_outcome (\<lambda>st'. ep_safe st' H) (handle_events (handler b ctl i) es st)"
  using assms
proof (induction es arbitrary: st fds)
  case (Cons e es)
  from Cons.prems(3) obtain fd fds' where fds: "fds = fd # fds'" "fd \<notin> set fds'" "distinct fds'"
    "rdata st i fd \<noteq> None" "ev_data e = rdata st i fd"
    "list_all2 (\<lambda>fd e. rdata st i fd \<noteq> None \<and> ev_data e = rdata st i fd) fds' es"
    by (auto simp: batch_of_def list_all2_Cons2)
  then obtain d where d: "rdata st i fd = Some d" "ev_data e = Some d" by auto
  have "handler b ctl i = schedi_epoll_handle_read b ctl \<or> handler b ctl i = schedi_epoll_handle_write b ctl"
    by (cases i) (simp_all add: handler_def)
  note h = handler_safe[OF Cons.prems(1,2) d this]
  show ?case
  proof (cases "handler b ctl i st e")
    case (Returns st')
    with h have st': "ep_safe st' H" "\<And>j x. x \<noteq> fd \<Longrightarrow> rdata st' j x = rdata st j x" by auto
    have "list_all2 (\<lambda>fd e. rdata st' i fd \<noteq> None \<and> ev_data e = rdata st' i fd) fds' es"
      using fds(2,6) st'(2) by (elim list_all2_mono[rule_format, rotated] list.rel_mono_strong) (auto simp: in_set_conv_nth)
    then have "batch_of i st' fds' es" using fds(3) by (simp add: batch_of_def)
    from Cons.IH[OF st'(1) Cons.prems(2) this] Returns show ?thesis by simp
  qed (use h in simp_all)
qed simp

text \<open>Making a socket.\<close>

lemma push_epoll_frame:
  assumes "schedi_job_epollsocket_push_epoll ctl d st p k = (r, st')" "r = 0" "x \<noteq> sock_fd k"
  shows "reg st' i x = reg st i x"
  using assms reg_add_success(1)[where st' = st' and i = i and x = x]
  by (simp add: schedi_job_epollsocket_push_epoll_def)

lemma push_epoll_result:
  assumes "schedi_job_epollsocket_push_epoll ctl d st p k = (r, st')"
  shows "r = 0 \<Longrightarrow> reg st i (sock_fd k) = None"
    and "r = 0 \<Longrightarrow> rdata st' = (\<lambda>i. (rdata st i)(sock_fd k \<mapsto> d)) \<and> edata st' = (edata st)(d \<mapsto> EpollDataSocket p)"
    and "r \<noteq> 0 \<Longrightarrow> r = -1 \<and> reg st' = reg st \<and> edata st' = (edata st)(d := None)"
    and "socks st' = (socks st)(p \<mapsto> k\<lparr>data_ptr := d\<rparr>)" "ep_sys st' = ep_sys st"
proof -
  let ?ev = "EPOLLIN OR EPOLLOUT OR EPOLLONESHOT"
  let ?st = "st\<lparr>edata := (edata st)(d \<mapsto> EpollDataSocket p), socks := (socks st)(p \<mapsto> k\<lparr>data_ptr := d\<rparr>)\<rparr>"
  have ev: "?ev AND EPOLLIN \<noteq> 0" "?ev AND EPOLLOUT \<noteq> 0"
    by (simp_all add: EPOLLIN_def EPOLLOUT_def EPOLLONESHOT_def)
  have a: "schedi_epoll_add ctl ?st (sock_fd k) d ?ev = (r, st')"
    using assms by (simp add: schedi_job_epollsocket_push_epoll_def)
  show "reg st i (sock_fd k) = None" if "r = 0"
    using reg_add_new[OF a[unfolded that]] ev by (cases i) simp_all
  show "rdata st' = (\<lambda>i. (rdata st i)(sock_fd k \<mapsto> d)) \<and> edata st' = (edata st)(d \<mapsto> EpollDataSocket p)" if "r = 0"
  proof
    have "rdata st' i x = ((rdata st i)(sock_fd k \<mapsto> d)) x" for i x
      using reg_add_success(1)[OF a[unfolded that], of i x] ev by (cases i) (simp_all add: rdata_def)
    then show "rdata st' = (\<lambda>i. (rdata st i)(sock_fd k \<mapsto> d))" by blast
  qed (use reg_add_success(4)[OF a[unfolded that]] in simp)
  show "r = -1 \<and> reg st' = reg st \<and> edata st' = (edata st)(d := None)" if "r \<noteq> 0"
    using reg_add_failure[OF a that] by simp
  show "socks st' = (socks st)(p \<mapsto> k\<lparr>data_ptr := d\<rparr>)" "ep_sys st' = ep_sys st"
    using reg_add_failure(4,5)[OF a] reg_add_success(2,3)[of ?st "sock_fd k" d ?ev st'] a
    by (cases "r = 0"; simp)+
qed

end

section \<open>Reachable states\<close>

text \<open>Nobody else has registered the descriptor of a socket that a job uses.\<close>

definition own_descriptor :: "ep_state \<Rightarrow> epollsocket \<Rightarrow> bool" where
  "own_descriptor st k \<longleftrightarrow> (\<forall>i. rdata st i (sock_fd k) = None \<or> rdata st i (sock_fd k) = Some (data_ptr k))"

text \<open>
  The calls of jobs and of the epoll thread, with the sockets that jobs hold. What
  \<^verbatim>\<open>malloc\<close> returns is not in use.
\<close>

inductive ep_step :: "build \<Rightarrow> kernel \<Rightarrow> ep_state \<times> nat set \<Rightarrow> ep_state \<times> nat set \<Rightarrow> bool" for b ctl where
  make_socket: "socks st p = None \<Longrightarrow> edata st (snd ds) = None \<Longrightarrow>
    schedi_job_tool_epollsocket b ctl tfd sets ds bufs p st job fd rc wc sec = (r, st') \<Longrightarrow>
    ep_step b ctl (st, H) (st', if r = None then H else insert p H)"
| make_request: "(case mem of None \<Rightarrow> True | Some d \<Rightarrow> edata st d = None) \<Longrightarrow>
    schedi_job_tool_epoll b ctl rmem mem st job fd events = (r, st') \<Longrightarrow> ep_step b ctl (st, H) (st', H)"
| job_writes: "p \<in> H \<Longrightarrow> socks st p = Some k \<Longrightarrow> own_descriptor st k \<Longrightarrow>
    ep_step b ctl (st, H) (snd (on_socket ctl st p k (\<lambda>v. schedi_job_epollsocket_write b r v data)), H)"
| job_reads: "p \<in> H \<Longrightarrow> socks st p = Some k \<Longrightarrow> own_descriptor st k \<Longrightarrow>
    ep_step b ctl (st, H) (snd (on_socket ctl st p k (\<lambda>v. schedi_job_epollsocket_read b v n)), H)"
| job_done: "p \<in> H \<Longrightarrow> socks st p = Some k \<Longrightarrow>
    ep_step b ctl (st, H) (snd (epollsocket_done_at b ctl st p k False), H - {p})"
| events: "batch_of i st fds es \<Longrightarrow> handle_events (handler b ctl i) es st = Returns st' \<Longrightarrow>
    ep_step b ctl (st, H) (st', H)"
| jobs_run: "ep_step b ctl (st, H) (st\<lparr>ep_sys := s\<rparr>, H)"

definition ep_initial :: "ep_state \<Rightarrow> bool" where
  "ep_initial st \<longleftrightarrow> socks st = (\<lambda>_. None) \<and> edata st = (\<lambda>_. None) \<and> ctl_log st = []"

inductive ep_reach :: "build \<Rightarrow> kernel \<Rightarrow> ep_state \<times> nat set \<Rightarrow> bool" for b ctl where
  initial: "ep_initial st \<Longrightarrow> ep_reach b ctl (st, {})"
| step: "ep_reach b ctl c \<Longrightarrow> ep_step b ctl c c' \<Longrightarrow> ep_reach b ctl c'"

lemma epollisize_plain:
  "\<not> ext_timeout b \<Longrightarrow> schedi_job_epollsocket_epollisize b ctl sets ds st p k =
    (case schedi_job_epollsocket_push_epoll ctl (snd ds) st p k of (r, st') \<Rightarrow> (if r \<noteq> 0 then -1 else 0, st'))"
  by (simp add: schedi_job_epollsocket_epollisize_def Let_def split: prod.split)

lemma ep_safe_cong:
  "rdata st' = rdata st \<Longrightarrow> edata st' = edata st \<Longrightarrow> shape st' = shape st \<Longrightarrow> ep_safe st' H = ep_safe st H"
  by (simp add: ep_safe_def)

lemma ep_safe_initial: "ep_initial st \<Longrightarrow> ep_safe st {}"
  by (simp add: ep_initial_def ep_safe_def ep_inv_def rdata_def shape_def interest_def)

context epoll_kernel
begin

lemma make_socket_safe:
  assumes "ep_safe st H" "\<not> ext_timeout b" "socks st p = None" "edata st (snd ds) = None"
    and "schedi_job_tool_epollsocket b ctl tfd sets ds bufs p st job fd rc wc sec = (r, st')"
  shows "ep_safe st' (if r = None then H else insert p H)"
proof -
  define k where "k = new_epollsocket b job (gen (jobs (ep_sys st) job)) fd rc wc bufs"
  define upd :: "int \<Rightarrow> ep_state \<Rightarrow> ep_state" where "upd = (\<lambda>delta s. if has_flag (sock_htc k) SCHEDI_JOB_EPOLLSOCKET_READY
    then s\<lparr>ep_sys := snd (schedi_job_meta_flag_cas_update b (ep_sys s) job delta 0 0 0 0 False)\<rparr> else s)"
  have upd: "socks (upd delta s) = socks s" "edata (upd delta s) = edata s" "ctl_log (upd delta s) = ctl_log s"
    for delta s by (simp_all add: upd_def)
  define st1 where "st1 = upd 1 (st\<lparr>socks := (socks st)(p \<mapsto> k), wires := (wires st)(p := [])\<rparr>)"
  obtain r2 st2 where p: "schedi_job_epollsocket_push_epoll ctl (snd ds) st1 p k = (r2, st2)" by force
  note pr = push_epoll_result[OF p]
  have k: "sock_fd k = fd" "fall k = 2" by (simp_all add: k_def new_epollsocket_def Let_def)
  have st1: "rdata st1 = rdata st" "edata st1 = edata st" "reg st1 = reg st" "socks st1 = (socks st)(p \<mapsto> k)"
    by (simp_all add: st1_def upd rdata_def fun_eq_iff)
  have res: "(r, st') = (if r2 \<noteq> 0 then (None, (upd (-1) st2)\<lparr>socks := (socks (upd (-1) st2))(p := None)\<rparr>) else (Some p, st2))"
    using assms(5)[symmetric] p unfolding st1_def upd_def
    by (cases "has_flag (sock_htc k) SCHEDI_JOB_EPOLLSOCKET_READY")
      (simp_all add: schedi_job_tool_epollsocket_def k_def[symmetric] epollisize_plain[OF assms(2)] assms(2) Let_def)
  show ?thesis
  proof (cases "r2 = 0")
    case True
    then have eq: "r = Some p" "st' = st2" using res by simp_all
    have "rdata st i fd = None" for i using pr(1)[OF True, of i] st1(3) k by (simp add: rdata_def)
    from inv_create[OF assms(1)[unfolded ep_safe_def] _ assms(4), of p fd, OF _ this]
    have "ep_inv (\<lambda>i. (rdata st i)(fd \<mapsto> snd ds)) ((edata st)(snd ds \<mapsto> EpollDataSocket p))
        ((shape st)(p \<mapsto> (fd, snd ds, 2))) (insert p H)"
      using assms(3) by (simp add: shape_def)
    moreover have "shape st2 = (shape st)(p \<mapsto> (fd, snd ds, 2))"
      using pr(4) st1(4) k by (auto simp: shape_def fun_eq_iff)
    ultimately show ?thesis using pr(2)[OF True] st1 k eq by (simp add: ep_safe_def)
  next
    case False
    then have eq: "r = None" "st' = (upd (-1) st2)\<lparr>socks := (socks (upd (-1) st2))(p := None)\<rparr>" using res by simp_all
    have "rdata st' = rdata st" "edata st' = edata st" "shape st' = shape st"
      using pr(3)[OF False] st1 eq(2) assms(3,4) pr(4) by (auto simp: rdata_def shape_def upd fun_eq_iff)
    from ep_safe_cong[OF this] assms(1) eq(1) show ?thesis by simp
  qed
qed

lemma tool_epoll_cases:
  assumes "schedi_job_tool_epoll b ctl rmem mem st job fd events = (r, st')"
  obtains (refused) "r < 0" "reg st' = reg st" "socks st' = socks st"
      "edata st' = (case mem of None \<Rightarrow> edata st | Some d \<Rightarrow> if r = -3 then (edata st)(d := None) else edata st)"
  | (registered) d req s where "r = 0" "mem = Some d" "req_socketfd req = fd"
      "schedi_epoll_add ctl (st\<lparr>ep_sys := s, edata := (edata st)(d \<mapsto> EpollDataJob req)\<rparr>) fd d events = (0, st')"
proof -
  define req where "req = \<lparr>req_socketfd = fd, req_owner = job, req_job_gen = gen (jobs (ep_sys st) job), req_list = job\<rparr>"
  obtain r1 s2 where u: "schedi_job_meta_flag_cas_update b
      (upd_job job (\<lambda>x. x\<lparr>total_req := total_req x + 1\<rparr>) (ep_sys st)) job 0 1 0 0 0 False = (r1, s2)" by force
  note df = assms[unfolded schedi_job_tool_epoll_def Let_def req_def[symmetric] u, simplified]
  show ?thesis
  proof (cases "rmem \<and> r1 = 0 \<and> mem \<noteq> None")
    case True
    then obtain d where d: "mem = Some d" by blast
    define st0 where "st0 = st\<lparr>ep_sys := s2, edata := (edata st)(d \<mapsto> EpollDataJob req)\<rparr>"
    obtain a st1 where a: "schedi_epoll_add ctl st0 fd d events = (a, st1)" by force
    show ?thesis
    proof (cases "a = 0")
      case True
      with df \<open>rmem \<and> r1 = 0 \<and> mem \<noteq> None\<close> d a have "r = 0" "st' = st1" by (auto simp: st0_def)
      with True a d show ?thesis by (intro registered[of d req s2]) (simp_all add: st0_def req_def)
    next
      case False
      note f = reg_add_failure[OF a False]
      with df \<open>rmem \<and> r1 = 0 \<and> mem \<noteq> None\<close> d a
      have "r = -3" "reg st' = reg st1" "edata st' = edata st1" "socks st' = socks st1" by (auto simp: st0_def)
      with f d show ?thesis by (intro refused) (simp_all add: st0_def)
    qed
  next
    case False
    with df show ?thesis by (intro refused) (auto split: if_splits option.splits)
  qed
qed

lemma make_request_safe:
  assumes "ep_safe st H" "case mem of None \<Rightarrow> True | Some d \<Rightarrow> edata st d = None"
    and "schedi_job_tool_epoll b ctl rmem mem st job fd events = (r, st')"
  shows "ep_safe st' H"
  using assms(3)
proof (cases rule: tool_epoll_cases)
  case refused
  then have "rdata st' = rdata st" "edata st' = edata st" "shape st' = shape st"
    using assms(2) by (auto simp: rdata_def shape_def fun_eq_iff split: option.splits)
  from ep_safe_cong[OF this] assms(1) show ?thesis by simp
next
  case (registered d req s)
  note a = registered
  have d: "edata st d = None" using assms(2) a(2) by simp
  have "rdata st' i x = rdata st i x \<or> x = fd \<and> rdata st i x = None \<and> rdata st' i x = Some d" for i x
    using reg_add_success(1)[OF a(4), of i x] reg_add_new[OF a(4)] by (auto simp: rdata_def)
  from inv_request[OF assms(1)[unfolded ep_safe_def] d a(3) this] reg_add_success(3,4)[OF a(4)]
  show ?thesis by (simp add: ep_safe_def shape_def[abs_def])
qed

end

context epoll_kernel
begin

lemma held_socket_keeps:
  assumes "ep_safe st H" "socks st p = Some k" "own_descriptor st k" "keeps_id f"
  shows "ep_safe (snd (on_socket ctl st p k f)) H"
proof -
  have "d = data_ptr k" if "rdata st i (sock_fd k) = Some d" for i d
    using assms(3) that unfolding own_descriptor_def by (metis option.distinct(1) option.inject)
  from on_socket_keeps[OF assms(4,2) this] assms(1) show ?thesis by (simp add: ep_safe_def)
qed

lemma job_done_safe:
  assumes "ep_safe st H" "p \<in> H" "socks st p = Some k"
  shows "ep_safe (snd (epollsocket_done_at b ctl st p k False)) (H - {p})"
proof -
  obtain fd d f where s: "shape st p = Some (fd, d, f)" using assms(3) by (auto simp: shape_def)
  from inv_job_done[OF assms(1)[unfolded ep_safe_def] assms(2) s] done_at_shape[OF assms(3) s]
  show ?thesis by (simp add: ep_safe_def)
qed

lemma ep_step_safe:
  assumes "ep_step b ctl (st, H) (st', H')" "\<not> ext_timeout b" "ep_safe st H"
  shows "ep_safe st' H'"
  using assms(1)
proof cases
  case make_socket
  then show ?thesis using make_socket_safe[OF assms(3,2)] by simp
next
  case make_request
  then show ?thesis using make_request_safe[OF assms(3)] by simp
next
  case job_writes
  then show ?thesis by (simp only:) (intro held_socket_keeps[OF assms(3)], simp_all add: keeps_id_def write_id)
next
  case job_reads
  then show ?thesis by (simp only:) (intro held_socket_keeps[OF assms(3)], simp_all add: keeps_id_def read_id)
next
  case job_done
  then show ?thesis using job_done_safe[OF assms(3)] by simp
next
  case events
  then show ?thesis using handle_events_safe[OF assms(3,2)] by (metis safe_outcome.simps(1))
next
  case jobs_run
  then show ?thesis using assms(3) by (simp add: ep_safe_def rdata_def[abs_def] shape_def[abs_def])
qed

lemma ep_reach_safe:
  assumes "ep_reach b ctl c" "\<not> ext_timeout b"
  shows "ep_safe (fst c) (snd c)"
  using assms(1)
proof induction
  case (initial st)
  then show ?case by (simp add: ep_safe_initial)
next
  case (step c c')
  then show ?case using ep_step_safe[of b "fst c" "snd c" "fst c'" "snd c'"] assms(2) by simp
qed

lemma allocated_iff_referenced:
  assumes "ep_safe st H"
  shows "socks st p \<noteq> None \<longleftrightarrow> p \<in> H \<or> on_epoll (rdata st) (edata st) p"
proof
  assume "socks st p \<noteq> None"
  then obtain fd d f where "shape st p = Some (fd, d, f)" by (auto simp: shape_def)
  from ep_invD(2)[OF assms[unfolded ep_safe_def] this] show "p \<in> H \<or> on_epoll (rdata st) (edata st) p"
    by (auto split: if_splits)
next
  assume "p \<in> H \<or> on_epoll (rdata st) (edata st) p"
  then have "shape st p \<noteq> None" using unused_socket[OF assms[unfolded ep_safe_def], of p] by blast
  then show "socks st p \<noteq> None" by (simp add: shape_def)
qed

end

text \<open>
  C2: Memory safety of the epoll sockets, in a build without timeouts and on a
  kernel that keeps to \<open>epoll_kernel\<close>: in every state that calls of jobs and
  handled events lead to, a batch of events is handled without touching a freed
  socket or freed data, in both loops; and a socket is allocated exactly as long
  as its job has not given it up or the kernel still reports events for it.
\<close>

theorem epoll_memory_safe:
  assumes "epoll_kernel ctl" "\<not> ext_timeout b" "ep_reach b ctl (st, H)"
  shows "(batch_of EpRead st fds es \<longrightarrow> handle_events (schedi_epoll_handle_read b ctl) es st \<noteq> BadPointer)
    \<and> (batch_of EpWrite st fds es \<longrightarrow> handle_events (schedi_epoll_handle_write b ctl) es st \<noteq> BadPointer)
    \<and> (socks st p \<noteq> None \<longleftrightarrow> p \<in> H \<or> on_epoll (rdata st) (edata st) p)"
proof (intro conjI impI)
  have safe: "ep_safe st H" using epoll_kernel.ep_reach_safe[OF assms(1,3,2)] by simp
  note h = epoll_kernel.handle_events_safe[OF assms(1) safe assms(2)]
  show "batch_of EpRead st fds es \<Longrightarrow> handle_events (schedi_epoll_handle_read b ctl) es st \<noteq> BadPointer"
    using h[of EpRead fds es] by (auto simp: handler_def)
  show "batch_of EpWrite st fds es \<Longrightarrow> handle_events (schedi_epoll_handle_write b ctl) es st \<noteq> BadPointer"
    using h[of EpWrite fds es] by (auto simp: handler_def)
  show "socks st p \<noteq> None \<longleftrightarrow> p \<in> H \<or> on_epoll (rdata st) (edata st) p"
    by (rule epoll_kernel.allocated_iff_referenced[OF assms(1) safe])
qed

section \<open>Making a socket succeeds or leaves nothing behind\<close>

context epoll_kernel
begin

lemma reg_del_read: "reg (schedi_epoll_del_read ctl st fd) = (reg st)(EpRead := (reg st EpRead)(fd := None))"
  by (simp add: schedi_epoll_del_read_def reg_del_one)

lemma timer_push_result:
  assumes "schedi_job_epollsocket_timer_push_epoll ctl d st p k = (r, st')"
  shows "r \<noteq> 0 \<Longrightarrow> reg st' = reg st" "r = 0 \<Longrightarrow> reg st' = (reg st)(EpRead := (reg st EpRead)(to_timer_fd k \<mapsto> (EPOLLIN, d)))"
proof -
  have ev: "EPOLLIN AND EPOLLIN \<noteq> 0" "EPOLLIN AND EPOLLOUT = 0" "EPOLLIN AND NOT EPOLLOUT = EPOLLIN"
    by (simp_all add: EPOLLIN_def EPOLLOUT_def)
  let ?st = "st\<lparr>edata := (edata st)(d \<mapsto> EpollDataSockTo p)\<rparr>"
  obtain a st1 where a: "schedi_epoll_add ctl ?st (to_timer_fd k) d EPOLLIN = (a, st1)" by force
  have neg: "a \<noteq> 0 \<Longrightarrow> a = -1" using reg_add_failure(1)[OF a] by simp
  show "reg st' = reg st" if "r \<noteq> 0"
    using assms that a reg_add_failure(2)[OF a]
    by (auto simp: schedi_job_epollsocket_timer_push_epoll_def Let_def split: if_splits)
  show "reg st' = (reg st)(EpRead := (reg st EpRead)(to_timer_fd k \<mapsto> (EPOLLIN, d)))" if "r = 0"
  proof -
    have "a = 0" "st' = st1"
      using assms that a neg by (auto simp: schedi_job_epollsocket_timer_push_epoll_def Let_def split: if_splits)
    moreover have "reg st1 i x = ((reg st)(EpRead := (reg st EpRead)(to_timer_fd k \<mapsto> (EPOLLIN, d)))) i x" for i x
      using reg_add_success(1)[OF a[unfolded \<open>a = 0\<close>], of i x] ev by (cases i) simp_all
    ultimately show ?thesis by blast
  qed
qed

lemma epollisize_result:
  assumes "schedi_job_epollsocket_epollisize b ctl sets ds st p k = (r, st')"
    and "ext_timeout b \<Longrightarrow> reg st EpRead (to_timer_fd k) = None \<and> to_timer_fd k \<noteq> sock_fd k"
  shows "r \<noteq> 0 \<Longrightarrow> reg st' = reg st"
    and "r = 0 \<Longrightarrow> rdata st' i (sock_fd k) = Some (snd ds) \<and> edata st' (snd ds) = Some (EpollDataSocket p)
      \<and> socks st' p = Some (k\<lparr>data_ptr := snd ds\<rparr>) \<and> (ext_timeout b \<longrightarrow> reg st' EpRead (to_timer_fd k) = Some (EPOLLIN, fst ds))"
proof -
  define s1 where "s1 = (if ext_timeout b then snd (schedi_job_epollsocket_timeout_stop (fst sets) st k) else st)"
  define r1 where "r1 = (if ext_timeout b then fst sets else 0)"
  obtain r2 s2 where p2: "(if ext_timeout b then schedi_job_epollsocket_timer_push_epoll ctl (fst ds) s1 p k
      else (0, s1)) = (r2, s2)" by force
  obtain r3 s3 where p3: "schedi_job_epollsocket_push_epoll ctl (snd ds) s2 p k = (r3, s3)" by force
  define s4 where "s4 = (if ext_timeout b then snd (schedi_job_epollsocket_timeout_reset (snd sets) s3 k) else s3)"
  define r4 where "r4 = (if ext_timeout b then snd sets else 0)"
  define undo where "undo = (\<lambda>s. if ext_timeout b then schedi_epoll_del_read ctl s (to_timer_fd k) else s)"
  have res: "(r, st') = (if r1 \<noteq> 0 then (-1, undo s1) else if r2 \<noteq> 0 then (-1, s2) else if r3 \<noteq> 0 then (-1, undo s3)
      else if r4 \<noteq> 0 then (-1, undo (schedi_epoll_del ctl s4 (sock_fd k))) else (0, s4))"
    using assms(1) p2 p3
    by (cases "ext_timeout b")
      (auto simp: schedi_job_epollsocket_epollisize_def Let_def undo_def s1_def r1_def r4_def s4_def
        schedi_job_epollsocket_timeout_stop_def schedi_job_epollsocket_timeout_reset_def split: if_splits)
  have q1: "reg s1 = reg st" by (simp add: s1_def schedi_job_epollsocket_timeout_stop_def)
  have q4: "reg s4 = reg s3" "edata s4 = edata s3" "socks s4 = socks s3"
    by (simp_all add: s4_def schedi_job_epollsocket_timeout_reset_def)
  have u: "reg (undo s) = reg st" if "\<not> ext_timeout b \<and> reg s = reg st
      \<or> ext_timeout b \<and> (\<forall>i x. reg s i x = reg st i x \<or> i = EpRead \<and> x = to_timer_fd k)" for s
    using that assms(2) by (auto simp: undo_def reg_del_read fun_eq_iff)
  have q2: "r2 \<noteq> 0 \<Longrightarrow> reg s2 = reg st"
    "r2 = 0 \<Longrightarrow> reg s2 = (if ext_timeout b then (reg st)(EpRead := (reg st EpRead)(to_timer_fd k \<mapsto> (EPOLLIN, fst ds))) else reg st)"
    using p2 q1 timer_push_result[of "fst ds" s1 p k r2 s2] by (auto split: if_splits)
  note q3 = push_epoll_result[OF p3]
  show "reg st' = reg st" if "r \<noteq> 0"
  proof -
    have "reg (undo s1) = reg st" by (rule u) (simp add: q1)
    moreover have "reg (undo s3) = reg st" if "r2 = 0" "r3 \<noteq> 0"
      by (rule u) (use q2(2)[OF that(1)] q3(3)[OF that(2)] in auto)
    moreover have "reg (undo (schedi_epoll_del ctl s4 (sock_fd k))) = reg st" if "r2 = 0" "r3 = 0"
    proof (rule u)
      have "reg (schedi_epoll_del ctl s4 (sock_fd k)) i x = reg s2 i x" for i x
      proof (cases "x = sock_fd k")
        case False
        have "reg s3 i x = reg s2 i x" using push_epoll_frame[OF p3 that(2) False] .
        with False q4(1) show ?thesis by (simp add: reg_del)
      qed (use q3(1)[OF that(2), of i] in \<open>simp add: reg_del\<close>)
      then show "\<not> ext_timeout b \<and> reg (schedi_epoll_del ctl s4 (sock_fd k)) = reg st \<or> ext_timeout b \<and>
          (\<forall>i x. reg (schedi_epoll_del ctl s4 (sock_fd k)) i x = reg st i x \<or> i = EpRead \<and> x = to_timer_fd k)"
        using q2(2)[OF that(1)] by (auto simp: fun_eq_iff)
    qed
    ultimately show ?thesis using res that q2(1) by (auto split: if_splits)
  qed
  show "rdata st' i (sock_fd k) = Some (snd ds) \<and> edata st' (snd ds) = Some (EpollDataSocket p)
      \<and> socks st' p = Some (k\<lparr>data_ptr := snd ds\<rparr>) \<and> (ext_timeout b \<longrightarrow> reg st' EpRead (to_timer_fd k) = Some (EPOLLIN, fst ds))"
    if "r = 0"
  proof -
    have z: "r2 = 0" "r3 = 0" "st' = s4" using res that by (auto split: if_splits)
    have "reg s3 EpRead (to_timer_fd k) = reg s2 EpRead (to_timer_fd k)" if "ext_timeout b"
      using push_epoll_frame[OF p3 z(2), of "to_timer_fd k" EpRead] assms(2)[OF that] by simp
    moreover have "rdata s4 i (sock_fd k) = rdata s3 i (sock_fd k)" by (simp add: rdata_def q4(1))
    ultimately show ?thesis using z q3(2)[OF z(2)] q3(4) q4 q2(2)[OF z(1)] by simp
  qed
qed

end

text \<open>
  C22: Making an epoll socket succeeds or leaves nothing behind, in either build and at
  whichever call it fails, for a timer that is not registered yet: the socket is
  registered for both directions (and its timer for reading) and has two
  references; or the interest lists are as they were and the socket is freed.
\<close>

theorem socket_creation_all_or_nothing:
  assumes "epoll_kernel ctl" "schedi_job_tool_epollsocket b ctl tfd sets ds bufs p st job fd rc wc sec = (r, st')"
    and "ext_timeout b \<longrightarrow> interest (ctl_log st) EpRead tfd = None \<and> tfd \<noteq> fd"
  shows "r = None \<and> interest (ctl_log st') = interest (ctl_log st) \<and> socks st' p = None
    \<or> r = Some p \<and> (\<forall>i. map_option snd (interest (ctl_log st') i fd) = Some (snd ds))
      \<and> edata st' (snd ds) = Some (EpollDataSocket p)
      \<and> (ext_timeout b \<longrightarrow> interest (ctl_log st') EpRead tfd = Some (EPOLLIN, fst ds))
      \<and> (\<exists>k. socks st' p = Some k \<and> sock_fd k = fd \<and> data_ptr k = snd ds \<and> fall k = 2)"
proof -
  define k where "k = new_epollsocket b job (gen (jobs (ep_sys st) job)) fd rc wc bufs"
  define k' where "k' = (if ext_timeout b then k\<lparr>timeout_sec := sec, to_timer_fd := tfd\<rparr> else k)"
  have k': "sock_fd k' = fd" "fall k' = 2" "ext_timeout b \<Longrightarrow> to_timer_fd k' = tfd"
    by (simp_all add: k'_def k_def new_epollsocket_def Let_def)
  show ?thesis
  proof (cases "ext_timeout b \<and> tfd = -1")
    case True
    then show ?thesis using assms(2)
      by (auto simp: schedi_job_tool_epollsocket_def Let_def split: if_splits)
  next
    case False
    obtain st1 r2 st2 where e: "schedi_job_epollsocket_epollisize b ctl sets ds st1 p k' = (r2, st2)" "ctl_log st1 = ctl_log st"
      "r2 \<noteq> 0 \<Longrightarrow> r = None \<and> ctl_log st' = ctl_log st2 \<and> socks st' p = None" "r2 = 0 \<Longrightarrow> r = Some p \<and> st' = st2"
    proof -
      let ?s = "st\<lparr>socks := (socks st)(p \<mapsto> k'), wires := (wires st)(p := [])\<rparr>"
      let ?st1 = "if has_flag (sock_htc k) SCHEDI_JOB_EPOLLSOCKET_READY
        then ?s\<lparr>ep_sys := snd (schedi_job_meta_flag_cas_update b (ep_sys ?s) job 1 0 0 0 0 False)\<rparr> else ?s"
      obtain r2 st2 where e: "schedi_job_epollsocket_epollisize b ctl sets ds ?st1 p k' = (r2, st2)" by force
      show ?thesis
        by (rule that[OF e]) (use assms(2) e False in \<open>auto simp: schedi_job_tool_epollsocket_def Let_def k_def[symmetric]
            k'_def[symmetric] close_fd_def split: if_splits\<close>)
    qed
    have "ext_timeout b \<Longrightarrow> reg st1 EpRead (to_timer_fd k') = None \<and> to_timer_fd k' \<noteq> sock_fd k'"
      using assms(3) e(2) k' by simp
    note res = epoll_kernel.epollisize_result[OF assms(1) e(1) this]
    show ?thesis
    proof (cases "r2 = 0")
      case True
      with e(4) res(2)[OF _ True] k' show ?thesis by (auto simp: rdata_def)
    next
      case f: False
      with e(2,3) res(1)[OF _ f] show ?thesis by auto
    qed
  qed
qed

section \<open>Examples\<close>

text \<open>A state with one socket on descriptor 5.\<close>

definition one_socket :: ep_state where
  "one_socket = snd (schedi_job_tool_epollsocket example_build plain_kernel (-1) (0, 0) (0, 7)
     (replicate BUF 0, replicate BUF 0) 0 ep_start 0 5 1 1 0)"

definition hangup :: "nat \<Rightarrow> ep_event" where
  "hangup d = \<lparr>ev_events = EPOLLHUP, ev_data = Some d, ev_recv = (RecvAgain, RecvAgain),
     ev_send = (SendAgain, SendAgain)\<rparr>"

lemma one_socket_reached: "ep_reach example_build plain_kernel (one_socket, {0})"
proof -
  let ?r = "schedi_job_tool_epollsocket example_build plain_kernel (-1) (0, 0) (0, 7)
     (replicate BUF 0, replicate BUF 0) 0 ep_start 0 5 1 1 0"
  have i: "ep_reach example_build plain_kernel (ep_start, {})"
    by (rule ep_reach.initial) (simp add: ep_initial_def ep_start_def)
  have r: "fst ?r = Some 0" by code_simp
  then have "?r = (Some 0, one_socket)" by (simp add: one_socket_def prod_eq_iff)
  from ep_reach.step[OF i ep_step.make_socket[OF _ _ this]] show ?thesis by (simp add: ep_start_def)
qed

theorem epoll_memory_safe_witness:
  "batch_of EpRead one_socket [5] [hangup 7]
    \<and> handle_events (schedi_epoll_handle_read example_build plain_kernel) [hangup 7] one_socket \<noteq> BadPointer"
proof -
  have b: "batch_of EpRead one_socket [5] [hangup 7]" by code_simp
  have "\<not> ext_timeout example_build" by (simp add: example_build_def)
  from epoll_memory_safe[OF plain.epoll_kernel_axioms this one_socket_reached, of "[5]" "[hangup 7]"] b
  show ?thesis by blast
qed

section \<open>Where the promises end\<close>

lemma drop_socket_shape:
  assumes "socks st p = Some k" "shape st p = Some s"
  shows "shape (drop_socket b ctl st d p k) = (shape st)(p := put_down s)"
    and "edata (drop_socket b ctl st d p k) = (edata st)(d := None)"
proof -
  let ?st1 = "free_data (schedi_epoll_del_socketcompletely b ctl st k) d"
  have st1: "socks ?st1 = socks st" "edata ?st1 = (edata st)(d := None)"
    by (simp_all add: schedi_epoll_del_socketcompletely_def schedi_epoll_del_read_def Let_def)
  then have "shape ?st1 = shape st" by (simp add: shape_def fun_eq_iff)
  with st1 assms done_at_shape[of ?st1 p k s b ctl True]
  show "shape (drop_socket b ctl st d p k) = (shape st)(p := put_down s)"
    "edata (drop_socket b ctl st d p k) = (edata st)(d := None)"
    by (simp_all add: drop_socket_def)
qed

lemma hangup_return: "fst (schedi_job_epollsocket_return b rcv sd v EPOLLHUP) = -1"
  by (simp add: schedi_job_epollsocket_return_def Let_def EPOLLHUP_def EPOLLERR_def EPOLLIN_def EPOLLOUT_def)

lemma on_socket_fst:
  "fst (on_socket ctl st p k f) = fst (f \<lparr>sock = k, sys = ep_sys st, epoll_mods = [], timer_resets = 0, wire = wires st p\<rparr>)"
  by (simp add: on_socket_def Let_def case_prod_beta)

lemma on_socket_shape:
  assumes "keeps_id f" "socks st p = Some k"
  shows "shape (snd (on_socket ctl st p k f)) = shape st"
proof -
  let ?v = "\<lparr>sock = k, sys = ep_sys st, epoll_mods = [], timer_resets = 0, wire = wires st p\<rparr>"
  have "sock_id (sock (snd (f ?v))) = sock_id k" "fall (sock (snd (f ?v))) = fall k"
    using assms(1) by (simp_all add: keeps_id_def)
  then show ?thesis
    using assms(2) by (auto simp: shape_upd[OF on_socket_socks(1)] sock_id_def shape_def fun_eq_iff)
qed

text \<open>
  C35: With timeouts a socket can be freed under its job. The timer and the socket are
  registered with different data in the same instance, so one batch can hold an
  event of each; the handler of the timeout gives up the reference of the epoll
  side, and when the socket's own event follows in the batch and reports a
  hang-up, its handler gives it up once more: a socket that its job still holds
  is freed.
\<close>

theorem timeout_and_hangup_free_held_socket:
  assumes "ext_timeout b" "edata st t = Some (EpollDataSockTo p)" "edata st d = Some (EpollDataSocket p)"
    and "socks st p = Some k" "fall k = 2" "\<not> has_flag (sock_htc k) SCHEDI_JOB_EPOLLSOCKET_READY"
    and "ev_data e = Some t"
  shows "\<exists>st'. handle_events (schedi_epoll_handle_read b ctl) [e, hangup d] st = Returns st' \<and> socks st' p = None"
proof -
  let ?f = "\<lambda>v. ((), schedi_job_epollsocket_timeout_cas b v)"
  define st1 where "st1 = snd (on_socket ctl st p k ?f)"
  obtain k1 where k1: "socks st1 p = Some k1" by (simp add: st1_def on_socket_socks)
  have "keeps_id ?f" by (simp add: keeps_id_def schedi_job_epollsocket_timeout_cas_def)
  from on_socket_shape[OF this assms(4), of ctl]
  have s1: "shape st1 p = Some (sock_fd k, data_ptr k, 2)" "edata st1 = edata st"
    using assms(4,5) by (simp_all add: st1_def on_socket_socks shape_def)
  define st2 where "st2 = drop_socket b ctl st1 t p k1"
  have s2: "shape st2 p = Some (sock_fd k, data_ptr k, 1)" "edata st2 d = Some (EpollDataSocket p)"
    using drop_socket_shape[OF k1 s1(1), of b ctl t] s1(2) assms(2,3) by (auto simp: st2_def put_down_def)
  have first: "schedi_epoll_handle_read b ctl st e = Returns st2"
    using assms(1,2,4,6,7) k1
    by (simp add: schedi_epoll_handle_read_def handle_timeout_event_def Let_def st1_def st2_def)
  obtain k2 where k2: "socks st2 p = Some k2" using s2(1) by (auto simp: shape_def)
  let ?g = "\<lambda>v. schedi_job_epollsocket_return b (RecvAgain, RecvAgain) (SendAgain, SendAgain) v EPOLLHUP"
  define st3 where "st3 = snd (on_socket ctl st2 p k2 ?g)"
  obtain k3 where k3: "socks st3 p = Some k3" by (simp add: st3_def on_socket_socks)
  have "keeps_id ?g" by (simp add: keeps_id_def return_id)
  from on_socket_shape[OF this k2, of ctl] s2(1)
  have s3: "shape st3 p = Some (sock_fd k, data_ptr k, 1)" by (simp add: st3_def)
  have second: "schedi_epoll_handle_read b ctl st2 (hangup d) = Returns (drop_socket b ctl st3 d p k3)"
    using s2(2) k2 k3
    by (simp add: schedi_epoll_handle_read_def handle_socket_event_def Let_def hangup_def case_prod_beta
        on_socket_fst hangup_return st3_def)
  have "shape (drop_socket b ctl st3 d p k3) p = None"
    using drop_socket_shape(1)[OF k3 s3, of b ctl d] by (simp add: put_down_def)
  then have "socks (drop_socket b ctl st3 d p k3) p = None" by (simp add: shape_def)
  with first second show ?thesis by simp
qed

definition timed_socket :: ep_state where
  "timed_socket = snd (schedi_job_tool_epollsocket (example_build\<lparr>ext_timeout := True\<rparr>) plain_kernel 6 (0, 0) (3, 7)
     (replicate BUF 0, replicate BUF 0) 0 ep_start 0 5 1 1 30)"

theorem timeout_and_hangup_free_held_socket_witness:
  "socks timed_socket 0 \<noteq> None \<and> batch_of EpRead timed_socket [6, 5] [(hangup 3)\<lparr>ev_events := EPOLLIN\<rparr>, hangup 7]
    \<and> (\<exists>st'. handle_events (schedi_epoll_handle_read (example_build\<lparr>ext_timeout := True\<rparr>) plain_kernel)
         [(hangup 3)\<lparr>ev_events := EPOLLIN\<rparr>, hangup 7] timed_socket = Returns st' \<and> socks st' 0 = None)"
proof -
  have "batch_of EpRead timed_socket [6, 5] [(hangup 3)\<lparr>ev_events := EPOLLIN\<rparr>, hangup 7]"
    "edata timed_socket 3 = Some (EpollDataSockTo 0)" "edata timed_socket 7 = Some (EpollDataSocket 0)"
    "case socks timed_socket 0 of None \<Rightarrow> False
      | Some k \<Rightarrow> fall k = 2 \<and> \<not> has_flag (sock_htc k) SCHEDI_JOB_EPOLLSOCKET_READY"
    by code_simp+
  with timeout_and_hangup_free_held_socket[of "example_build\<lparr>ext_timeout := True\<rparr>" timed_socket 3 0 7 _
      "(hangup 3)\<lparr>ev_events := EPOLLIN\<rparr>" plain_kernel]
  show ?thesis by (cases "socks timed_socket 0") (simp_all add: hangup_def)
qed

text \<open>
  C36: Two one-time requests on one descriptor do not both come back. When one waits
  for reading and the other for writing, the first event takes the descriptor out
  of both lists; the data of the other request stay allocated, but nothing will
  ever report it, and its job keeps waiting.
\<close>

theorem first_event_cancels_other_request:
  assumes "epoll_kernel ctl" "edata st d1 = Some (EpollDataJob r1)" "edata st d2 = Some (EpollDataJob r2)" "d1 \<noteq> d2"
    and "interest (ctl_log st) EpWrite (req_socketfd r1) = Some (m, d2)"
    and "ev_data e = Some d1" "schedi_epoll_handle_read b ctl st e = Returns st'"
  shows "interest (ctl_log st') i (req_socketfd r1) = None \<and> edata st' d2 = Some (EpollDataJob r2)"
proof -
  obtain s where st': "st' = free_data ((schedi_epoll_del ctl st (req_socketfd r1))\<lparr>ep_sys := s\<rparr>) d1"
    using assms(2,6,7) by (auto simp: schedi_epoll_handle_read_def handle_job_event_def Let_def split: option.splits)
  then show ?thesis using assms(3,4) epoll_kernel.reg_del[OF assms(1), of st "req_socketfd r1"] by simp
qed

definition two_requests :: ep_state where
  "two_requests = snd (schedi_job_tool_epoll example_build plain_kernel True (Some 4)
     (snd (schedi_job_tool_epoll example_build plain_kernel True (Some 3) ep_start 0 9 EPOLLIN)) 0 9 EPOLLOUT)"

definition request_event :: ep_event where
  "request_event = (hangup 3)\<lparr>ev_events := EPOLLIN\<rparr>"

theorem first_event_cancels_other_request_witness:
  "\<exists>st'. schedi_epoll_handle_read example_build plain_kernel two_requests request_event = Returns st'
    \<and> interest (ctl_log st') EpWrite 9 = None \<and> edata st' 4 \<noteq> None"
proof -
  define req where "req = \<lparr>req_socketfd = 9, req_owner = 0, req_job_gen = 0, req_list = 0\<rparr>"
  have e: "edata two_requests 3 = Some (EpollDataJob req)" "edata two_requests 4 = Some (EpollDataJob req)"
    "interest (ctl_log two_requests) EpWrite (req_socketfd req) = Some (EPOLLOUT, 4)" "ev_data request_event = Some 3"
    unfolding req_def by code_simp+
  have m: "meta (ep_sys two_requests) 0 AND (SCHEDI_JOB_METAFLAG_UNSTABLE OR SCHEDI_JOB_METAFLAG_WLLDESTROY) = 0
      \<and> SCHEDI_JOB_METAFLAG_GETACCESS (meta (ep_sys two_requests) 0) \<noteq> 15" by code_simp
  obtain s where a: "schedi_job_mark_access (ep_sys two_requests) 0 = (0, s)" using m by (simp add: mark_access_eq Let_def)
  have "request_access_loop (ep_sys two_requests) 0 = Some (0, s)"
    by (subst request_access_loop.simps) (simp add: a)
  then have "schedi_job_epoll_request_return example_build (ep_sys two_requests) req er \<noteq> None" for er
    by (simp add: schedi_job_epoll_request_return_def req_def Let_def)
  then obtain st' where "schedi_epoll_handle_read example_build plain_kernel two_requests request_event = Returns st'"
    using e(1,4) by (fastforce simp: schedi_epoll_handle_read_def handle_job_event_def Let_def split: option.splits)
  with first_event_cancels_other_request[OF plain.epoll_kernel_axioms e(1,2) _ e(3,4) this, of EpWrite]
  show ?thesis by (auto simp: req_def)
qed

theorem socket_creation_all_or_nothing_witness:
  "\<exists>k. socks timed_socket 0 = Some k \<and> sock_fd k = 5 \<and> data_ptr k = 7 \<and> fall k = 2"
proof -
  let ?b = "example_build\<lparr>ext_timeout := True\<rparr>"
  let ?r = "schedi_job_tool_epollsocket ?b plain_kernel 6 (0, 0) (3, 7)
     (replicate BUF 0, replicate BUF 0) 0 ep_start 0 5 1 1 30"
  have "socks timed_socket 0 \<noteq> None" "interest (ctl_log ep_start) EpRead 6 = None" by code_simp+
  moreover have "?r = (fst ?r, timed_socket)" by (simp add: timed_socket_def)
  ultimately show ?thesis
    using socket_creation_all_or_nothing[OF plain.epoll_kernel_axioms, of ?b 6 "(0, 0)" "(3, 7)"
      "(replicate BUF 0, replicate BUF 0)" 0 ep_start 0 5 1 1 30 "fst ?r" timed_socket]
    by auto
qed

end
