(* ===== verification/Epoll_Requests.thy ===== *)
theory Epoll_Requests
  imports Epoll_Memory Lifecycle
begin

text \<open>
  One-time requests of \<^verbatim>\<open>schedi_job_tool_epoll\<close> from the call to the event: how many a job
  can have, what a failed call leaves behind, and that the event undoes what the
  call did. The packed \<^verbatim>\<open>waiting_count\<close> of the owner is the count that matters.
\<close>

section \<open>The waiting count under an update\<close>

abbreviation waiting :: "job \<Rightarrow> int" where
  "waiting x \<equiv> uint (SCHEDI_JOB_METAFLAG_GETWAIT (meta_flag x))"

lemma waiting_range: "0 \<le> waiting x" "waiting x \<le> 15"
  using field_less_16(2)[of "meta_flag x"] by (simp_all add: word_less_alt)

text \<open>A job of which at most the state and the bit READY have changed.\<close>

definition readied :: "job \<Rightarrow> job \<Rightarrow> bool" where
  "readied x x' \<longleftrightarrow> (\<exists>m q. x' = x\<lparr>meta_flag := m, state := q\<rparr> \<and> (\<forall>n. n \<noteq> 5 \<longrightarrow> bit m n = bit (meta_flag x) n))"

lemma setready_readied: "readied (jobs s j) (jobs (snd (schedi_job_setready b s j)) j)"
proof (cases "settled (meta s j) \<and> \<not> bit (meta s j) 5")
  case True
  define m where "m = meta s j OR SCHEDI_JOB_METAFLAG_READY"
  have "\<exists>m'. m' \<in> {m, m AND NOT SCHEDI_JOB_METAFLAG_READY}
      \<and> jobs (snd (schedi_job_setready b s j)) j = (jobs s j)\<lparr>meta_flag := m', state := schedi_job_state_readywaiting\<rparr>"
    using True
    by (auto simp: schedi_job_setready_def Let_def case_prod_beta mark_ready_eq schedi_job_unmark_ready_def
        unmark_or_snd m_def[symmetric])
  then obtain m' where m': "m' \<in> {m, m AND NOT SCHEDI_JOB_METAFLAG_READY}"
    "jobs (snd (schedi_job_setready b s j)) j = (jobs s j)\<lparr>meta_flag := m', state := schedi_job_state_readywaiting\<rparr>"
    by blast
  have "bit m' n = bit (meta s j) n" if "n \<noteq> 5" for n
    using that m'(1) bit_imp_le_length[of "meta s j" n]
    by (auto simp: m_def bit_or_iff bit_and_iff bit_not_iff bit_flags)
  with m'(2) show ?thesis unfolding readied_def by blast
next
  case False
  then have "jobs (snd (schedi_job_setready b s j)) j = (jobs s j)\<lparr>state := schedi_job_state_readywaiting\<rparr>"
    by (subst setready_banned) auto
  then show ?thesis unfolding readied_def
    by (intro exI[of _ "meta s j"] exI[of _ schedi_job_state_readywaiting]) simp
qed

text \<open>A job whose waiting count is now \<open>w\<close>, with the same accesses and the same protection.\<close>

definition rewaited :: "job \<Rightarrow> int \<Rightarrow> job \<Rightarrow> bool" where
  "rewaited x w x' \<longleftrightarrow> (\<exists>m q. x' = x\<lparr>meta_flag := m, state := q\<rparr>) \<and> waiting x' = w
     \<and> SCHEDI_JOB_METAFLAG_GETACCESS (meta_flag x') = SCHEDI_JOB_METAFLAG_GETACCESS (meta_flag x)
     \<and> settled (meta_flag x') = settled (meta_flag x)"

lemma rewaited_refl: "rewaited x (waiting x) x"
  unfolding rewaited_def by (intro conjI exI[of _ "meta_flag x"] exI[of _ "state x"]) simp_all

lemma rewaited_trans: "rewaited x w x' \<Longrightarrow> rewaited x' w' x'' \<Longrightarrow> rewaited x w' x''"
  unfolding rewaited_def by auto blast+

lemma rewaited_readied:
  assumes "rewaited x w x'" "readied x' x''"
  shows "rewaited x w x''"
proof -
  obtain m q where m: "x'' = x'\<lparr>meta_flag := m, state := q\<rparr>" "\<And>n. n \<noteq> 5 \<Longrightarrow> bit m n = bit (meta_flag x') n"
    using assms(2) by (auto simp: readied_def)
  have "SCHEDI_JOB_METAFLAG_GETWAIT m = SCHEDI_JOB_METAFLAG_GETWAIT (meta_flag x')"
    "SCHEDI_JOB_METAFLAG_GETACCESS m = SCHEDI_JOB_METAFLAG_GETACCESS (meta_flag x')"
    by (rule get_cong, simp add: m(2))+
  moreover have "settled m = settled (meta_flag x')" by (simp add: settled_iff m(2))
  ultimately have "rewaited x' w x''" using assms(1) m(1) by (auto simp: rewaited_def)
  with assms(1) show ?thesis by (rule rewaited_trans)
qed

lemma wait_update:
  assumes "schedi_job_meta_flag_cas_update b s j 0 wd 0 0 0 False = (r, s')"
  shows "waiting (jobs s j) + wd \<in> {0..15} \<Longrightarrow> r = 0 \<and> rewaited (jobs s j) (waiting (jobs s j) + wd) (jobs s' j)"
    and "waiting (jobs s j) + wd \<notin> {0..15} \<Longrightarrow> r = -1 \<and> s' = s"
proof -
  let ?m = "meta s j"
  have rg: "uint (SCHEDI_JOB_METAFLAG_GETAVSOCK ?m) + 0 \<in> {0..15}" "uint (SCHEDI_JOB_METAFLAG_GETAVJOBS ?m) + 0 \<in> {0..15}"
    using field_less_16(1,3)[of ?m] by (simp_all add: word_less_alt)
  have ban: "meta_ban 0 False ?m = 0" by (simp add: meta_ban_def)
  let ?body = "cas_update_body (required_available_sockets (jobs s j)) (required_available_jobs (jobs s j)) 0 wd 0 0 0 False ?m"
  show "r = 0 \<and> rewaited (jobs s j) (waiting (jobs s j) + wd) (jobs s' j)" if w: "waiting (jobs s j) + wd \<in> {0..15}"
  proof -
    obtain d c where d: "?body = CasTry d c"
      using rg w ban by (auto simp: cas_update_body_def Let_def)
    note t = cas_update_body_tryD[OF d]
    have q: "basic_flag (0 :: u32)" by (simp add: basic_flag_def)
    note f = cas_update_desired_fields[OF t(1-6) q t(7)]
    have "settled d = settled ?m" using cas_update_swap_bits(1,2)[OF d] by (simp add: settled_iff)
    then have rw: "rewaited (jobs s j) (waiting (jobs s j) + wd) ((jobs s j)\<lparr>meta_flag := d\<rparr>)"
      using f unfolding rewaited_def
      by (intro conjI exI[of _ d] exI[of _ "state (jobs s j)"]) simp_all
    have "rewaited (jobs s j) (waiting (jobs s j) + wd) (jobs (snd (schedi_job_setready b (set_meta j d s) j)) j)"
      using rewaited_readied[OF rw] setready_readied[of "set_meta j d s" j b] by simp
    with rw show ?thesis using assms t(8) by (auto simp: cas_update_eq d split: if_splits)
  qed
  show "r = -1 \<and> s' = s" if "waiting (jobs s j) + wd \<notin> {0..15}"
    using assms that ban by (auto simp: cas_update_eq cas_update_body_def Let_def split: if_splits)
qed

section \<open>Making a request\<close>

lemma add_owner:
  "ep_sys (snd (schedi_epoll_add ctl st fd d ev)) = ep_sys st" "fst (schedi_epoll_add ctl st fd d ev) \<in> {0, -1}"
  by (auto simp: schedi_epoll_add_def Let_def case_prod_beta split: option.splits if_splits)

definition counted :: "job \<Rightarrow> job" where
  "counted x = x\<lparr>total_req := total_req x + 1\<rparr>"

definition request_for :: "ep_state \<Rightarrow> nat \<Rightarrow> int \<Rightarrow> epoll_request" where
  "request_for st job fd =
     \<lparr>req_socketfd = fd, req_owner = job, req_job_gen = gen (jobs (ep_sys st) job), req_list = job\<rparr>"

lemma tool_epoll_full:
  assumes "schedi_job_tool_epoll b ctl True mem st job fd events = (r, st')" "waiting (jobs (ep_sys st) job) = 15"
  shows "r = -4 \<and> jobs (ep_sys st') job = counted (jobs (ep_sys st) job)"
proof -
  let ?s1 = "upd_job job (\<lambda>x. x\<lparr>total_req := total_req x + 1\<rparr>) (ep_sys st)"
  obtain r1 s2 where u: "schedi_job_meta_flag_cas_update b ?s1 job 0 1 0 0 0 False = (r1, s2)" by force
  have "r1 = -1 \<and> s2 = ?s1" using wait_update(2)[OF u] assms(2) by simp
  then show ?thesis using assms(1) by (auto simp: schedi_job_tool_epoll_def Let_def u counted_def)
qed

lemma tool_epoll_room:
  assumes "schedi_job_tool_epoll b ctl True mem st job fd events = (r, st')" "waiting (jobs (ep_sys st) job) \<noteq> 15"
  obtains (failed) "r \<in> {-2, -3}" "rewaited (counted (jobs (ep_sys st) job)) (waiting (jobs (ep_sys st) job)) (jobs (ep_sys st') job)"
  | (made) d s2 where "r = 0" "mem = Some d" "ep_sys st' = s2" "\<And>i. i \<noteq> job \<Longrightarrow> jobs s2 i = jobs (ep_sys st) i"
      "rewaited (counted (jobs (ep_sys st) job)) (waiting (jobs (ep_sys st) job) + 1) (jobs s2 job)"
      "schedi_epoll_add ctl (st\<lparr>ep_sys := s2, edata := (edata st)(d \<mapsto> EpollDataJob (request_for st job fd))\<rparr>) fd d events = (0, st')"
proof -
  let ?x = "jobs (ep_sys st) job"
  let ?s1 = "upd_job job (\<lambda>x. x\<lparr>total_req := total_req x + 1\<rparr>) (ep_sys st)"
  obtain r1 s2 where u: "schedi_job_meta_flag_cas_update b ?s1 job 0 1 0 0 0 False = (r1, s2)" by force
  have x1: "jobs ?s1 job = counted ?x" "waiting (counted ?x) = waiting ?x" by (simp_all add: counted_def)
  have w: "waiting ?x + 1 \<in> {0..15}" using waiting_range[of ?x] assms(2) by simp
  have up: "r1 = 0" "rewaited (counted ?x) (waiting ?x + 1) (jobs s2 job)" using wait_update(1)[OF u] w x1 by simp_all
  obtain ru s3 where un: "schedi_job_meta_flag_cas_update b s2 job 0 (-1) 0 0 0 False = (ru, s3)" by force
  have "waiting (jobs s2 job) = waiting ?x + 1" using up(2) by (simp add: rewaited_def)
  with wait_update(1)[OF un] w have "rewaited (jobs s2 job) (waiting ?x) (jobs s3 job)"
    using waiting_range[of ?x] by simp
  with up(2) have undone: "rewaited (counted ?x) (waiting ?x) (jobs s3 job)" by (rule rewaited_trans)
  have others: "jobs s2 i = jobs (ep_sys st) i" if "i \<noteq> job" for i
    using cas_update_frame(1)[OF that, of b ?s1 0 1 0 0 0 False] that by (simp add: u)
  note df = assms(1)[unfolded schedi_job_tool_epoll_def Let_def request_for_def[symmetric] u, simplified]
  show ?thesis
  proof (cases mem)
    case None
    with df up(1) un undone show ?thesis by (intro failed) auto
  next
    case (Some d)
    let ?st0 = "st\<lparr>ep_sys := s2, edata := (edata st)(d \<mapsto> EpollDataJob (request_for st job fd))\<rparr>"
    obtain a st1 where a: "schedi_epoll_add ctl ?st0 fd d events = (a, st1)" by force
    have f: "ep_sys st1 = s2" "a \<in> {0, -1}" using add_owner[of ctl ?st0 fd d events] by (simp_all add: a)
    show ?thesis
    proof (cases "a = 0")
      case True
      with df up(1) Some a have "r = 0" "st' = st1" by auto
      with True Some up(2) f a others show ?thesis by (intro made[of d s2]) simp_all
    next
      case False
      with f(2) df up(1) Some a un have "r = -3" "ep_sys st' = s3" by (auto simp: f(1))
      with undone show ?thesis by (intro failed) simp_all
    qed
  qed
qed

section \<open>The number of outstanding requests\<close>

text \<open>
  C30: A job has at most 15 outstanding requests, and the count never wraps. The call
  is refused with -4 exactly when 15 are outstanding; a call that succeeds adds one
  and a call that fails, at whichever step, leaves the waiting count as it was.
  (\<^verbatim>\<open>total_req\<close> grows by one in every case, also for a request that was never made.)
\<close>

theorem outstanding_requests_bounded:
  assumes "schedi_job_tool_epoll b ctl True mem st job fd events = (r, st')"
  shows "(r = -4 \<longleftrightarrow> uint (SCHEDI_JOB_METAFLAG_GETWAIT (meta (ep_sys st) job)) = 15)
    \<and> uint (SCHEDI_JOB_METAFLAG_GETWAIT (meta (ep_sys st') job)) =
        uint (SCHEDI_JOB_METAFLAG_GETWAIT (meta (ep_sys st) job)) + (if r = 0 then 1 else 0)
    \<and> uint (SCHEDI_JOB_METAFLAG_GETWAIT (meta (ep_sys st') job)) \<le> 15
    \<and> total_req (jobs (ep_sys st') job) = total_req (jobs (ep_sys st) job) + 1"
proof (cases "waiting (jobs (ep_sys st) job) = 15")
  case True
  with tool_epoll_full[OF assms] show ?thesis by (simp add: counted_def)
next
  case False
  show ?thesis
  proof (use assms False in \<open>cases rule: tool_epoll_room\<close>)
    case failed
    with False show ?thesis using waiting_range[of "jobs (ep_sys st) job"] by (auto simp: rewaited_def counted_def)
  next
    case (made d s2)
    with False show ?thesis using waiting_range[of "jobs (ep_sys st) job"] by (auto simp: rewaited_def counted_def)
  qed
qed

section \<open>The event of a request\<close>

definition returned_count :: "bool \<Rightarrow> job \<Rightarrow> job" where
  "returned_count err x = (if err then x\<lparr>err_count := err_count x + 1\<rparr> else x\<lparr>ret_count := ret_count x + 1\<rparr>)"

lemma request_return_effect:
  fixes s :: "'a jobsys_scheme"
  assumes "settled (meta s o')" "SCHEDI_JOB_METAFLAG_GETACCESS (meta s o') \<noteq> 15" "0 < waiting (jobs s o')"
    and "req_owner req = o'" "req_list req = o'" "req_job_gen req = gen (jobs s o')"
  obtains s' where "schedi_job_epoll_request_return b s req err = Some (0, s')"
    "rewaited (returned_count err (jobs s o')) (waiting (jobs s o') - 1) (jobs s' o')"
    "\<And>i. i \<noteq> o' \<Longrightarrow> jobs s' i = jobs s i"
proof -
  let ?a = "SCHEDI_JOB_METAFLAG_GETACCESS (meta s o')"
  let ?m = "SCHEDI_JOB_METAFLAG_SETACCESS (meta s o') (?a + 1)"
  have lt: "?a + 1 < 16" by (rule access_plus_less[OF assms(2)])
  define s1 where "s1 = set_meta o' ?m s"
  define s2 where "s2 = upd_job o' (returned_count err) s1"
  obtain r s3 where s3: "schedi_job_meta_flag_cas_update b s2 o' 0 (-1) 0 0 0 False = (r, s3)" by force
  define s4 where "s4 = snd (schedi_job_unmark_access s3 o')"
  have wait: "SCHEDI_JOB_METAFLAG_GETWAIT (SCHEDI_JOB_METAFLAG_SETACCESS m x) = SCHEDI_JOB_METAFLAG_GETWAIT m" for m x
    by (rule get_cong) (simp add: bit_set_access)
  have setl: "settled (SCHEDI_JOB_METAFLAG_SETACCESS m x) = settled m" for m x by (simp add: settled_iff bit_set_access)
  have j2: "jobs s2 o' = (returned_count err (jobs s o'))\<lparr>meta_flag := ?m\<rparr>" by (simp add: s2_def s1_def returned_count_def)
  have "waiting (jobs s2 o') + -1 \<in> {0..15}" using waiting_range[of "jobs s o'"] assms(3) by (simp add: j2 wait)
  from wait_update(1)[OF s3 this] obtain m3 q where j3: "jobs s3 o' = (jobs s2 o')\<lparr>meta_flag := m3, state := q\<rparr>"
    and m3: "uint (SCHEDI_JOB_METAFLAG_GETWAIT m3) = waiting (jobs s o') - 1" "SCHEDI_JOB_METAFLAG_GETACCESS m3 = ?a + 1"
      "settled m3"
    using lt assms(1) by (auto simp: rewaited_def j2 wait setl)
  have j4: "jobs s4 o' = (jobs s3 o')\<lparr>meta_flag := SCHEDI_JOB_METAFLAG_SETACCESS m3 ?a\<rparr>"
    using m3(2,3) by (simp add: s4_def unmark_access_eq Let_def j3 settled_iff)
  have rw: "rewaited (returned_count err (jobs s o')) (waiting (jobs s o') - 1) (jobs s4 o')"
    unfolding rewaited_def
    using assms(1) m3 field_less_16(4)[of "meta s o'"]
    by (intro conjI exI[of _ "SCHEDI_JOB_METAFLAG_SETACCESS m3 ?a"] exI[of _ q])
      (simp_all add: j4 j3 j2 wait setl returned_count_def)
  have oth: "jobs s4 i = jobs s i" if "i \<noteq> o'" for i
    using that cas_update_frame(1)[OF that, of b s2 0 "-1" 0 0 0 False, unfolded s3]
    by (simp add: s4_def unmark_access_eq Let_def s2_def s1_def)
  have upd: "s2 = (if err then upd_job o' (\<lambda>x. x\<lparr>err_count := err_count x + 1\<rparr>) s1
      else upd_job o' (\<lambda>x. x\<lparr>ret_count := ret_count x + 1\<rparr>) s1)"
    by (simp add: s2_def returned_count_def[abs_def])
  have "request_access_loop s o' = Some (0, s1)" using request_access_ends(2)[OF assms(1,2)] by (simp add: s1_def)
  moreover have "gen (jobs s1 o') = req_job_gen req" using assms(6) by (simp add: s1_def)
  ultimately have "schedi_job_epoll_request_return b s req err = Some (0, s4)"
    using assms(4,5) s3[unfolded upd]
    by (cases err) (simp_all add: schedi_job_epoll_request_return_def Let_def s4_def)
  from that[OF this rw oth] show ?thesis by blast
qed

section \<open>From the call to the event\<close>

text \<open>
  C23: A one-time request comes back. When the call succeeded and the event arrives
  while the owner can be accessed, the handler of either direction returns; the
  owner's waiting count and access count are what they were before the call, one
  more event or error is counted, the descriptor is out of both interest lists, the
  data are freed, and no other job is touched.
\<close>

theorem one_time_request_round_trip:
  assumes "epoll_kernel ctl" "schedi_job_tool_epoll b ctl True (Some d) st job fd events = (0, st1)"
    and "settled (meta (ep_sys st) job)" "SCHEDI_JOB_METAFLAG_GETACCESS (meta (ep_sys st) job) \<noteq> 15"
    and "ev_data e = Some d" "h \<in> {schedi_epoll_handle_read b ctl, schedi_epoll_handle_write b ctl}"
  shows "\<exists>st2. h st1 e = Returns st2
    \<and> SCHEDI_JOB_METAFLAG_GETWAIT (meta (ep_sys st2) job) = SCHEDI_JOB_METAFLAG_GETWAIT (meta (ep_sys st) job)
    \<and> SCHEDI_JOB_METAFLAG_GETACCESS (meta (ep_sys st2) job) = SCHEDI_JOB_METAFLAG_GETACCESS (meta (ep_sys st) job)
    \<and> (if ev_events e AND (EPOLLERR OR EPOLLHUP) \<noteq> 0
       then err_count (jobs (ep_sys st2) job) = err_count (jobs (ep_sys st) job) + 1
       else ret_count (jobs (ep_sys st2) job) = ret_count (jobs (ep_sys st) job) + 1)
    \<and> edata st2 = (edata st)(d := None)
    \<and> (\<forall>i. interest (ctl_log st2) i fd = None)
    \<and> (\<forall>i. i \<noteq> job \<longrightarrow> jobs (ep_sys st2) i = jobs (ep_sys st) i)"
proof -
  let ?x = "jobs (ep_sys st) job"
  let ?req = "request_for st job fd"
  let ?err = "ev_events e AND (EPOLLERR OR EPOLLHUP) \<noteq> 0"
  have room: "waiting ?x \<noteq> 15" using tool_epoll_full[OF assms(2)] by auto
  obtain s2 where s2: "ep_sys st1 = s2" "\<And>i. i \<noteq> job \<Longrightarrow> jobs s2 i = jobs (ep_sys st) i"
    "rewaited (counted ?x) (waiting ?x + 1) (jobs s2 job)"
    "schedi_epoll_add ctl (st\<lparr>ep_sys := s2, edata := (edata st)(d \<mapsto> EpollDataJob ?req)\<rparr>) fd d events = (0, st1)"
  proof (use assms(2) room in \<open>cases rule: tool_epoll_room\<close>)
    case (made d' s2)
    with that show thesis by simp
  qed simp
  have data: "edata st1 = (edata st)(d \<mapsto> EpollDataJob ?req)"
    using epoll_kernel.reg_add_success(4)[OF assms(1) s2(4)] by simp
  have own: "settled (meta s2 job)" "SCHEDI_JOB_METAFLAG_GETACCESS (meta s2 job) = SCHEDI_JOB_METAFLAG_GETACCESS (meta_flag ?x)"
    "waiting (jobs s2 job) = waiting ?x + 1" "gen (jobs s2 job) = gen ?x"
    "err_count (jobs s2 job) = err_count ?x" "ret_count (jobs s2 job) = ret_count ?x"
    using s2(3) assms(3) by (auto simp: rewaited_def counted_def)
  have "SCHEDI_JOB_METAFLAG_GETACCESS (meta s2 job) \<noteq> 15" "0 < waiting (jobs s2 job)"
    using own(2,3) assms(4) waiting_range[of ?x] by simp_all
  from request_return_effect[OF own(1) this, of ?req b ?err] own(4) obtain s' where
    s': "schedi_job_epoll_request_return b s2 ?req ?err = Some (0, s')"
      "rewaited (returned_count ?err (jobs s2 job)) (waiting (jobs s2 job) - 1) (jobs s' job)"
      "\<And>i. i \<noteq> job \<Longrightarrow> jobs s' i = jobs s2 i"
    by (auto simp: request_for_def)
  define st2 where "st2 = free_data ((schedi_epoll_del ctl st1 fd)\<lparr>ep_sys := s'\<rparr>) d"
  have "h st1 e = handle_job_event b ctl st1 d ?req (ev_events e)"
    using assms(5,6) data by (auto simp: schedi_epoll_handle_read_def schedi_epoll_handle_write_def)
  also have "\<dots> = Returns st2"
    using s'(1) by (simp add: handle_job_event_def Let_def request_for_def st2_def s2(1))
  finally have ret: "h st1 e = Returns st2" .
  have "SCHEDI_JOB_METAFLAG_GETWAIT (meta s' job) = SCHEDI_JOB_METAFLAG_GETWAIT (meta_flag ?x)"
    using s'(2) own(3) by (simp add: rewaited_def word_uint_eq_iff)
  moreover have "SCHEDI_JOB_METAFLAG_GETACCESS (meta s' job) = SCHEDI_JOB_METAFLAG_GETACCESS (meta_flag ?x)"
    using s'(2) own(2) by (simp add: rewaited_def returned_count_def)
  moreover have "if ?err then err_count (jobs s' job) = err_count ?x + 1 else ret_count (jobs s' job) = ret_count ?x + 1"
    using s'(2) own(5,6) by (auto simp: rewaited_def returned_count_def split: if_splits)
  moreover have "edata st2 = (edata st)(d := None)" by (simp add: st2_def free_data_def data)
  moreover have "interest (ctl_log st2) i fd = None" for i
    using epoll_kernel.reg_del[OF assms(1), of st1 fd i fd] by (simp add: st2_def)
  moreover have "jobs s' i = jobs (ep_sys st) i" if "i \<noteq> job" for i using that s'(3) s2(2) by simp
  moreover have "ep_sys st2 = s'" by (simp add: st2_def)
  ultimately show ?thesis using ret by blast
qed

text \<open>One request on descriptor 9 and its event; a job with 15 outstanding requests.\<close>

definition one_request :: ep_state where
  "one_request = snd (schedi_job_tool_epoll example_build plain_kernel True (Some 3) ep_start 0 9 EPOLLIN)"

theorem one_time_request_round_trip_witness:
  "\<exists>st2. schedi_epoll_handle_read example_build plain_kernel one_request request_event = Returns st2
    \<and> ret_count (jobs (ep_sys st2) 0) = 1 \<and> edata st2 3 = None \<and> interest (ctl_log st2) EpRead 9 = None"
proof -
  let ?r = "schedi_job_tool_epoll example_build plain_kernel True (Some 3) ep_start 0 9 EPOLLIN"
  have "fst ?r = 0" by code_simp
  then have r: "?r = (0, one_request)" by (simp add: one_request_def prod_eq_iff)
  have m: "settled (meta (ep_sys ep_start) 0)" "SCHEDI_JOB_METAFLAG_GETACCESS (meta (ep_sys ep_start) 0) \<noteq> 15"
    "ev_data request_event = Some 3" "ev_events request_event AND (EPOLLERR OR EPOLLHUP) = 0"
    "ret_count (jobs (ep_sys ep_start) 0) = 0" by code_simp+
  have h: "schedi_epoll_handle_read example_build plain_kernel \<in>
    {schedi_epoll_handle_read example_build plain_kernel, schedi_epoll_handle_write example_build plain_kernel}" by simp
  from one_time_request_round_trip[OF plain.epoll_kernel_axioms r m(1-3) h] m(4,5) show ?thesis by auto
qed

definition full_job :: ep_state where
  "full_job = ep_start\<lparr>ep_sys := set_meta 0 (SCHEDI_JOB_METAFLAG_SETWAIT SCHEDI_JOB_METAFLAG_ALIVE 15) (ep_sys ep_start)\<rparr>"

theorem outstanding_requests_bounded_witness:
  "fst (schedi_job_tool_epoll example_build plain_kernel True (Some 3) full_job 0 9 EPOLLIN) = -4"
proof -
  let ?r = "schedi_job_tool_epoll example_build plain_kernel True (Some 3) full_job 0 9 EPOLLIN"
  have "uint (SCHEDI_JOB_METAFLAG_GETWAIT (meta (ep_sys full_job) 0)) = 15" by code_simp
  with outstanding_requests_bounded[of example_build plain_kernel "Some 3" full_job 0 9 EPOLLIN "fst ?r" "snd ?r"]
  show ?thesis by simp
qed


end
