(* ===== verification/Socket_Streams.thy ===== *)
theory Socket_Streams
  imports Epoll
begin

text \<open>
  What a job can rely on of an epoll socket: bytes go out and come in once and in
  order, and a ready socket accepts and gives as many bytes as its thresholds say.
\<close>

section \<open>The remaining operations keep the rings\<close>

text \<open>Words that agree below the flags have the same fill counts.\<close>

lemma same_fields:
  assumes "\<And>n. n < 2 * shift b \<Longrightarrow> bit h' n = bit h n"
  shows "cnt b h' = cnt b h" "avl b h' = avl b h"
proof -
  have "h' AND mask (shift b) = h AND mask (shift b)"
    "drop_bit (shift b) h' AND mask (shift b) = drop_bit (shift b) h AND mask (shift b)"
    using assms by (intro bit_word_eqI; simp add: bit_and_iff bit_mask_word bit_drop_bit_eq; auto)+
  then show "cnt b h' = cnt b h" "avl b h' = avl b h" by (simp_all add: cnt_def avl_def)
qed

lemma same_rings:
  assumes "sock_ok b k" "\<not> timed_out b k" "k' = k\<lparr>sock_htc := h, fall := f\<rparr>"
    and "\<And>n. n < 58 \<or> n = 60 \<or> n = 61 \<Longrightarrow> bit h n = bit (sock_htc k) n" "flags_ok h"
  shows "incoming b k' = incoming b k" "outgoing b k' = outgoing b k" "sock_ok b k'" "\<not> timed_out b k'"
proof -
  note f = same_fields[of b h "sock_htc k", OF assms(4)]
  have f: "cnt b h = cnt b (sock_htc k)" "avl b h = avl b (sock_htc k)"
    using f shift_bounds(2)[of b] by simp_all
  show "incoming b k' = incoming b k" "outgoing b k' = outgoing b k"
    using assms(3) f by (simp_all add: incoming_def outgoing_def)
  show "sock_ok b k'" "\<not> timed_out b k'"
    using assms f by (simp_all add: sock_ok_def timed_out_def socket_flag_iff)
qed

lemma done_side_effect:
  assumes "sock_ok b (sock st)" "\<not> timed_out b (sock st)" "schedi_job_epollsocket_done_side b st side = (r, st')"
  shows "incoming b (sock st') = incoming b (sock st)" "outgoing b (sock st') = outgoing b (sock st)"
    and "sock_ok b (sock st')" "\<not> timed_out b (sock st')" "wire st' = wire st"
proof -
  define body where "body = (if side then socket_or_body (SCHEDI_JOB_EPOLLSOCKET_EPOLLDID OR SCHEDI_JOB_EPOLLSOCKET_READY)
    else done_jobside_body)"
  obtain h where h: "body (sock_htc (sock st)) = CasTry h (Some (sock_htc (sock st), h))"
    by (cases side) (simp_all add: body_def socket_or_body_def done_jobside_body_def Let_def)
  have st': "st' = (let st1 = socket_cas b body st in st1\<lparr>sock := (sock st1)\<lparr>fall := fall (sock st1) - 1\<rparr>\<rparr>)"
    using assms(3) by (auto simp: schedi_job_epollsocket_done_side_def schedi_job_epollsocket_done_cas_jobside_def
        schedi_job_epollsocket_done_cas_epollside_def body_def Let_def)
  have k: "sock st' = (sock st)\<lparr>sock_htc := h, fall := fall (sock st) - 1\<rparr>"
    using socket_cas_sock[of body st h _ h b, OF h] by (simp add: st' Let_def)
  have bits: "bit h n = bit (sock_htc (sock st)) n" if "n < 58 \<or> n = 60 \<or> n = 61" for n
    using h that bit_imp_le_length[of "sock_htc (sock st)" n]
    by (auto simp: body_def socket_or_body_def done_jobside_body_def Let_def bit_or_iff bit_and_iff bit_not_iff
        bit_socket_flags split: if_splits)
  have "flags_ok h"
    using h assms(1) by (auto simp: sock_ok_def body_def socket_or_body_def done_jobside_body_def Let_def bit_or_iff
        bit_and_iff bit_not_iff bit_socket_flags socket_flag_iff flags_ok_def socket_ready_def split: if_splits)
  note same_rings[OF assms(1,2) k bits this]
  then show "incoming b (sock st') = incoming b (sock st)" "outgoing b (sock st') = outgoing b (sock st)"
    "sock_ok b (sock st')" "\<not> timed_out b (sock st')" "wire st' = wire st"
    by (simp_all add: st' Let_def)
qed

text \<open>New thresholds.\<close>

lemma read_cond_effect:
  assumes "sock_ok b (sock st)" "\<not> timed_out b (sock st)" "st' = schedi_job_tool_epollsocket_read_cond b st c"
  shows "incoming b (sock st') = incoming b (sock st)" "outgoing b (sock st') = outgoing b (sock st)"
    and "sock_ok b (sock st')" "\<not> timed_out b (sock st')" "wire st' = wire st"
proof -
  let ?st = "st\<lparr>sock := (sock st)\<lparr>read_count_condition := c\<rparr>\<rparr>"
  let ?h = "sock_htc (sock st)"
  have nt: "\<not> timed_out b (sock ?st)" using assms(2) by (simp add: timed_out_def)
  have le: "cnt b ?h \<le> BUF" using assms(1) by (simp add: sock_ok_def)
  have z: "int (cnt b (sock_htc (sock ?st))) + 0 = int (cnt b ?h)" by simp
  obtain d where d: "sock (schedi_job_epollsocket_count_add b ?st 0 False) = (sock ?st)\<lparr>sock_htc := d\<rparr>"
    "cnt b d = cnt b ?h" "avl b d = avl b ?h" "bit d 60 \<longleftrightarrow> unat c \<le> cnt b ?h" "bit d 61 = bit ?h 61"
    "recomputed ?h d False"
    by (rule count_add_sock[OF nt z le, of False]) simp_all
  have k: "sock st' = (sock st)\<lparr>read_count_condition := c, sock_htc := d\<rparr>" "wire st' = wire st"
    using assms(3) d(1) by (simp_all add: schedi_job_tool_epollsocket_read_cond_def count_add_wire)
  show "incoming b (sock st') = incoming b (sock st)" "outgoing b (sock st') = outgoing b (sock st)" "wire st' = wire st"
    using k d by (simp_all add: incoming_def outgoing_def)
  show "sock_ok b (sock st')" using assms(1) k d recomputed_flags[OF d(6)] by (simp add: sock_ok_def socket_flag_iff)
  show "\<not> timed_out b (sock st')" using assms(2) k d(6) by (simp add: timed_out_def socket_flag_iff recomputed_def)
qed

lemma write_cond_effect:
  assumes "sock_ok b (sock st)" "\<not> timed_out b (sock st)" "st' = schedi_job_tool_epollsocket_write_cond b st c"
  shows "incoming b (sock st') = incoming b (sock st)" "outgoing b (sock st') = outgoing b (sock st)"
    and "sock_ok b (sock st')" "\<not> timed_out b (sock st')" "wire st' = wire st"
proof -
  let ?st = "st\<lparr>sock := (sock st)\<lparr>write_avail_condition := c\<rparr>\<rparr>"
  let ?h = "sock_htc (sock st)"
  have nt: "\<not> timed_out b (sock ?st)" using assms(2) by (simp add: timed_out_def)
  have le: "avl b ?h \<le> BUF" using assms(1) by (simp add: sock_ok_def)
  have z: "int (avl b (sock_htc (sock ?st))) + 0 = int (avl b ?h)" by simp
  obtain d where d: "sock (schedi_job_epollsocket_avail_add b ?st 0 False) = (sock ?st)\<lparr>sock_htc := d\<rparr>"
    "avl b d = avl b ?h" "cnt b d = cnt b ?h" "bit d 61 \<longleftrightarrow> unat c \<le> avl b ?h" "bit d 60 = bit ?h 60"
    "ext_timeout b \<longrightarrow> bit d 57 = bit ?h 57" "flags_ok d"
    by (rule avail_add_sock[OF nt z le, of False]) simp_all
  have k: "sock st' = (sock st)\<lparr>write_avail_condition := c, sock_htc := d\<rparr>" "wire st' = wire st"
    using assms(3) d(1)
    by (simp_all add: schedi_job_tool_epollsocket_write_cond_def schedi_job_epollsocket_avail_add_def)
  show "incoming b (sock st') = incoming b (sock st)" "outgoing b (sock st') = outgoing b (sock st)" "wire st' = wire st"
    using k d by (simp_all add: incoming_def outgoing_def)
  show "sock_ok b (sock st')" using assms(1) k d by (simp add: sock_ok_def socket_flag_iff)
  show "\<not> timed_out b (sock st')" using assms(2) k d(6) by (auto simp: timed_out_def socket_flag_iff)
qed

text \<open>An event of the socket's descriptor.\<close>

lemma return_effect:
  assumes "sock_ok b (sock st)" "\<not> timed_out b (sock st)"
    and "fill_fits b (sock st) (fst rcv) (snd rcv)" "flush_fits b (sock st) (fst sd) (snd sd)"
    and "schedi_job_epollsocket_return b rcv sd st ev = (r, st')"
  shows "incoming b (sock st') = incoming b (sock st)
      @ (if ev AND EPOLLIN \<noteq> 0 then arrived b (sock st) (fst rcv) (snd rcv) else [])"
    and "wire st' @ outgoing b (sock st') = wire st @ outgoing b (sock st)"
    and "sock_ok b (sock st')" "\<not> timed_out b (sock st')"
proof -
  have act: "sock (schedi_job_epollsocket_epoll_activator b s) = sock s"
    "wire (schedi_job_epollsocket_epoll_activator b s) = wire s" for s
    by (simp_all add: schedi_job_epollsocket_epoll_activator_def Let_def)
  have inout: "ev AND EPOLLIN \<noteq> 0 \<Longrightarrow> ev AND (EPOLLIN OR EPOLLOUT) \<noteq> 0"
    by (auto simp: bit_eq_iff bit_and_iff bit_or_iff)
  obtain st1 where st1: "sock st' = sock st1" "wire st' = wire st1"
    "if ev AND EPOLLIN \<noteq> 0 then st1 = snd (schedi_job_epollsocket_read_return b (fst rcv) (snd rcv) st)
     else st1 = schedi_job_epollsocket_dead b st \<or> st1 = st
       \<or> st1 = snd (schedi_job_epollsocket_write_return b (fst sd) (snd sd) st)"
    using assms(5) inout by (fastforce simp: schedi_job_epollsocket_return_def Let_def case_prod_beta act split: if_splits)
  note rd = read_return_effect[OF assms(1-3) surjective_pairing]
    and wr = write_return_effect[OF assms(1,2,4) surjective_pairing] and de = dead_effect[OF assms(1)]
  have dw: "wire (schedi_job_epollsocket_dead b st) = wire st" by (simp add: schedi_job_epollsocket_dead_def)
  show "incoming b (sock st') = incoming b (sock st)
      @ (if ev AND EPOLLIN \<noteq> 0 then arrived b (sock st) (fst rcv) (snd rcv) else [])"
    "wire st' @ outgoing b (sock st') = wire st @ outgoing b (sock st)"
    "sock_ok b (sock st')" "\<not> timed_out b (sock st')"
    using st1 rd wr de dw assms(1,2) by (auto split: if_splits)
qed

text \<open>A new socket has empty rings.\<close>

lemma bit_BUF: "bit (word_of_nat BUF :: u64) n \<longleftrightarrow> n = 10"
proof -
  have "(word_of_nat BUF :: u64) = push_bit 10 1" by (simp add: SCHEDI_JOB_EPOLLSOCKET_BUFFERSIZE_def)
  then show ?thesis by (simp only:) (subst bit_one_shifted; simp)
qed

lemma new_htc_bits:
  "bit (sock_htc (new_epollsocket b job g fd rc wc bufs)) n \<longleftrightarrow>
     n = shift b + 10 \<or> n = 60 \<and> rc = 0 \<or> n = 61 \<and> unat wc \<le> BUF \<or> n = 62 \<and> rc = 0 \<and> unat wc \<le> BUF"
proof -
  let ?h = "push_bit (shift b) (word_of_nat BUF) :: u64"
  have h: "bit ?h m \<longleftrightarrow> m = shift b + 10" for m
    using shift_bounds(2)[of b] by (auto simp: bit_push_bit_iff bit_BUF)
  have c: "cnt b ?h = 0"
  proof -
    have "?h AND mask (shift b) = 0" by (intro bit_word_eqI) (auto simp: bit_and_iff bit_mask_word h)
    then show ?thesis by (simp add: cnt_def)
  qed
  have a: "avl b ?h = BUF"
  proof -
    have "drop_bit (shift b) ?h AND mask (shift b) = word_of_nat BUF"
      using shift_bounds[of b] by (intro bit_word_eqI) (auto simp: bit_and_iff bit_mask_word bit_drop_bit_eq h bit_BUF)
    then show ?thesis by (simp add: avl_def SCHEDI_JOB_EPOLLSOCKET_BUFFERSIZE_def)
  qed
  have r: "rc \<le> word_of_int (int 0) \<longleftrightarrow> rc = 0" by simp
  have w: "wc \<le> word_of_int (int BUF) \<longleftrightarrow> unat wc \<le> BUF" by (rule cond_le[OF BUF_fits]) simp
  have ifb: "bit (if p then f else 0) n \<longleftrightarrow> p \<and> bit f n" for p and f :: u64 by simp
  have "sock_htc (new_epollsocket b job g fd rc wc bufs) = ?h
      OR (if rc = 0 then SCHEDI_JOB_EPOLLSOCKET_READ_READY else 0)
      OR (if unat wc \<le> BUF then SCHEDI_JOB_EPOLLSOCKET_WRITE_READY else 0)
      OR (if rc = 0 \<and> unat wc \<le> BUF then SCHEDI_JOB_EPOLLSOCKET_READY else 0)"
    by (simp only: new_epollsocket_def Let_def count_from_cnt avail_from_avl c a r w epollsocket.simps)
  then show ?thesis by (simp only: bit_or_iff ifb h bit_socket_flags) blast
qed

lemma new_epollsocket_ok:
  assumes "length (fst bufs) = BUF" "length (snd bufs) = BUF"
  shows "sock_ok b (new_epollsocket b job g fd rc wc bufs)" "\<not> timed_out b (new_epollsocket b job g fd rc wc bufs)"
    and "incoming b (new_epollsocket b job g fd rc wc bufs) = []" "outgoing b (new_epollsocket b job g fd rc wc bufs) = []"
proof -
  let ?k = "new_epollsocket b job g fd rc wc bufs"
  note h = new_htc_bits[of b job g fd rc wc bufs]
  have "sock_htc ?k AND mask (shift b) = 0"
    using shift_bounds(2)[of b] by (intro bit_word_eqI) (auto simp: bit_and_iff bit_mask_word h)
  then have c: "cnt b (sock_htc ?k) = 0" by (simp add: cnt_def)
  have "drop_bit (shift b) (sock_htc ?k) AND mask (shift b) = word_of_nat BUF"
    using shift_bounds[of b]
    by (intro bit_word_eqI) (auto simp: bit_and_iff bit_mask_word bit_drop_bit_eq h bit_BUF)
  then have a: "avl b (sock_htc ?k) = BUF" by (simp add: avl_def SCHEDI_JOB_EPOLLSOCKET_BUFFERSIZE_def)
  have f: "bit (sock_htc ?k) 60 \<longleftrightarrow> rc = 0" "bit (sock_htc ?k) 61 \<longleftrightarrow> unat wc \<le> BUF" "\<not> bit (sock_htc ?k) 57"
    using shift_bounds(2)[of b] by (auto simp: h)
  have s: "read_head ?k = 0" "read_tail ?k = 0" "write_head ?k = 0" "write_tail ?k = 0" "read_buffer ?k = fst bufs"
    "write_buffer ?k = snd bufs" "read_count_condition ?k = rc" "write_avail_condition ?k = wc"
    by (simp_all add: new_epollsocket_def Let_def)
  have "flags_ok (sock_htc ?k)"
    using shift_bounds(2)[of b] by (auto simp: flags_ok_def socket_ready_def h)
  then show "sock_ok b ?k" unfolding sock_ok_def socket_flag_iff c a s f using assms by (simp add: unat_eq_0)
  show "\<not> timed_out b ?k" unfolding timed_out_def socket_flag_iff using f by simp
  show "incoming b ?k = []" "outgoing b ?k = []" by (simp_all add: incoming_def outgoing_def c a)
qed

section \<open>Sessions\<close>

text \<open>
  Everything that happens to one socket from its creation on, as long as it does
  not time out: \<open>w\<close> is what the job has written, that is, the bytes that the
  writes accepted, \<open>g\<close> what the reads gave it, and \<open>a\<close> what arrived from the
  kernel. Anything may happen to the job system in between.
\<close>

inductive sock_session :: "build \<Rightarrow> sock_state \<Rightarrow> u8 list \<Rightarrow> u8 list \<Rightarrow> u8 list \<Rightarrow> bool" for b where
  made: "length (fst bufs) = BUF \<Longrightarrow> length (snd bufs) = BUF \<Longrightarrow> wire st = [] \<Longrightarrow>
    sock st = (new_epollsocket b job g fd rc wc bufs)\<lparr>data_ptr := d, timeout_sec := sec, to_timer_fd := tfd\<rparr> \<Longrightarrow>
    sock_session b st [] [] []"
| wrote: "sock_session b st w g a \<Longrightarrow> send_fits (length data) r \<Longrightarrow>
    schedi_job_epollsocket_write b r st data = (ret, st') \<Longrightarrow> sock_session b st' (w @ take (nat ret) data) g a"
| was_read: "sock_session b st w g a \<Longrightarrow> schedi_job_epollsocket_read b st n = (data, st') \<Longrightarrow>
    sock_session b st' w (g @ data) a"
| event: "sock_session b st w g a \<Longrightarrow> fill_fits b (sock st) (fst rcv) (snd rcv) \<Longrightarrow>
    flush_fits b (sock st) (fst sd) (snd sd) \<Longrightarrow> schedi_job_epollsocket_return b rcv sd st ev = (r, st') \<Longrightarrow>
    sock_session b st' w g (a @ (if ev AND EPOLLIN \<noteq> 0 then arrived b (sock st) (fst rcv) (snd rcv) else []))"
| read_threshold: "sock_session b st w g a \<Longrightarrow>
    sock_session b (schedi_job_tool_epollsocket_read_cond b st c) w g a"
| write_threshold: "sock_session b st w g a \<Longrightarrow>
    sock_session b (schedi_job_tool_epollsocket_write_cond b st c) w g a"
| given_up: "sock_session b st w g a \<Longrightarrow> schedi_job_epollsocket_done_side b st side = (r, st') \<Longrightarrow>
    sock_session b st' w g a"
| jobs_run: "sock_session b st w g a \<Longrightarrow> sock_session b (st\<lparr>sys := s\<rparr>) w g a"

lemma session_inv:
  assumes "sock_session b st w g a"
  shows "sock_ok b (sock st) \<and> \<not> timed_out b (sock st)
    \<and> wire st @ outgoing b (sock st) = w \<and> g @ incoming b (sock st) = a"
  using assms
proof induction
  case made
  then show ?case using new_epollsocket_ok[OF made(1,2), of b]
    by (simp add: sock_ok_def timed_out_def incoming_def outgoing_def)
next
  case (wrote st w g a data r ret st')
  then show ?case using write_effect[of b st data r ret st'] by simp
next
  case (was_read st w g a n data st')
  then show ?case using read_effect[of b st n data st'] by simp
next
  case (event st w g a rcv sd ev r st')
  then show ?case using return_effect[of b st rcv sd ev r st'] by simp
next
  case (read_threshold st w g a c)
  then show ?case using read_cond_effect[of b st _ c] by simp
next
  case (write_threshold st w g a c)
  then show ?case using write_cond_effect[of b st _ c] by simp
next
  case (given_up st w g a side r st')
  then show ?case using done_side_effect[of b st side r st'] by simp
qed simp


text \<open>A socket on which three bytes arrive; then ten bytes are written, of which the kernel takes five.\<close>

definition stream_start :: sock_state where
  "stream_start = \<lparr>sock = new_epollsocket example_build 0 0 5 1 1 (replicate BUF 0, replicate BUF 0),
     sys = static_jobsys, epoll_mods = [], timer_resets = 0, wire = []\<rparr>"

definition stream_got :: sock_state where
  "stream_got = snd (schedi_job_epollsocket_return example_build (Got [7, 8, 9], RecvAgain) (SendAgain, SendAgain)
     stream_start EPOLLIN)"

definition stream_run :: sock_state where
  "stream_run = snd (schedi_job_epollsocket_write example_build (Sent 5) stream_got [0, 1, 2, 3, 4, 5, 6, 7, 8, 9])"

lemmas stream_eval = stream_got_def stream_start_def schedi_job_epollsocket_return_def
  schedi_job_epollsocket_read_return_def new_epollsocket_def Let_def schedi_job_epollsocket_count_from_def
  schedi_job_epollsocket_avail_from_def example_build_def EPOLLIN_def EPOLLOUT_def EPOLLERR_def EPOLLHUP_def
  SCHEDI_JOB_EPOLLSOCKET_AVAIL_SHIFT_def SCHEDI_JOB_EPOLLSOCKET_BUFFERSIZE_def SCHEDI_JOB_EPOLLSOCKET_COUNT_MASK_def
  SCHEDI_JOB_EPOLLSOCKET_AVAIL_MASK_def flag_defs schedi_job_epollsocket_count_add_def socket_cas_def cas_seq_def
  count_add_body_def socket_ready_def

lemma stream_got_htc: "sock_htc (sock stream_got) = 0x7000008000000003"
  by (simp add: stream_eval)

lemma stream_got_conds: "read_count_condition (sock stream_got) = 1" "write_avail_condition (sock stream_got) = 1"
  by (simp_all add: stream_eval)

lemma stream_got_session: "sock_session example_build stream_got [] [] [7, 8, 9]"
proof -
  let ?bufs = "(replicate BUF 0, replicate BUF 0) :: u8 list \<times> u8 list"
  let ?k = "new_epollsocket example_build 0 0 5 1 1 ?bufs"
  have s: "sock_session example_build stream_start [] [] []"
    by (rule sock_session.made[where bufs = ?bufs and job = 0 and g = 0 and fd = 5
          and rc = 1 and wc = 1 and d = 0 and sec = 0 and tfd = "-1"])
      (simp_all add: stream_start_def new_epollsocket_def Let_def)
  have k: "sock stream_start = ?k" by (simp add: stream_start_def)
  have "incoming example_build ?k = []" by (rule new_epollsocket_ok) simp_all
  then have "length (incoming example_build ?k) = 0" by simp
  then have c: "cnt example_build (sock_htc ?k) = 0" by (simp only: incoming_def length_ring_slice)
  have h: "read_head ?k = 0" by (simp add: new_epollsocket_def Let_def)
  have f: "min BUF BUF \<noteq> 3" "3 \<le> BUF" by (simp_all add: SCHEDI_JOB_EPOLLSOCKET_BUFFERSIZE_def)
  have "fill_fits example_build (sock stream_start) (Got [7, 8, 9]) RecvAgain"
    using f by (simp add: k fill_fits_def recv_fits_def c h)
  moreover have "flush_fits example_build (sock stream_start) SendAgain SendAgain"
    by (simp add: flush_fits_def send_fits_def Let_def)
  moreover have "arrived example_build (sock stream_start) (Got [7, 8, 9]) RecvAgain = [7, 8, 9]"
    using f by (simp add: k arrived_def c h)
  ultimately show ?thesis
    using sock_session.event[OF s, of "(Got [7, 8, 9], RecvAgain)" "(SendAgain, SendAgain)" EPOLLIN _ stream_got]
    by (simp add: stream_got_def prod_eq_iff EPOLLIN_def)
qed

section \<open>Thresholds\<close>

lemma write_complete:
  assumes "sock_ok b (sock st)" "\<not> timed_out b (sock st)" "send_fits (length data) r" "r \<noteq> SendError"
    and "length data \<le> avl b (sock_htc (sock st))"
  shows "fst (schedi_job_epollsocket_write b r st data) = int (length data)"
proof -
  let ?k = "sock st"
  define emp where "emp \<longleftrightarrow> avl b (sock_htc ?k) = BUF"
  define n where "n = (if emp then (case r of Sent n \<Rightarrow> n | _ \<Rightarrow> 0) else 0)"
  define st1 where "st1 = st\<lparr>wire := wire st @ take n data\<rparr>"
  have n: "n \<le> length data" using assms(3) by (auto simp: n_def send_fits_def split: send_result.splits)
  have wr: "schedi_job_epollsocket_write b r st data = (if drop n data \<noteq> []
      then (case schedi_job_epollsocket_write_buffer_data b st1 (drop n data) of
        (ret, st2) \<Rightarrow> (int n + int ret, schedi_job_epollsocket_epoll_activator b st2))
      else (int n, st1))"
    using assms(4) by (simp add: schedi_job_epollsocket_write_def Let_def st1_def n_def emp_def avail_from_avl)
  obtain m st2 where m: "schedi_job_epollsocket_write_buffer_data b st1 (drop n data) = (m, st2)" by force
  have "sock_ok b (sock st1)" "\<not> timed_out b (sock st1)" using assms(1,2) by (simp_all add: st1_def)
  from write_buffer_data_effect(1)[OF this m] have "m = length data - n"
    using assms(5) by (simp add: st1_def)
  with wr m n show ?thesis by simp
qed

lemma stream_session: "sock_session example_build stream_run [0, 1, 2, 3, 4, 5, 6, 7, 8, 9] [] [7, 8, 9]"
proof -
  let ?w = "schedi_job_epollsocket_write example_build (Sent 5) stream_got [0, 1, 2, 3, 4, 5, 6, 7, 8, 9]"
  have "avl example_build (sock_htc (sock stream_got)) = 1024" unfolding stream_got_htc by code_simp
  then have "fst ?w = 10"
    using write_complete[of example_build stream_got "[0, 1, 2, 3, 4, 5, 6, 7, 8, 9]" "Sent 5"] session_inv[OF stream_got_session]
    by (simp add: send_fits_def)
  then have "?w = (10, stream_run)" by (simp add: stream_run_def prod_eq_iff)
  from sock_session.wrote[OF stream_got_session _ this] show ?thesis by (simp add: send_fits_def)
qed


text \<open>
  C25: The copies in pieces equal the copy of single bytes. Writing into the ring, in one
  piece or in two around its end, leaves the buffer and the position that putting
  the accepted bytes one by one would leave, and reading gives the bytes and the
  position that taking them one by one would give, without changing the buffer.
\<close>

theorem ring_copy_is_bytewise:
  assumes "sock_ok b (sock st)" "\<not> timed_out b (sock st)"
    and "schedi_job_epollsocket_write_buffer_data b st data = (n, st1)" "schedi_job_epollsocket_read b st m = (got, st2)"
  shows "n = min (length data) (avl b (sock_htc (sock st)))
    \<and> (write_buffer (sock st1), write_head (sock st1)) = put_bytes (write_buffer (sock st)) (write_head (sock st)) (take n data)
    \<and> (got, read_tail (sock st2)) = get_bytes (read_buffer (sock st)) (read_tail (sock st)) (min m (cnt b (sock_htc (sock st))))
    \<and> read_buffer (sock st2) = read_buffer (sock st)"
proof -
  let ?k = "sock st"
  let ?m = "min (cnt b (sock_htc ?k)) m"
  note w = write_buffer_data_effect[OF assms(1-3)]
  have ok: "length (write_buffer ?k) = BUF" "write_head ?k < BUF" "length (read_buffer ?k) = BUF" "read_tail ?k < BUF"
    "cnt b (sock_htc ?k) \<le> BUF" "avl b (sock_htc ?k) \<le> BUF"
    using assms(1) by (auto simp: sock_ok_def)
  have "length (take n data) = n" "n \<le> BUF" using w(1) ok(6) by simp_all
  with put_bytes_ring_put[of "write_head ?k" "write_buffer ?k" "take n data"] ok(1,2)
  have p: "ring_put (write_buffer ?k) (write_head ?k) (take n data) (fst (put_bytes (write_buffer ?k) (write_head ?k) (take n data)))"
    "snd (put_bytes (write_buffer ?k) (write_head ?k) (take n data)) = (write_head ?k + n) mod BUF" by simp_all
  have put: "(write_buffer (sock st1), write_head (sock st1)) = put_bytes (write_buffer ?k) (write_head ?k) (take n data)"
    using ring_put_unique[OF w(7) p(1)] w(8) p(2) by (simp add: prod_eq_iff)
  note r = read_result[OF ok(3-5) refl assms(4)]
  have get: "(got, read_tail (sock st2)) = get_bytes (read_buffer ?k) (read_tail ?k) (min m (cnt b (sock_htc ?k)))"
    using r(1,2) ok(3,4) by (simp add: get_bytes_slice min.commute)
  have "read_buffer (sock (socket_cas b body v)) = read_buffer (sock v)" for body v
    by (simp add: socket_cas_def split: prod.split option.split)
  then have "read_buffer (sock st2) = read_buffer ?k" using r(2) by (simp add: schedi_job_epollsocket_count_add_def)
  with w(1) put get show ?thesis by blast
qed

theorem ring_copy_is_bytewise_witness:
  "fst (schedi_job_epollsocket_write_buffer_data example_build stream_got [1, 2]) = 2
   \<and> fst (schedi_job_epollsocket_read example_build stream_got 2) =
       fst (get_bytes (read_buffer (sock stream_got)) (read_tail (sock stream_got)) 2)"
proof -
  from session_inv[OF stream_got_session] have ok: "sock_ok example_build (sock stream_got)" "\<not> timed_out example_build (sock stream_got)"
    by simp_all
  have c: "cnt example_build (sock_htc (sock stream_got)) = 3" "2 \<le> avl example_build (sock_htc (sock stream_got))"
    unfolding stream_got_htc by code_simp+
  obtain n st1 where w: "schedi_job_epollsocket_write_buffer_data example_build stream_got [1, 2] = (n, st1)" by force
  obtain got st2 where r: "schedi_job_epollsocket_read example_build stream_got 2 = (got, st2)" by force
  from ring_copy_is_bytewise[OF ok w r] c show ?thesis by (simp add: w r prod_eq_iff)
qed



section \<open>Where the promises end\<close>

text \<open>
  A timed-out socket loses the order of its bytes. In a build with timeouts,
  reading from a socket that has timed out moves the read position and leaves
  the fill count as it is, so the same count is reported again from a later
  position and the ring is inconsistent from then on.
\<close>

lemma timed_out_read_desynchronises:
  assumes "sock_ok b (sock st)" "timed_out b (sock st)" "schedi_job_epollsocket_read b st n = (data, st')"
    and "0 < n" "n \<le> cnt b (sock_htc (sock st))" "n < SCHEDI_JOB_EPOLLSOCKET_BUFFERSIZE"
  shows "data = take n (incoming b (sock st)) \<and> cnt b (sock_htc (sock st')) = cnt b (sock_htc (sock st))
    \<and> read_tail (sock st') = (read_tail (sock st) + n) mod SCHEDI_JOB_EPOLLSOCKET_BUFFERSIZE \<and> \<not> sock_ok b (sock st')"
proof -
  let ?k = "sock st"
  have ok: "length (read_buffer ?k) = BUF" "read_tail ?k < BUF" "cnt b (sock_htc ?k) \<le> BUF"
    "read_head ?k = (read_tail ?k + cnt b (sock_htc ?k)) mod BUF"
    using assms(1) by (simp_all add: sock_ok_def)
  have m: "n = min (cnt b (sock_htc ?k)) n" using assms(5) by simp
  have "schedi_job_epollsocket_count_add b st (- int n) False = st"
    using assms(2) by (simp add: schedi_job_epollsocket_count_add_def socket_cas_def cas_seq_def count_add_body_def timed_out_def)
  with read_result[OF ok(1-3) m assms(3)]
  have r: "data = ring_slice (read_buffer ?k) (read_tail ?k) n" "sock st' = ?k\<lparr>read_tail := (read_tail ?k + n) mod BUF\<rparr>"
    by simp_all
  have "read_head ?k \<noteq> ((read_tail ?k + n) mod BUF + cnt b (sock_htc ?k)) mod BUF"
  proof
    assume "read_head ?k = ((read_tail ?k + n) mod BUF + cnt b (sock_htc ?k)) mod BUF"
    then have "(read_tail ?k + cnt b (sock_htc ?k)) mod BUF = (read_tail ?k + cnt b (sock_htc ?k) + n) mod BUF"
      using ok(4) by (simp add: mod_add_left_eq) (simp add: ac_simps)
    then have "BUF dvd n" by (metis add_diff_cancel_left' le_add1 mod_eq_dvd_iff_nat)
    with assms(4,6) show False by (auto dest: dvd_imp_le)
  qed
  then have "\<not> sock_ok b (sock st')" using r(2) by (simp add: sock_ok_def)
  moreover have "data = take n (incoming b ?k)" using r(1) assms(5) by (simp add: incoming_def ring_slice_take)
  ultimately show ?thesis using r(2) by simp
qed

text \<open>
  A socket that its job has given up becomes ready when the connection dies,
  although the epoll side has not finished with it: \<^verbatim>\<open>schedi_job_epollsocket_dead\<close> sets
  READY whatever the other flags are.
\<close>

lemma given_up_socket_made_ready:
  assumes "has_flag (sock_htc (sock st)) SCHEDI_JOB_EPOLLSOCKET_EPOLLNT"
    and "\<not> has_flag (sock_htc (sock st)) SCHEDI_JOB_EPOLLSOCKET_EPOLLDID"
  shows "schedi_job_epollsocket_ready (schedi_job_epollsocket_dead b st)
    \<and> \<not> has_flag (sock_htc (sock (schedi_job_epollsocket_dead b st))) SCHEDI_JOB_EPOLLSOCKET_EPOLLDID"
proof -
  let ?d = "sock_htc (sock st) OR (SCHEDI_JOB_EPOLLSOCKET_DEAD OR SCHEDI_JOB_EPOLLSOCKET_READY)"
  have "sock (schedi_job_epollsocket_dead b st) = (sock st)\<lparr>sock_htc := ?d\<rparr>"
    unfolding schedi_job_epollsocket_dead_def
    by (rule socket_cas_sock[of _ _ _ "sock_htc (sock st)" ?d]) (simp add: socket_or_body_def Let_def)
  then show ?thesis using assms(2)
    by (simp add: schedi_job_epollsocket_ready_def socket_flag_iff bit_or_iff bit_socket_flags)
qed

end
