(* ===== verification/Epoll_Thread.thy ===== *)
theory Epoll_Thread
  imports Epoll
begin

text \<open>
  The epoll thread of \<^verbatim>\<open>src/src/epoll.c\<close>: creating its descriptors, starting, running
  and stopping it. The results of \<^verbatim>\<open>epoll_create1\<close>, \<^verbatim>\<open>eventfd\<close>, \<^verbatim>\<open>pthread_create\<close>,
  \<^verbatim>\<open>pthread_join\<close> and \<^verbatim>\<open>poll\<close> are arguments. \<open>opened\<close> and \<open>closed\<close> are the descriptors
  that the kernel handed out and that were closed.
\<close>

section \<open>State and operations\<close>

record ep_thread =
  epfd_read :: int
  epfd_write :: int
  epoll_wakefd :: int
  epoll_thread_running :: bool
  epoll_stop :: bool
  wake_writes :: nat
  opened :: "int list"
  closed :: "int list"

definition ep_thread_static :: ep_thread where
  "ep_thread_static = \<lparr>epfd_read = -1, epfd_write = -1, epoll_wakefd = -1, epoll_thread_running = False,
     epoll_stop = False, wake_writes = 0, opened = [], closed = []\<rparr>"

text \<open>A descriptor that a system call returned, and closing one.\<close>

definition note_open :: "int \<Rightarrow> ep_thread \<Rightarrow> ep_thread" where
  "note_open fd th = (if fd < 0 then th else th\<lparr>opened := opened th @ [fd]\<rparr>)"

definition close_ep :: "int \<Rightarrow> ep_thread \<Rightarrow> ep_thread" where
  "close_ep fd th = th\<lparr>closed := closed th @ [fd]\<rparr>"

definition schedi_epoll_init_fds :: "int \<times> int \<times> int \<Rightarrow> ep_thread \<Rightarrow> int \<times> ep_thread" where
  "schedi_epoll_init_fds made th =
     (let (cr, cw, ev) = made
      in if 0 \<le> epfd_read th then (0, th)
         else
           let th1 = note_open cr (th\<lparr>epfd_read := cr\<rparr>)
           in if cr < 0 then (-1, th1)
              else
                let th2 = note_open cw (th1\<lparr>epfd_write := cw\<rparr>)
                in if cw < 0 then (-1, (close_ep cr th2)\<lparr>epfd_read := -1\<rparr>)
                   else
                     let th3 = note_open ev (th2\<lparr>epoll_wakefd := ev\<rparr>)
                     in if ev < 0
                        then (-1, (close_ep cw (close_ep cr th3))\<lparr>epfd_read := -1, epfd_write := -1\<rparr>)
                        else (0, th3))"

definition schedi_epoll_thread_init :: "int \<times> int \<times> int \<Rightarrow> int \<Rightarrow> ep_thread \<Rightarrow> int \<times> ep_thread" where
  "schedi_epoll_thread_init made create_err th =
     (if epoll_thread_running th then (0, th)
      else
        let (r, th1) = schedi_epoll_init_fds made th
        in if r < 0 then (-1, th1)
           else if create_err \<noteq> 0 then (-1, th1)
           else (0, th1\<lparr>epoll_thread_running := True\<rparr>))"

definition schedi_epoll_thread_deinit :: "int \<Rightarrow> ep_thread \<Rightarrow> int \<times> ep_thread" where
  "schedi_epoll_thread_deinit join_ret th =
     (if \<not> epoll_thread_running th then (0, th)
      else
        let th1 = th\<lparr>epoll_stop := True\<rparr>;
            th2 = (if 0 \<le> epoll_wakefd th1 then th1\<lparr>wake_writes := wake_writes th1 + 1\<rparr> else th1)
        in (join_ret, th2\<lparr>epoll_thread_running := False\<rparr>))"

definition schedi_epoll_destroy :: "ep_thread \<Rightarrow> int \<times> ep_thread" where
  "schedi_epoll_destroy th =
     (let th1 = (if 0 \<le> epfd_read th then (close_ep (epfd_read th) th)\<lparr>epfd_read := -1\<rparr> else th);
          th2 = (if 0 \<le> epfd_write th1 then (close_ep (epfd_write th1) th1)\<lparr>epfd_write := -1\<rparr> else th1);
          th3 = (if 0 \<le> epoll_wakefd th2 then (close_ep (epoll_wakefd th2) th2)\<lparr>epoll_wakefd := -1\<rparr> else th2)
      in (0, th3))"

subsection \<open>The loop\<close>

text \<open>
  One round: the stop flag as read before and after \<^verbatim>\<open>poll\<close>, the result of \<^verbatim>\<open>poll\<close>, with
  whether each instance is readable, and the answers of \<^verbatim>\<open>epoll_wait\<close> while the
  instances are drained.
\<close>

datatype poll_result = PollFailed | PollInterrupted | PollReady bool bool

record poll_round =
  stop_before :: bool
  poll_answer :: poll_result
  stop_after :: bool
  read_waits :: "ep_event list list"
  write_waits :: "ep_event list list"

text \<open>The loop is left by the stop flag or by an error, or it is still in \<^verbatim>\<open>poll\<close>, or in a handler.\<close>

datatype loop_end = LoopStopped | LoopPollError | LoopPolling | LoopInHandler

fun epoll_rounds :: "build \<Rightarrow> kernel \<Rightarrow> poll_round list \<Rightarrow> ep_state \<Rightarrow> loop_end \<times> ep_state" where
  "epoll_rounds b ctl [] st = (LoopPolling, st)"
| "epoll_rounds b ctl (r # rs) st =
     (if stop_before r \<or> stop_after r then (LoopStopped, st)
      else (case poll_answer r of
              PollFailed \<Rightarrow> (LoopPollError, st)
            | PollInterrupted \<Rightarrow> epoll_rounds b ctl rs st
            | PollReady rd wr \<Rightarrow>
                (case (if rd then schedi_epoll_drain_read b ctl (read_waits r) st else Returns st) of
                   Returns st1 \<Rightarrow>
                     (case (if wr then schedi_epoll_drain_write b ctl (write_waits r) st1 else Returns st1) of
                        Returns st2 \<Rightarrow> epoll_rounds b ctl rs st2
                      | _ \<Rightarrow> (LoopInHandler, st1))
                 | _ \<Rightarrow> (LoopInHandler, st))))"

definition loop_close :: "ep_thread \<Rightarrow> ep_thread" where
  "loop_close th = (close_ep (epfd_write th) (close_ep (epfd_read th) (close_ep (epoll_wakefd th) th)))
     \<lparr>epoll_wakefd := -1, epfd_read := -1, epfd_write := -1\<rparr>"

text \<open>\<open>None\<close> is a loop that has not returned.\<close>

definition schedi_epoll_loop ::
  "build \<Rightarrow> kernel \<Rightarrow> poll_round list \<Rightarrow> ep_thread \<Rightarrow> ep_state \<Rightarrow> int option \<times> ep_thread \<times> ep_state" where
  "schedi_epoll_loop b ctl rounds th st =
     (if epoll_stop th then (Some 0, th, st)
      else if epfd_read th < 0 \<or> epfd_write th < 0 then (Some (-1), th, st)
      else (case epoll_rounds b ctl rounds st of
              (LoopStopped, st') \<Rightarrow> (Some 0, loop_close th, st')
            | (LoopPollError, st') \<Rightarrow> (Some (-1), loop_close th, st')
            | (_, st') \<Rightarrow> (None, th, st')))"

section \<open>Every descriptor is closed once\<close>

text \<open>The three descriptors are open together, and what is open has been opened and not closed.\<close>

definition open_fds :: "ep_thread \<Rightarrow> int list" where
  "open_fds th = filter (\<lambda>fd. 0 \<le> fd) [epfd_read th, epfd_write th, epoll_wakefd th]"

definition fds_ok :: "ep_thread \<Rightarrow> bool" where
  "fds_ok th \<longleftrightarrow> (0 \<le> epfd_read th) = (0 \<le> epfd_write th) \<and> (0 \<le> epfd_read th) = (0 \<le> epoll_wakefd th)
     \<and> mset (opened th) = mset (closed th) + mset (open_fds th)"

lemmas thread_defs = schedi_epoll_init_fds_def schedi_epoll_thread_init_def schedi_epoll_thread_deinit_def
  schedi_epoll_destroy_def note_open_def close_ep_def fds_ok_def open_fds_def Let_def

text \<open>What the client, the kernel and the thread do to this state, in any order.\<close>

inductive thread_step :: "ep_thread \<Rightarrow> ep_thread \<Rightarrow> bool" where
  start: "thread_step th (snd (schedi_epoll_thread_init made create_err th))"
| stop: "thread_step th (snd (schedi_epoll_thread_deinit join_ret th))"
| destroy: "thread_step th (snd (schedi_epoll_destroy th))"
| run: "schedi_epoll_loop b ctl rounds th st = (r, th', st') \<Longrightarrow> thread_step th th'"

inductive thread_reach :: "ep_thread \<Rightarrow> bool" where
  static: "thread_reach ep_thread_static"
| step: "thread_reach th \<Longrightarrow> thread_step th th' \<Longrightarrow> thread_reach th'"

lemma init_fds_ok: "fds_ok th \<Longrightarrow> fds_ok (snd (schedi_epoll_init_fds made th))"
  by (auto simp: thread_defs split: prod.split)

lemma loop_keeps_fds_ok:
  assumes "schedi_epoll_loop b ctl rounds th st = (r, th', st')" "fds_ok th"
  shows "fds_ok th'"
proof -
  have "th' = th \<or> th' = loop_close th \<and> 0 \<le> epfd_read th"
    using assms(1) by (auto simp: schedi_epoll_loop_def split: if_splits prod.splits loop_end.splits)
  then show ?thesis using assms(2) by (auto simp: thread_defs loop_close_def)
qed

lemma thread_step_ok:
  assumes "thread_step th th'" "fds_ok th"
  shows "fds_ok th'"
  using assms
proof cases
  case (start made create_err)
  have "fds_ok (snd (schedi_epoll_init_fds made th))" using assms(2) by (rule init_fds_ok)
  then show ?thesis using assms(2) start
    by (auto simp: schedi_epoll_thread_init_def Let_def fds_ok_def open_fds_def case_prod_beta)
next
  case (stop j)
  then show ?thesis using assms(2) by (auto simp: schedi_epoll_thread_deinit_def Let_def fds_ok_def open_fds_def)
next
  case destroy
  then show ?thesis using assms(2) by (auto simp: thread_defs)
qed (auto intro: loop_keeps_fds_ok)

lemma thread_reach_ok: "thread_reach th \<Longrightarrow> fds_ok th"
proof (induction rule: thread_reach.induct)
  case static
  then show ?case by (simp add: ep_thread_static_def fds_ok_def open_fds_def)
qed (rule thread_step_ok)

text \<open>
  C31: The descriptors of the epoll thread are neither leaked nor closed twice. In every
  sequence of starting, stopping, destroying and running the loop, with system
  calls that fail at any point, the three descriptors are open together or not at
  all, and every descriptor ever obtained is either one of the open ones or has
  been closed exactly once.
\<close>

theorem epoll_descriptors_balanced:
  assumes "thread_reach th"
  shows "(0 \<le> epfd_read th) = (0 \<le> epfd_write th) \<and> (0 \<le> epfd_read th) = (0 \<le> epoll_wakefd th)
    \<and> mset (opened th) = mset (closed th) + mset (open_fds th)"
  using thread_reach_ok[OF assms] unfolding fds_ok_def .

theorem epoll_descriptors_balanced_witness:
  "closed (snd (schedi_epoll_thread_init (3, 4, -1) 0 ep_thread_static)) = [3, 4]
    \<and> mset (opened (snd (schedi_epoll_thread_init (3, 4, -1) 0 ep_thread_static))) = {#3, 4#}"
proof -
  let ?th = "snd (schedi_epoll_thread_init (3, 4, -1) 0 ep_thread_static)"
  have "thread_reach ?th" by (rule thread_reach.step[OF thread_reach.static thread_step.start])
  moreover have "closed ?th = [3, 4]" "open_fds ?th = []" by code_simp+
  ultimately show ?thesis using epoll_descriptors_balanced[of ?th] by simp
qed

section \<open>Starting and stopping\<close>

lemma rounds_stop:
  "\<exists>r \<in> set rounds. stop_before r \<or> stop_after r \<Longrightarrow> fst (epoll_rounds b ctl rounds st) \<noteq> LoopPolling"
proof (induction rounds arbitrary: st)
  case (Cons r rs)
  show ?case
  proof (cases "stop_before r \<or> stop_after r")
    case False
    with Cons show ?thesis by (auto split: poll_result.split outcome.split)
  qed simp
qed simp

text \<open>
  Stopping the loop. When a round sees the stop flag, before or after \<^verbatim>\<open>poll\<close>, and
  every handler before it returned, then the loop has returned: with 0, or with
  -1 after an error of \<^verbatim>\<open>poll\<close>, and with its three descriptors closed.
\<close>

lemma epoll_loop_stops:
  assumes "\<exists>r \<in> set rounds. stop_before r \<or> stop_after r" "\<not> epoll_stop th" "0 \<le> epfd_read th" "0 \<le> epfd_write th"
    and "fst (epoll_rounds b ctl rounds st) \<noteq> LoopInHandler"
  shows "\<exists>ret st'. schedi_epoll_loop b ctl rounds th st = (Some ret, loop_close th, st') \<and> (ret = 0 \<or> ret = -1)
    \<and> open_fds (loop_close th) = []"
  using assms rounds_stop[OF assms(1), of b ctl st]
  by (auto simp: schedi_epoll_loop_def open_fds_def loop_close_def split: prod.splits loop_end.splits)

definition quiet_round :: poll_round where
  "quiet_round = \<lparr>stop_before = False, poll_answer = PollReady True False, stop_after = False,
     read_waits = [[]], write_waits = []\<rparr>"

text \<open>
  The epoll thread cannot be restarted. Nothing clears the stop flag: after a
  thread was stopped, a new start reports success, but the loop of the new thread
  returns at once and handles no event.
\<close>

lemma restarted_epoll_thread_exits:
  assumes "epoll_thread_running th" "schedi_epoll_thread_init made err (snd (schedi_epoll_thread_deinit j th)) = (0, th')"
  shows "epoll_thread_running th' \<and> schedi_epoll_loop b ctl rounds th' st = (Some 0, th', st)"
proof -
  define td where "td = snd (schedi_epoll_thread_deinit j th)"
  have td: "epoll_stop td" "\<not> epoll_thread_running td"
    using assms(1) by (simp_all add: td_def schedi_epoll_thread_deinit_def Let_def)
  have s: "epoll_stop (snd (schedi_epoll_init_fds made td)) = epoll_stop td"
    by (simp add: schedi_epoll_init_fds_def note_open_def close_ep_def Let_def split: prod.split)
  have "th' = (snd (schedi_epoll_init_fds made td))\<lparr>epoll_thread_running := True\<rparr>"
    using assms(2)[folded td_def] td(2)
    by (auto simp: schedi_epoll_thread_init_def Let_def case_prod_beta split: if_splits)
  with s td(1) show ?thesis by (simp add: schedi_epoll_loop_def)
qed

end
