(* ===== verification/Wake_Protocol.thy ===== *)
theory Wake_Protocol
  imports Schedi_Prelude
begin

text \<open>
  Sleeping and waking workers, in builds with the ready-job mutex: the worker loop of
  \<^verbatim>\<open>src/src/worker.c\<close>, \<^verbatim>\<open>schedi_job_setready\<close> and \<^verbatim>\<open>schedi_worker_deinit\<close> as threads that
  interleave at every call of the mutex and of the condition variable. A call of
  \<^verbatim>\<open>schedi_job_pickready\<close> takes one of \<open>nready\<close> cached jobs, if there is one; the case
  that it puts a job back because of its access count is left out here.
\<close>

section \<open>Threads, mutex and condition variable\<close>

text \<open>Where a worker is in \<^verbatim>\<open>worker_routine\<close>.\<close>

datatype worker_pc =
    AtHead | FirstPick | Locking | Picking | Picked | Deciding | Waiting | Woken | Unlocking
  | Executing | Continuing | Exited

text \<open>Where a caller is in \<^verbatim>\<open>schedi_job_setready\<close>, and the owner of the workers in \<^verbatim>\<open>schedi_worker_deinit\<close>.\<close>

datatype caller_pc = Outside | CallerLocking | Marking | Signalling | CallerUnlocking
datatype deinit_pc = NotCalled | DeinitLocking | ShutdownMarking | Broadcasting | DeinitUnlocking | Joining | Joined

datatype holder = ByWorker nat | ByCaller nat | ByDeinit

record wake_sys =
  wpc :: "nat \<Rightarrow> worker_pc"
  cpc :: "nat \<Rightarrow> caller_pc"
  dpc :: deinit_pc
  readyjob_mutex :: "holder option"
  nready :: nat
  shutting :: bool

definition go :: "nat \<Rightarrow> worker_pc \<Rightarrow> wake_sys \<Rightarrow> wake_sys" where
  "go i q s = s\<lparr>wpc := (wpc s)(i := q)\<rparr>"

definition call_go :: "nat \<Rightarrow> caller_pc \<Rightarrow> wake_sys \<Rightarrow> wake_sys" where
  "call_go c q s = s\<lparr>cpc := (cpc s)(c := q)\<rparr>"

definition schedi_pickingreadyjob :: "nat \<Rightarrow> wake_sys \<Rightarrow> wake_sys" where
  "schedi_pickingreadyjob i s = go i Picking (s\<lparr>readyjob_mutex := Some (ByWorker i)\<rparr>)"

definition schedi_pickedreadyjob :: "nat \<Rightarrow> worker_pc \<Rightarrow> wake_sys \<Rightarrow> wake_sys" where
  "schedi_pickedreadyjob i q s = go i q (s\<lparr>readyjob_mutex := None\<rparr>)"

text \<open>The three parts of \<^verbatim>\<open>schedi_waitforjob\<close>: into the wait, out of it with the mutex, and the unlock.\<close>

definition waitforjob_sleep :: "nat \<Rightarrow> wake_sys \<Rightarrow> wake_sys" where
  "waitforjob_sleep i s = go i Waiting (s\<lparr>readyjob_mutex := None\<rparr>)"

definition waitforjob_relock :: "nat \<Rightarrow> wake_sys \<Rightarrow> wake_sys" where
  "waitforjob_relock i s = go i Unlocking (s\<lparr>readyjob_mutex := Some (ByWorker i)\<rparr>)"

definition waitforjob_unlock :: "nat \<Rightarrow> wake_sys \<Rightarrow> wake_sys" where
  "waitforjob_unlock i s = go i Continuing (s\<lparr>readyjob_mutex := None\<rparr>)"

definition schedi_wake_all_job_waiters_lockless :: "wake_sys \<Rightarrow> wake_sys" where
  "schedi_wake_all_job_waiters_lockless s =
     s\<lparr>wpc := (\<lambda>i. if wpc s i = Waiting then Woken else wpc s i)\<rparr>"

section \<open>Steps\<close>

inductive worker_step :: "nat \<Rightarrow> wake_sys \<Rightarrow> wake_sys \<Rightarrow> bool" for i where
  enter: "wpc s i = AtHead \<Longrightarrow> \<not> shutting s \<Longrightarrow> worker_step i s (go i FirstPick s)"
| leave: "wpc s i = AtHead \<Longrightarrow> shutting s \<Longrightarrow> worker_step i s (go i Exited s)"
| first_hit: "wpc s i = FirstPick \<Longrightarrow> 0 < nready s \<Longrightarrow> worker_step i s (go i Executing (s\<lparr>nready := nready s - 1\<rparr>))"
| first_miss: "wpc s i = FirstPick \<Longrightarrow> nready s = 0 \<Longrightarrow> worker_step i s (go i Locking s)"
| lock: "wpc s i = Locking \<Longrightarrow> readyjob_mutex s = None \<Longrightarrow> worker_step i s (schedi_pickingreadyjob i s)"
| pick_hit: "wpc s i = Picking \<Longrightarrow> 0 < nready s \<Longrightarrow> worker_step i s (go i Picked (s\<lparr>nready := nready s - 1\<rparr>))"
| pick_miss: "wpc s i = Picking \<Longrightarrow> nready s = 0 \<Longrightarrow> worker_step i s (go i Deciding s)"
| picked: "wpc s i = Picked \<Longrightarrow> worker_step i s (schedi_pickedreadyjob i Executing s)"
| break: "wpc s i = Deciding \<Longrightarrow> shutting s \<Longrightarrow> worker_step i s (schedi_pickedreadyjob i Exited s)"
| sleep: "wpc s i = Deciding \<Longrightarrow> \<not> shutting s \<Longrightarrow> worker_step i s (waitforjob_sleep i s)"
| spurious: "wpc s i = Waiting \<Longrightarrow> worker_step i s (go i Woken s)"
| relock: "wpc s i = Woken \<Longrightarrow> readyjob_mutex s = None \<Longrightarrow> worker_step i s (waitforjob_relock i s)"
| unlock: "wpc s i = Unlocking \<Longrightarrow> worker_step i s (waitforjob_unlock i s)"
| execute: "wpc s i = Executing \<Longrightarrow> worker_step i s (go i Continuing s)"
| continue: "wpc s i = Continuing \<Longrightarrow> worker_step i s (go i AtHead s)"

text \<open>
  A call of \<^verbatim>\<open>schedi_job_setready\<close>; marking fails when the job is ready already or must not
  be made ready. With the mutex, \<^verbatim>\<open>schedi_wake_job_waiter\<close> only signals and
  \<^verbatim>\<open>schedi_wake_all_job_waiters\<close> only broadcasts.
\<close>

inductive caller_step :: "nat \<Rightarrow> wake_sys \<Rightarrow> wake_sys \<Rightarrow> bool" for c where
  call: "cpc s c = Outside \<Longrightarrow> caller_step c s (call_go c CallerLocking s)"
| lock: "cpc s c = CallerLocking \<Longrightarrow> readyjob_mutex s = None \<Longrightarrow>
    caller_step c s (call_go c Marking (s\<lparr>readyjob_mutex := Some (ByCaller c)\<rparr>))"
| mark: "cpc s c = Marking \<Longrightarrow> caller_step c s (call_go c Signalling (s\<lparr>nready := nready s + 1\<rparr>))"
| refused: "cpc s c = Marking \<Longrightarrow> caller_step c s (call_go c CallerUnlocking s)"
| wake_job_waiter: "cpc s c = Marking \<Longrightarrow> caller_step c s (call_go c Signalling s)"
| wake_all: "cpc s c = Marking \<Longrightarrow>
    caller_step c s (call_go c CallerUnlocking (schedi_wake_all_job_waiters_lockless s))"
| signal_one: "cpc s c = Signalling \<Longrightarrow> wpc s i = Waiting \<Longrightarrow>
    caller_step c s (call_go c CallerUnlocking (go i Woken s))"
| signal_none: "cpc s c = Signalling \<Longrightarrow> \<forall>i. wpc s i \<noteq> Waiting \<Longrightarrow> caller_step c s (call_go c CallerUnlocking s)"
| unlock: "cpc s c = CallerUnlocking \<Longrightarrow> caller_step c s (call_go c Outside (s\<lparr>readyjob_mutex := None\<rparr>))"

inductive deinit_step :: "wake_sys \<Rightarrow> wake_sys \<Rightarrow> bool" where
  call: "dpc s = NotCalled \<Longrightarrow> deinit_step s (s\<lparr>dpc := DeinitLocking\<rparr>)"
| lock: "dpc s = DeinitLocking \<Longrightarrow> readyjob_mutex s = None \<Longrightarrow>
    deinit_step s (s\<lparr>dpc := ShutdownMarking, readyjob_mutex := Some ByDeinit\<rparr>)"
| mark: "dpc s = ShutdownMarking \<Longrightarrow> deinit_step s (s\<lparr>dpc := Broadcasting, shutting := True\<rparr>)"
| broadcast: "dpc s = Broadcasting \<Longrightarrow>
    deinit_step s ((schedi_wake_all_job_waiters_lockless s)\<lparr>dpc := DeinitUnlocking\<rparr>)"
| unlock: "dpc s = DeinitUnlocking \<Longrightarrow> deinit_step s (s\<lparr>dpc := Joining, readyjob_mutex := None\<rparr>)"
| join: "dpc s = Joining \<Longrightarrow> \<forall>i. wpc s i = Exited \<Longrightarrow> deinit_step s (s\<lparr>dpc := Joined\<rparr>)"

inductive wake_step :: "wake_sys \<Rightarrow> wake_sys \<Rightarrow> bool" where
  worker: "worker_step i s s' \<Longrightarrow> wake_step s s'"
| caller: "caller_step c s s' \<Longrightarrow> wake_step s s'"
| deinit: "deinit_step s s' \<Longrightarrow> wake_step s s'"

text \<open>Workers 0 to \<open>n - 1\<close> have been started; nobody else runs.\<close>

definition wake_start :: "nat \<Rightarrow> wake_sys" where
  "wake_start n = \<lparr>wpc = (\<lambda>i. if i < n then AtHead else Exited), cpc = (\<lambda>_. Outside), dpc = NotCalled,
     readyjob_mutex = None, nready = 0, shutting = False\<rparr>"

inductive wake_reach :: "nat \<Rightarrow> wake_sys \<Rightarrow> bool" for n where
  start: "wake_reach n (wake_start n)"
| step: "wake_reach n s \<Longrightarrow> wake_step s s' \<Longrightarrow> wake_reach n s'"

section \<open>The invariant\<close>

definition worker_holds :: "worker_pc \<Rightarrow> bool" where
  "worker_holds q \<longleftrightarrow> q \<in> {Picking, Picked, Deciding, Unlocking}"
definition caller_holds :: "caller_pc \<Rightarrow> bool" where
  "caller_holds q \<longleftrightarrow> q \<in> {Marking, Signalling, CallerUnlocking}"
definition deinit_holds :: "deinit_pc \<Rightarrow> bool" where
  "deinit_holds q \<longleftrightarrow> q \<in> {ShutdownMarking, Broadcasting, DeinitUnlocking}"

lemmas holds_defs = worker_holds_def caller_holds_def deinit_holds_def

definition mutex_ok :: "wake_sys \<Rightarrow> bool" where
  "mutex_ok s \<longleftrightarrow> (\<forall>i. worker_holds (wpc s i) \<longleftrightarrow> readyjob_mutex s = Some (ByWorker i))
     \<and> (\<forall>c. caller_holds (cpc s c) \<longleftrightarrow> readyjob_mutex s = Some (ByCaller c))
     \<and> (deinit_holds (dpc s) \<longleftrightarrow> readyjob_mutex s = Some ByDeinit)"

definition sleep_ok :: "wake_sys \<Rightarrow> bool" where
  "sleep_ok s \<longleftrightarrow> (\<forall>i. wpc s i = Deciding \<longrightarrow> nready s = 0)
     \<and> (shutting s \<longleftrightarrow> dpc s \<in> {Broadcasting, DeinitUnlocking, Joining, Joined})
     \<and> (\<forall>i. wpc s i = Waiting \<longrightarrow> \<not> shutting s \<or> dpc s = Broadcasting)
     \<and> (\<forall>i. wpc s i = Waiting \<and> 0 < nready s \<longrightarrow>
          (\<exists>k. wpc s k \<notin> {Waiting, Exited}) \<or> (\<exists>c. cpc s c = Signalling) \<or> dpc s = Broadcasting)"

lemmas step_defs = go_def call_go_def schedi_pickingreadyjob_def schedi_pickedreadyjob_def waitforjob_sleep_def
  waitforjob_relock_def waitforjob_unlock_def schedi_wake_all_job_waiters_lockless_def

text \<open>The mutex is kept, acquired or released.\<close>

lemma keep_mutex:
  assumes "mutex_ok s" "readyjob_mutex s' = readyjob_mutex s"
    and "\<And>k. worker_holds (wpc s' k) = worker_holds (wpc s k)" "\<And>c. caller_holds (cpc s' c) = caller_holds (cpc s c)"
    and "deinit_holds (dpc s') = deinit_holds (dpc s)"
  shows "mutex_ok s'"
  using assms by (simp add: mutex_ok_def)

lemma free_mutex:
  assumes "mutex_ok s" "readyjob_mutex s = None"
  shows "\<not> worker_holds (wpc s i)" "\<not> caller_holds (cpc s c)" "\<not> deinit_holds (dpc s)"
  using assms by (simp_all add: mutex_ok_def)

lemma held_by_worker:
  assumes "mutex_ok s" "worker_holds (wpc s i)"
  shows "readyjob_mutex s = Some (ByWorker i)" "\<And>k. k \<noteq> i \<Longrightarrow> \<not> worker_holds (wpc s k)"
    "\<And>c. \<not> caller_holds (cpc s c)" "\<not> deinit_holds (dpc s)"
  using assms by (auto simp: mutex_ok_def)

lemma held_by_caller:
  assumes "mutex_ok s" "caller_holds (cpc s c)"
  shows "readyjob_mutex s = Some (ByCaller c)" "\<And>k. \<not> worker_holds (wpc s k)"
    "\<And>d. d \<noteq> c \<Longrightarrow> \<not> caller_holds (cpc s d)" "\<not> deinit_holds (dpc s)"
  using assms by (auto simp: mutex_ok_def)

lemma held_by_deinit:
  assumes "mutex_ok s" "deinit_holds (dpc s)"
  shows "readyjob_mutex s = Some ByDeinit" "\<And>k. \<not> worker_holds (wpc s k)" "\<And>c. \<not> caller_holds (cpc s c)"
  using assms by (auto simp: mutex_ok_def)

lemma worker_acquires:
  assumes "mutex_ok s" "readyjob_mutex s = None" "worker_holds q"
  shows "mutex_ok (go i q (s\<lparr>readyjob_mutex := Some (ByWorker i)\<rparr>))"
  using free_mutex[OF assms(1,2)] assms(3) by (simp add: mutex_ok_def go_def)

lemma worker_releases:
  assumes "mutex_ok s" "worker_holds (wpc s i)" "\<not> worker_holds q"
  shows "mutex_ok (go i q (s\<lparr>readyjob_mutex := None\<rparr>))"
  using held_by_worker[OF assms(1,2)] assms(3) by (simp add: mutex_ok_def go_def)

lemma caller_moves:
  "mutex_ok s \<Longrightarrow> caller_holds (cpc s c) = caller_holds q \<Longrightarrow> mutex_ok (call_go c q s)"
  by (rule keep_mutex) (auto simp: call_go_def)

lemma worker_moves:
  "mutex_ok s \<Longrightarrow> worker_holds (wpc s i) = worker_holds q \<Longrightarrow> mutex_ok (go i q s)"
  by (rule keep_mutex) (auto simp: go_def)

lemma count_moves: "mutex_ok (s\<lparr>nready := n\<rparr>) = mutex_ok s"
  by (simp add: mutex_ok_def)

lemma worker_mutex:
  assumes "worker_step i s s'" "mutex_ok s"
  shows "mutex_ok s'"
  using assms
proof cases
  case lock
  then show ?thesis using worker_acquires[OF assms(2), of Picking i]
    by (simp add: schedi_pickingreadyjob_def worker_holds_def)
next
  case picked
  then show ?thesis using worker_releases[OF assms(2), of i Executing]
    by (simp add: schedi_pickedreadyjob_def worker_holds_def)
next
  case break
  then show ?thesis using worker_releases[OF assms(2), of i Exited]
    by (simp add: schedi_pickedreadyjob_def worker_holds_def)
next
  case sleep
  then show ?thesis using worker_releases[OF assms(2), of i Waiting]
    by (simp add: waitforjob_sleep_def worker_holds_def)
next
  case relock
  then show ?thesis using worker_acquires[OF assms(2), of Unlocking i]
    by (simp add: waitforjob_relock_def worker_holds_def)
next
  case unlock
  then show ?thesis using worker_releases[OF assms(2), of i Continuing]
    by (simp add: waitforjob_unlock_def worker_holds_def)
qed (use assms(2) in \<open>auto intro!: worker_moves simp: worker_holds_def count_moves\<close>)

lemma broadcast_mutex: "mutex_ok s \<Longrightarrow> mutex_ok (schedi_wake_all_job_waiters_lockless s)"
  by (rule keep_mutex) (simp_all add: schedi_wake_all_job_waiters_lockless_def worker_holds_def)

lemma caller_mutex:
  assumes "caller_step c s s'" "mutex_ok s"
  shows "mutex_ok s'"
  using assms
proof cases
  case lock
  then show ?thesis using free_mutex[OF assms(2)]
    by (simp add: mutex_ok_def call_go_def) (simp add: caller_holds_def)
next
  case unlock
  then have "caller_holds (cpc s c)" by (simp add: caller_holds_def)
  from held_by_caller[OF assms(2) this] unlock show ?thesis
    by (simp add: mutex_ok_def call_go_def) (simp add: caller_holds_def)
next
  case (signal_one i)
  have "mutex_ok (go i Woken s)" using signal_one assms(2) by (intro worker_moves) (simp_all add: worker_holds_def)
  then show ?thesis using signal_one by (simp only:) (rule caller_moves; simp add: go_def caller_holds_def)
next
  case wake_all
  then show ?thesis
    using caller_moves[OF broadcast_mutex[OF assms(2)], of c CallerUnlocking]
    by (simp add: schedi_wake_all_job_waiters_lockless_def caller_holds_def)
qed (use assms(2) in \<open>auto intro!: caller_moves simp: caller_holds_def count_moves\<close>)

lemma deinit_mutex:
  assumes "deinit_step s s'" "mutex_ok s"
  shows "mutex_ok s'"
  using assms
proof cases
  case lock
  then show ?thesis using free_mutex[OF assms(2)] assms(2) by (auto simp: mutex_ok_def deinit_holds_def)
next
  case unlock
  then have "deinit_holds (dpc s)" by (simp add: deinit_holds_def)
  from held_by_deinit[OF assms(2) this] unlock show ?thesis by (auto simp: mutex_ok_def deinit_holds_def)
qed (use assms(2) in \<open>auto intro!: keep_mutex[OF assms(2)] simp: schedi_wake_all_job_waiters_lockless_def holds_defs
    split: if_splits\<close>)

text \<open>A worker moves anywhere but to sleep.\<close>

lemma sleep_ok_move:
  assumes "sleep_ok s" "m \<le> nready s" "q \<noteq> Waiting" "q = Deciding \<Longrightarrow> m = 0" "q = Exited \<Longrightarrow> shutting s"
  shows "sleep_ok (go i q (s\<lparr>nready := m, readyjob_mutex := x\<rparr>))"
proof -
  let ?s = "go i q (s\<lparr>nready := m, readyjob_mutex := x\<rparr>)"
  have f: "wpc ?s k = (if k = i then q else wpc s k)" "cpc ?s = cpc s" "dpc ?s = dpc s" "nready ?s = m" "shutting ?s = shutting s"
    for k by (simp_all add: go_def)
  have "(\<exists>k. wpc ?s k \<notin> {Waiting, Exited}) \<or> (\<exists>c. cpc s c = Signalling) \<or> dpc s = Broadcasting"
    if "wpc ?s j = Waiting" "0 < m" for j
  proof (cases "q = Exited")
    case True
    moreover have "wpc s j = Waiting" using that(1) assms(3) by (simp add: f split: if_splits)
    ultimately show ?thesis using assms(1,5) by (auto simp: sleep_ok_def)
  next
    case False
    then have "wpc ?s i \<notin> {Waiting, Exited}" using assms(3) by (simp add: f)
    then show ?thesis by blast
  qed
  moreover have "m = 0" if "wpc ?s j = Deciding" for j
    using that assms(1,2,4) by (auto simp: f sleep_ok_def split: if_splits)
  moreover have "\<not> shutting s \<or> dpc s = Broadcasting" if "wpc ?s j = Waiting" for j
    using that assms(1,3) by (auto simp: f sleep_ok_def split: if_splits)
  ultimately show ?thesis using assms(1) unfolding sleep_ok_def f(2-5) by blast
qed

lemma sleep_ok_simple:
  "sleep_ok s \<Longrightarrow> q \<notin> {Waiting, Deciding, Exited} \<Longrightarrow> sleep_ok (go i q s)"
  using sleep_ok_move[of s "nready s" q i "readyjob_mutex s"] by simp

lemma worker_sleep_ok:
  assumes "worker_step i s s'" "sleep_ok s"
  shows "sleep_ok s'"
  using assms(1)
proof cases
  case sleep
  have n: "nready s = 0" using assms(2) sleep(2) unfolding sleep_ok_def by blast
  show ?thesis unfolding sleep_ok_def
  proof (intro conjI allI impI)
    show "shutting s' = (dpc s' \<in> {Broadcasting, DeinitUnlocking, Joining, Joined})"
      using assms(2) sleep by (simp add: sleep_ok_def waitforjob_sleep_def go_def)
  qed (use sleep n in \<open>simp_all add: waitforjob_sleep_def go_def\<close>)
next
  case break
  then show ?thesis using sleep_ok_move[OF assms(2) order.refl, of Exited i None]
    by (simp add: schedi_pickedreadyjob_def)
next
  case lock
  then show ?thesis using sleep_ok_move[OF assms(2) order.refl, of Picking i "Some (ByWorker i)"]
    by (simp add: schedi_pickingreadyjob_def)
next
  case picked
  then show ?thesis using sleep_ok_move[OF assms(2) order.refl, of Executing i None]
    by (simp add: schedi_pickedreadyjob_def)
next
  case relock
  then show ?thesis using sleep_ok_move[OF assms(2) order.refl, of Unlocking i "Some (ByWorker i)"]
    by (simp add: waitforjob_relock_def)
next
  case unlock
  then show ?thesis using sleep_ok_move[OF assms(2) order.refl, of Continuing i None]
    by (simp add: waitforjob_unlock_def)
next
  case first_hit
  then show ?thesis using sleep_ok_move[OF assms(2), of "nready s - 1" Executing i "readyjob_mutex s"] by simp
next
  case pick_hit
  then show ?thesis using sleep_ok_move[OF assms(2), of "nready s - 1" Picked i "readyjob_mutex s"] by simp
next
  case pick_miss
  have "s\<lparr>nready := nready s, readyjob_mutex := readyjob_mutex s\<rparr> = s" by simp
  then show ?thesis
    using sleep_ok_move[OF assms(2) order.refl, of Deciding i "readyjob_mutex s"] pick_miss(1,3) by (simp only:) simp
next
  case leave
  then show ?thesis using sleep_ok_move[OF assms(2) order.refl, of Exited i "readyjob_mutex s"] by simp
qed (use sleep_ok_simple[OF assms(2)] in simp_all)

text \<open>A caller moves on; when it leaves the signal, somebody is awake or nobody sleeps.\<close>

lemma sleep_ok_call:
  assumes "sleep_ok s" "cpc s c = Signalling \<Longrightarrow> (\<exists>k. wpc s k \<notin> {Waiting, Exited}) \<or> (\<forall>k. wpc s k \<noteq> Waiting)"
  shows "sleep_ok (call_go c q (s\<lparr>readyjob_mutex := x\<rparr>))"
proof -
  let ?s = "call_go c q (s\<lparr>readyjob_mutex := x\<rparr>)"
  have f: "wpc ?s = wpc s" "dpc ?s = dpc s" "nready ?s = nready s" "shutting ?s = shutting s" by (simp_all add: call_go_def)
  have "(\<exists>k. wpc s k \<notin> {Waiting, Exited}) \<or> (\<exists>d. cpc ?s d = Signalling) \<or> dpc s = Broadcasting"
    if w: "wpc s j = Waiting" "0 < nready s" for j
  proof (cases "\<exists>d. d \<noteq> c \<and> cpc s d = Signalling")
    case True
    then show ?thesis by (auto simp: call_go_def)
  next
    case False
    then have "cpc s d = Signalling \<Longrightarrow> (\<exists>k. wpc s k \<notin> {Waiting, Exited})" for d
      using assms(2) w(1) by (cases "d = c") auto
    moreover have "(\<exists>k. wpc s k \<notin> {Waiting, Exited}) \<or> (\<exists>d. cpc s d = Signalling) \<or> dpc s = Broadcasting"
      using assms(1) w unfolding sleep_ok_def by blast
    ultimately show ?thesis by blast
  qed
  then show ?thesis using assms(1) unfolding sleep_ok_def f by blast
qed

lemma sleep_ok_broadcast: "sleep_ok s \<Longrightarrow> sleep_ok (schedi_wake_all_job_waiters_lockless s)"
  by (auto simp: sleep_ok_def schedi_wake_all_job_waiters_lockless_def split: if_splits)

lemma caller_sleep_ok:
  assumes "caller_step c s s'" "sleep_ok s" "mutex_ok s"
  shows "sleep_ok s'"
  using assms(1)
proof cases
  case mark
  then have "caller_holds (cpc s c)" by (simp add: caller_holds_def)
  from held_by_caller(2)[OF assms(3) this] have "wpc s k \<noteq> Deciding" for k by (force simp: worker_holds_def)
  moreover have "wpc s' = wpc s" "dpc s' = dpc s" "shutting s' = shutting s" "cpc s' c = Signalling"
    using mark by (simp_all add: call_go_def)
  ultimately show ?thesis using assms(2) unfolding sleep_ok_def by metis
next
  case (signal_one i)
  have "sleep_ok (go i Woken s)" by (rule sleep_ok_simple[OF assms(2)]) simp
  moreover have "wpc (go i Woken s) i \<notin> {Waiting, Exited}" by (simp add: go_def)
  ultimately have "sleep_ok (call_go c CallerUnlocking ((go i Woken s)\<lparr>readyjob_mutex := readyjob_mutex (go i Woken s)\<rparr>))"
    by (intro sleep_ok_call) blast+
  then show ?thesis using signal_one(1) by simp
next
  case wake_all
  let ?s = "schedi_wake_all_job_waiters_lockless s"
  have "sleep_ok (call_go c CallerUnlocking (?s\<lparr>readyjob_mutex := readyjob_mutex ?s\<rparr>))"
    by (rule sleep_ok_call[OF sleep_ok_broadcast[OF assms(2)]])
      (simp add: schedi_wake_all_job_waiters_lockless_def)
  then show ?thesis using wake_all(1) by simp
next
  case lock
  then show ?thesis by (simp only:) (rule sleep_ok_call[OF assms(2)], simp)
next
  case unlock
  then show ?thesis by (simp only:) (rule sleep_ok_call[OF assms(2)], simp)
qed (use sleep_ok_call[OF assms(2), of c _ "readyjob_mutex s"] in simp_all)

lemma deinit_sleep_ok:
  assumes "deinit_step s s'" "sleep_ok s"
  shows "sleep_ok s'"
  using assms(1)
proof cases
  case broadcast
  then show ?thesis using assms(2)
    by (auto simp: sleep_ok_def schedi_wake_all_job_waiters_lockless_def split: if_splits)
qed (use assms(2) in \<open>auto simp: sleep_ok_def\<close>)

lemma wake_reach_inv: "wake_reach n s \<Longrightarrow> mutex_ok s \<and> sleep_ok s"
proof (induction rule: wake_reach.induct)
  case start
  then show ?case by (auto simp: wake_start_def mutex_ok_def sleep_ok_def holds_defs)
next
  case (step s s')
  from step(2) show ?case
  proof cases
    case worker
    then show ?thesis using step.IH worker_mutex worker_sleep_ok by blast
  next
    case caller
    then show ?thesis using step.IH caller_mutex caller_sleep_ok by blast
  next
    case deinit
    then show ?thesis using step.IH deinit_mutex deinit_sleep_ok by blast
  qed
qed

section \<open>No lost wake-up\<close>


lemmas reach_worker = wake_reach.step[OF _ wake_step.worker]
  and reach_caller = wake_reach.step[OF _ wake_step.caller]
  and reach_deinit = wake_reach.step[OF _ wake_step.deinit]

text \<open>One worker goes to sleep; then a job is made ready, and the signal is still to come.\<close>

definition asleep :: wake_sys where
  "asleep = waitforjob_sleep 0 (go 0 Deciding (schedi_pickingreadyjob 0 (go 0 Locking (go 0 FirstPick (wake_start 1)))))"

definition ready_asleep :: wake_sys where
  "ready_asleep = (let s = call_go 0 Marking ((call_go 0 CallerLocking asleep)\<lparr>readyjob_mutex := Some (ByCaller 0)\<rparr>)
     in call_go 0 Signalling (s\<lparr>nready := nready s + 1\<rparr>))"

lemma asleep_reached: "wake_reach 1 asleep"
  unfolding asleep_def
  by (rule reach_worker[OF reach_worker[OF reach_worker[OF reach_worker[OF reach_worker[OF wake_reach.start
        worker_step.enter] worker_step.first_miss] worker_step.lock] worker_step.pick_miss] worker_step.sleep])
    (simp_all add: step_defs wake_start_def)

lemma ready_asleep_reached: "wake_reach 1 ready_asleep"
  unfolding ready_asleep_def Let_def
  by (rule reach_caller[OF reach_caller[OF reach_caller[OF asleep_reached
        caller_step.call] caller_step.lock] caller_step.mark])
    (simp_all add: step_defs wake_start_def asleep_def)


section \<open>Shutdown\<close>

text \<open>How many steps a worker can still make once the shutdown is marked.\<close>

fun steps_left :: "worker_pc \<Rightarrow> nat" where
  "steps_left Exited = 0"
| "steps_left AtHead = 1"
| "steps_left Continuing = 2"
| "steps_left Executing = 3"
| "steps_left Unlocking = 3"
| "steps_left Woken = 4"
| "steps_left Waiting = 5"
| "steps_left Picked = 4"
| "steps_left Deciding = 1"
| "steps_left Picking = 5"
| "steps_left Locking = 6"
| "steps_left FirstPick = 7"

lemma worker_can_step:
  "wpc s i \<notin> {Exited, Locking, Woken} \<or> wpc s i \<noteq> Exited \<and> readyjob_mutex s = None \<Longrightarrow> \<exists>s'. worker_step i s s'"
  by (cases "wpc s i"; cases "shutting s"; cases "nready s = 0")
    (fastforce intro: worker_step.intros)+

lemma caller_can_step: "caller_holds (cpc s c) \<Longrightarrow> \<exists>s'. caller_step c s s'"
proof -
  assume "caller_holds (cpc s c)"
  then consider "cpc s c = Marking" | "cpc s c = Signalling" | "cpc s c = CallerUnlocking"
    by (auto simp: caller_holds_def)
  then show ?thesis
  proof cases
    case 2
    then show ?thesis by (cases "\<exists>i. wpc s i = Waiting") (use caller_step.signal_one caller_step.signal_none in blast)+
  qed (use caller_step.mark caller_step.unlock in blast)+
qed

text \<open>
  C19: A shutdown ends. Once \<^verbatim>\<open>schedi_worker_deinit\<close> has woken the workers, none of them
  sleeps and none goes to sleep again; every step of a worker brings it nearer to
  its exit, which it reaches after at most seven steps of its own; and as long as a
  worker has not exited, a worker, or a caller that holds the mutex, can make a step.
\<close>

theorem shutdown_ends:
  assumes "wake_reach n s" "dpc s = Joining"
  shows "(\<forall>i. wpc s i \<noteq> Waiting)
    \<and> (\<forall>i s'. worker_step i s s' \<longrightarrow> steps_left (wpc s' i) < steps_left (wpc s i) \<and> (\<forall>k. k \<noteq> i \<longrightarrow> wpc s' k = wpc s k))
    \<and> (\<forall>i. wpc s i \<noteq> Exited \<longrightarrow> (\<exists>k s'. worker_step k s s') \<or> (\<exists>c s'. caller_holds (cpc s c) \<and> caller_step c s s'))"
proof (intro conjI allI impI)
  from wake_reach_inv[OF assms(1)] have inv: "mutex_ok s" "sleep_ok s" by simp_all
  have shut: "shutting s" using inv(2) assms(2) by (simp add: sleep_ok_def)
  show "wpc s i \<noteq> Waiting" for i 
  proof
    assume "wpc s i = Waiting"
    then have "dpc s = Broadcasting" using inv(2) shut unfolding sleep_ok_def by blast
    with assms(2) show False by simp
  qed
  show "steps_left (wpc s' i) < steps_left (wpc s i)" if "worker_step i s s'" for i s'
    using that shut by cases (simp_all add: step_defs)
  show "wpc s' k = wpc s k" if "worker_step i s s'" "k \<noteq> i" for i s' k
    using that by cases (simp_all add: step_defs)
  show "(\<exists>k s'. worker_step k s s') \<or> (\<exists>c s'. caller_holds (cpc s c) \<and> caller_step c s s')" if "wpc s i \<noteq> Exited" for i
  proof (cases "readyjob_mutex s")
    case None
    then show ?thesis using that worker_can_step[of s i] by blast
  next
    case (Some h)
    show ?thesis
    proof (cases h)
      case (ByWorker k)
      then have "worker_holds (wpc s k)" using inv(1) Some by (simp add: mutex_ok_def)
      then show ?thesis using worker_can_step[of s k] by (auto simp: worker_holds_def)
    next
      case (ByCaller c)
      then have "caller_holds (cpc s c)" using inv(1) Some by (simp add: mutex_ok_def)
      then show ?thesis using caller_can_step by blast
    next
      case ByDeinit
      then show ?thesis using inv(1) Some assms(2) by (simp add: mutex_ok_def deinit_holds_def)
    qed
  qed
qed

definition joining :: wake_sys where
  "joining = (let s1 = asleep\<lparr>dpc := DeinitLocking\<rparr>;
      s2 = s1\<lparr>dpc := ShutdownMarking, readyjob_mutex := Some ByDeinit\<rparr>;
      s3 = s2\<lparr>dpc := Broadcasting, shutting := True\<rparr>;
      s4 = (schedi_wake_all_job_waiters_lockless s3)\<lparr>dpc := DeinitUnlocking\<rparr>
    in s4\<lparr>dpc := Joining, readyjob_mutex := None\<rparr>)"

lemma joining_reached: "wake_reach 1 joining"
  unfolding joining_def Let_def
  by (rule reach_deinit[OF reach_deinit[OF reach_deinit[OF reach_deinit[OF reach_deinit[OF asleep_reached
        deinit_step.call] deinit_step.lock] deinit_step.mark] deinit_step.broadcast] deinit_step.unlock])
    (simp_all add: step_defs wake_start_def asleep_def)

theorem shutdown_ends_witness:
  "wpc asleep 0 = Waiting \<and> dpc joining = Joining \<and> wpc joining 0 \<noteq> Waiting"
proof -
  have "wpc asleep 0 = Waiting" "dpc joining = Joining"
    by (simp_all add: joining_def Let_def asleep_def step_defs)
  with shutdown_ends[OF joining_reached this(2)] show ?thesis by blast
qed

end
