(* ===== verification/Completion.thy ===== *)
theory Completion
  imports Schedi_Prelude
begin

text \<open>
  The completion indicator of \<^verbatim>\<open>src/src/jobs.c\<close>: threads in
  \<^verbatim>\<open>schedi_job_completion_wait\<close> and the worker in \<^verbatim>\<open>schedi_job_completion_indicate\<close>,
  interleaved at every call of the mutex and the condition variable of one
  indicator. POSIX allows a wait to end without a signal; the steps take a flag
  that says whether that happens.
\<close>

datatype waiter_pc = Entering | Checking | Sleeping | Signalled | Ending | Returned
datatype indicate_pc = NotYet | Setting | Waking | Releasing | Indicated
datatype completion_holder = Waiter nat | Indicator

record completion_sys =
  completion :: bool
  completion_mutex :: "completion_holder option"
  waiter :: "nat \<Rightarrow> waiter_pc"
  indicator :: indicate_pc

definition completion_start :: completion_sys where
  "completion_start = \<lparr>completion = False, completion_mutex = None, waiter = (\<lambda>_. Entering), indicator = NotYet\<rparr>"

definition waiter_at :: "nat \<Rightarrow> waiter_pc \<Rightarrow> completion_holder option \<Rightarrow> completion_sys \<Rightarrow> completion_sys" where
  "waiter_at i q m s = s\<lparr>waiter := (waiter s)(i := q), completion_mutex := m\<rparr>"

inductive completion_wait_step :: "bool \<Rightarrow> completion_sys \<Rightarrow> completion_sys \<Rightarrow> bool" for spurious where
  lock: "waiter s i = Entering \<Longrightarrow> completion_mutex s = None \<Longrightarrow>
    completion_wait_step spurious s (waiter_at i Checking (Some (Waiter i)) s)"
| completed: "waiter s i = Checking \<Longrightarrow> completion s \<Longrightarrow>
    completion_wait_step spurious s (waiter_at i Ending (completion_mutex s) s)"
| sleep: "waiter s i = Checking \<Longrightarrow> \<not> completion s \<Longrightarrow> completion_wait_step spurious s (waiter_at i Sleeping None s)"
| wake: "waiter s i = Sleeping \<Longrightarrow> spurious \<Longrightarrow> completion_wait_step spurious s (waiter_at i Signalled (completion_mutex s) s)"
| relock: "waiter s i = Signalled \<Longrightarrow> completion_mutex s = None \<Longrightarrow>
    completion_wait_step spurious s (waiter_at i Ending (Some (Waiter i)) s)"
| unlock: "waiter s i = Ending \<Longrightarrow> completion_wait_step spurious s (waiter_at i Returned None s)"

inductive completion_indicate_step :: "completion_sys \<Rightarrow> completion_sys \<Rightarrow> bool" where
  lock: "indicator s = NotYet \<Longrightarrow> completion_mutex s = None \<Longrightarrow>
    completion_indicate_step s (s\<lparr>indicator := Setting, completion_mutex := Some Indicator\<rparr>)"
| set: "indicator s = Setting \<Longrightarrow> completion_indicate_step s (s\<lparr>indicator := Waking, completion := True\<rparr>)"
| broadcast: "indicator s = Waking \<Longrightarrow> completion_indicate_step s
    (s\<lparr>indicator := Releasing, waiter := (\<lambda>i. if waiter s i = Sleeping then Signalled else waiter s i)\<rparr>)"
| unlock: "indicator s = Releasing \<Longrightarrow> completion_indicate_step s (s\<lparr>indicator := Indicated, completion_mutex := None\<rparr>)"

inductive completion_reach :: "bool \<Rightarrow> completion_sys \<Rightarrow> bool" for spurious where
  start: "completion_reach spurious completion_start"
| wait: "completion_reach spurious s \<Longrightarrow> completion_wait_step spurious s s' \<Longrightarrow> completion_reach spurious s'"
| indicate: "completion_reach spurious s \<Longrightarrow> completion_indicate_step s s' \<Longrightarrow> completion_reach spurious s'"

section \<open>Invariant\<close>

definition completion_inv :: "bool \<Rightarrow> completion_sys \<Rightarrow> bool" where
  "completion_inv spurious s \<longleftrightarrow>
     (\<forall>i. waiter s i \<in> {Checking, Ending} \<longrightarrow> completion_mutex s = Some (Waiter i))
     \<and> (indicator s \<in> {Setting, Waking, Releasing} \<longrightarrow> completion_mutex s = Some Indicator)
     \<and> (completion s \<longleftrightarrow> indicator s \<in> {Waking, Releasing, Indicated})
     \<and> (\<forall>i. waiter s i = Sleeping \<longrightarrow> indicator s \<notin> {Releasing, Indicated})
     \<and> (spurious \<or> (\<forall>i. waiter s i \<in> {Signalled, Ending, Returned} \<longrightarrow> completion s))"

lemma completion_invD:
  assumes "completion_inv spurious s"
  shows "waiter s i \<in> {Checking, Ending} \<Longrightarrow> completion_mutex s = Some (Waiter i)"
    and "indicator s \<in> {Setting, Waking, Releasing} \<Longrightarrow> completion_mutex s = Some Indicator"
    and "completion s \<longleftrightarrow> indicator s \<in> {Waking, Releasing, Indicated}"
    and "waiter s i = Sleeping \<Longrightarrow> indicator s \<notin> {Releasing, Indicated}"
    and "\<not> spurious \<Longrightarrow> waiter s i \<in> {Signalled, Ending, Returned} \<Longrightarrow> completion s"
proof -
  note d = assms[unfolded completion_inv_def]
  show "waiter s i \<in> {Checking, Ending} \<Longrightarrow> completion_mutex s = Some (Waiter i)"
    by (rule d[THEN conjunct1, rule_format])
  show "indicator s \<in> {Setting, Waking, Releasing} \<Longrightarrow> completion_mutex s = Some Indicator"
    by (rule d[THEN conjunct2, THEN conjunct1, rule_format])
  show "completion s \<longleftrightarrow> indicator s \<in> {Waking, Releasing, Indicated}"
    by (rule d[THEN conjunct2, THEN conjunct2, THEN conjunct1])
  show "waiter s i = Sleeping \<Longrightarrow> indicator s \<notin> {Releasing, Indicated}"
    by (rule d[THEN conjunct2, THEN conjunct2, THEN conjunct2, THEN conjunct1, rule_format])
  show "\<not> spurious \<Longrightarrow> waiter s i \<in> {Signalled, Ending, Returned} \<Longrightarrow> completion s"
    using d[THEN conjunct2, THEN conjunct2, THEN conjunct2, THEN conjunct2] by blast
qed

lemma waiter_at_inv:
  assumes inv: "completion_inv spurious s"
    and "q \<in> {Checking, Ending} \<Longrightarrow> m = Some (Waiter i)"
    and "\<And>k. k \<noteq> i \<Longrightarrow> waiter s k \<in> {Checking, Ending} \<Longrightarrow> m = Some (Waiter k)"
    and "indicator s \<in> {Setting, Waking, Releasing} \<Longrightarrow> m = Some Indicator"
    and "q = Sleeping \<Longrightarrow> indicator s \<notin> {Releasing, Indicated}"
    and "\<not> spurious \<Longrightarrow> q \<in> {Signalled, Ending, Returned} \<Longrightarrow> completion s"
  shows "completion_inv spurious (waiter_at i q m s)"
proof -
  let ?s = "waiter_at i q m s"
  have f: "waiter ?s k = (if k = i then q else waiter s k)" "indicator ?s = indicator s" "completion ?s = completion s"
    "completion_mutex ?s = m" for k by (simp_all add: waiter_at_def)
  note d = completion_invD[OF inv]
  have "m = Some (Waiter k)" if "waiter ?s k \<in> {Checking, Ending}" for k
    using that assms(2) assms(3)[of k] by (cases "k = i") (simp_all add: f)
  moreover have "indicator s \<notin> {Releasing, Indicated}" if "waiter ?s k = Sleeping" for k
    using that assms(5) d(4)[of k] by (cases "k = i") (simp_all add: f)
  moreover have "completion s" if "\<not> spurious" "waiter ?s k \<in> {Signalled, Ending, Returned}" for k
    using that assms(6) d(5)[of k] by (cases "k = i") (simp_all add: f)
  ultimately show ?thesis using assms(4) d(3) unfolding completion_inv_def f(2-4) by blast
qed

lemma held_by_waiter:
  assumes "completion_inv spurious s" "waiter s i \<in> {Checking, Ending}"
  shows "completion_mutex s = Some (Waiter i)" "\<And>k. k \<noteq> i \<Longrightarrow> waiter s k \<notin> {Checking, Ending}"
    "indicator s \<notin> {Setting, Waking, Releasing}"
proof -
  note d = completion_invD[OF assms(1)]
  show m: "completion_mutex s = Some (Waiter i)" by (rule d(1)[OF assms(2)])
  show "waiter s k \<notin> {Checking, Ending}" if "k \<noteq> i" for k using d(1)[of k] m that by auto
  show "indicator s \<notin> {Setting, Waking, Releasing}" using d(2) m by auto
qed

lemma wait_step_inv:
  assumes "completion_wait_step spurious s s'" "completion_inv spurious s"
  shows "completion_inv spurious s'"
  using assms(1)
proof cases
  case (lock i)
  have "waiter s k \<notin> {Checking, Ending}" "indicator s \<notin> {Setting, Waking, Releasing}" for k
    using completion_invD(1,2)[OF assms(2)] lock(3) by auto
  then show ?thesis unfolding lock(1) by (intro waiter_at_inv[OF assms(2)]) auto
next
  case (completed i)
  from held_by_waiter[OF assms(2), of i] completed show ?thesis
    unfolding completed(1) by (intro waiter_at_inv[OF assms(2)]) auto
next
  case (sleep i)
  have "\<not> completion s \<Longrightarrow> indicator s \<notin> {Releasing, Indicated}" using completion_invD(3)[OF assms(2)] by blast
  with held_by_waiter[OF assms(2), of i] sleep show ?thesis
    unfolding sleep(1) by (intro waiter_at_inv[OF assms(2)]) auto
next
  case (wake i)
  then show ?thesis unfolding wake(1)
    by (intro waiter_at_inv[OF assms(2)]) (use completion_invD[OF assms(2)] in auto)
next
  case (relock i)
  have "waiter s k \<notin> {Checking, Ending}" "indicator s \<notin> {Setting, Waking, Releasing}"
    "\<not> spurious \<Longrightarrow> completion s" for k
    using completion_invD(1,2)[OF assms(2)] completion_invD(5)[OF assms(2), of i] relock(2,3) by auto
  then show ?thesis unfolding relock(1) by (intro waiter_at_inv[OF assms(2)]) auto
next
  case (unlock i)
  have "\<not> spurious \<Longrightarrow> completion s" using completion_invD(5)[OF assms(2), of i] unlock(2) by simp
  with held_by_waiter[OF assms(2), of i] unlock show ?thesis
    unfolding unlock(1) by (intro waiter_at_inv[OF assms(2)]) auto
qed

lemma indicate_step_inv:
  assumes "completion_indicate_step s s'" "completion_inv spurious s"
  shows "completion_inv spurious s'"
  using assms by cases (auto simp: completion_inv_def split: if_splits)

lemma completion_reach_inv: "completion_reach spurious s \<Longrightarrow> completion_inv spurious s"
proof (induction rule: completion_reach.induct)
  case start
  show ?case by (simp add: completion_inv_def completion_start_def)
qed (auto intro: wait_step_inv indicate_step_inv)

text \<open>
  C32: Waiting for completion. If waits end by signals only, a thread returns from
  \<^verbatim>\<open>schedi_job_completion_wait\<close> only after the job was indicated complete; and no
  thread stays asleep: after the indication has been broadcast nobody sleeps, and a
  thread that comes later does not go to sleep.
\<close>

theorem completion_wait_returns_complete:
  assumes "completion_reach False s"
  shows "(waiter s i = Returned \<longrightarrow> completion s)
    \<and> (indicator s \<in> {Releasing, Indicated} \<longrightarrow> waiter s i \<noteq> Sleeping)"
  using completion_reach_inv[OF assms] unfolding completion_inv_def by blast

text \<open>The steps of one waiting thread, and of a completion seen by it.\<close>

lemmas reach_wait = completion_reach.wait and reach_indicate = completion_reach.indicate

definition slept :: completion_sys where
  "slept = waiter_at 0 Sleeping None (waiter_at 0 Checking (Some (Waiter 0)) completion_start)"

lemma slept_reached: "completion_reach spurious slept"
  unfolding slept_def
  by (rule reach_wait[OF reach_wait[OF completion_reach.start completion_wait_step.lock] completion_wait_step.sleep])
    (simp_all add: completion_start_def waiter_at_def)

definition indicated :: completion_sys where
  "indicated = (let s1 = slept\<lparr>indicator := Setting, completion_mutex := Some Indicator\<rparr>;
       s2 = s1\<lparr>indicator := Waking, completion := True\<rparr>
     in s2\<lparr>indicator := Releasing, waiter := (\<lambda>i. if waiter s2 i = Sleeping then Signalled else waiter s2 i)\<rparr>)"

theorem completion_wait_returns_complete_witness:
  "waiter slept 0 = Sleeping \<and> indicator indicated = Releasing \<and> waiter indicated 0 \<noteq> Sleeping"
proof -
  have "completion_reach False indicated"
    unfolding indicated_def Let_def
    by (rule reach_indicate[OF reach_indicate[OF reach_indicate[OF slept_reached completion_indicate_step.lock]
          completion_indicate_step.set] completion_indicate_step.broadcast])
      (simp_all add: slept_def completion_start_def waiter_at_def)
  moreover have "waiter slept 0 = Sleeping" "indicator indicated = Releasing"
    by (simp_all add: slept_def waiter_at_def indicated_def Let_def)
  ultimately show ?thesis using completion_wait_returns_complete[of indicated 0] by blast
qed

text \<open>
  A spurious wake-up ends the wait too early: \<^verbatim>\<open>schedi_job_completion_wait\<close> tests the
  flag once and not in a loop, so a thread can return before the job is complete.
\<close>

lemma completion_wait_can_return_early:
  "\<exists>s. completion_reach True s \<and> waiter s 0 = Returned \<and> \<not> completion s"
proof -
  let ?s = "waiter_at 0 Returned None (waiter_at 0 Ending (Some (Waiter 0)) (waiter_at 0 Signalled None slept))"
  have "completion_reach True ?s"
    by (rule reach_wait[OF reach_wait[OF reach_wait[OF slept_reached _] completion_wait_step.relock] completion_wait_step.unlock])
      (use completion_wait_step.wake[of slept 0 True] in \<open>simp_all add: slept_def waiter_at_def\<close>)
  moreover have "waiter ?s 0 = Returned" "\<not> completion ?s" by (simp_all add: waiter_at_def slept_def completion_start_def)
  ultimately show ?thesis by blast
qed

end
