(* ===== verification/Client_Passes.thy ===== *)
theory Client_Passes
  imports Worker
begin

text \<open>
  Passes of the workers as a client program sees them. A client keeps its own memory
  in an extension of the record \<open>jobsys\<close>; the lemmas say what a pass does to the words of
  the jobs, to the ready cache and to that memory, when the job function returns 1
  and when it returns a negative value. With at most \<^verbatim>\<open>SCHEDI_JOBS_CACHE_CHECK\<close> jobs
  ready, a pass always finds one.
\<close>

section \<open>The library leaves the memory of the client alone\<close>

named_theorems memory

lemma memory_marks [memory]:
  "jobsys.more (upd_job j f s) = jobsys.more s" "jobsys.more (set_meta j m s) = jobsys.more s"
  "jobsys.more (snd (meta_cas body s j)) = jobsys.more s"
  by (simp_all add: upd_job_def set_meta_def meta_cas_def case_prod_beta)

lemma memory_put [memory]: "jobsys.more (snd (schedi_cache_job_ready s j)) = jobsys.more s"
  by (simp add: schedi_cache_job_ready_def schedi_ready_jobs_cache_add_job_count_def split: option.split)

lemma memory_mark_ops [memory]:
  "jobsys.more (snd (schedi_job_mark_access s j)) = jobsys.more s"
  "jobsys.more (snd (schedi_job_unmark_access s j)) = jobsys.more s"
  "jobsys.more (snd (schedi_job_mark_or s j f bn ba)) = jobsys.more s"
  "jobsys.more (snd (schedi_job_unmark_or s j f bn ba)) = jobsys.more s"
  by (simp_all add: schedi_job_mark_access_def schedi_job_unmark_access_def schedi_job_mark_or_def
      schedi_job_unmark_or_def memory)

lemma memory_setready [memory]: "jobsys.more (snd (schedi_job_setready b s j)) = jobsys.more s"
  by (simp add: schedi_job_setready_def Let_def case_prod_beta mark_defs memory)

lemma memory_update [memory]:
  "jobsys.more (snd (schedi_job_meta_flag_cas_update b s j sd wd jd f bn ba)) = jobsys.more s"
  by (simp add: schedi_job_meta_flag_cas_update_def Let_def case_prod_beta memory)

lemma memory_section [memory]:
  "jobsys.more (section_release s j) = jobsys.more s" "jobsys.more (snd (section_claim s)) = jobsys.more s"
  by (simp_all add: section_release_def section_claim_def memory Let_def split: option.split prod.split)

lemma memory_destroy_now [memory]: "jobsys.more (snd (schedi_job_destroy_now s j)) = jobsys.more s"
  by (simp add: destroy_now_eq teardown_def memory)

lemma memory_destroy [memory]: "jobsys.more (snd (schedi_job_destroy b s j)) = jobsys.more s"
  by (simp add: schedi_job_destroy_def Let_def case_prod_beta mark_defs memory)

lemma memory_queue_loop: "jobsys.more (destroy_queue_loop b n s) = jobsys.more s"
proof (induction b n s rule: destroy_queue_loop.induct)
  case (2 b n s)
  show ?case
  proof (cases "dq_super_pop (job_addr b) (destroy_q s)")
    case (Pair o' q)
    show ?thesis
    proof (cases o')
      case (Some j)
      obtain r s1 where d: "schedi_job_destroy_now (s\<lparr>destroy_q := q\<rparr>) j = (r, s1)" by force
      then have "jobsys.more s1 = jobsys.more s" using memory_destroy_now[of "s\<lparr>destroy_q := q\<rparr>" j] by simp
      with 2 Pair Some d show ?thesis by auto
    qed (use Pair in simp)
  qed
qed simp

lemma memory_queue_check [memory]: "jobsys.more (schedi_job_destroy_queue_check b s) = jobsys.more s"
  by (simp add: schedi_job_destroy_queue_check_def memory_queue_loop)

lemma memory_pass_parts [memory]:
  "jobsys.more (run_state s j) = jobsys.more s" "jobsys.more (suspended j s) = jobsys.more s"
  "jobsys.more (schedi_job_completion_indicate s j) = jobsys.more s"
  by (simp_all add: run_state_def suspended_def schedi_job_completion_indicate_def mark_defs memory split: option.split)

lemma memory_notify [memory]: "jobsys.more (worker_notify b s j) = jobsys.more s"
  by (simp add: worker_notify_def Let_def case_prod_beta schedi_job_add_available_job_def memory split: option.split)

section \<open>A small system finds its ready jobs\<close>

text \<open>Every ready job lies where a pop looks.\<close>

definition near :: "'a job_array_scheme \<Rightarrow> bool" where
  "near s \<longleftrightarrow> (\<forall>i < SCHEDI_MAXIMUM_JOBS. ready_jobs_cache s ! i \<noteq> None \<longrightarrow> i < SCHEDI_JOBS_CACHE_CHECK)"

lemma near_cong: "ready_jobs_cache s' = ready_jobs_cache s \<Longrightarrow> near s' = near s"
  by (simp add: near_def)

lemma near_put:
  assumes "cache_ok s" "near s" "size (ready_bag s) < SCHEDI_JOBS_CACHE_CHECK"
  shows "near (snd (schedi_cache_job_ready s j))"
proof -
  have len: "length (ready_jobs_cache s) = SCHEDI_MAXIMUM_JOBS" using assms(1) by (simp add: cache_ok_def)
  have "first_free (ready_jobs_cache s) < SCHEDI_JOBS_CACHE_CHECK"
    using first_free_le_cached[of "ready_jobs_cache s"] assms(3) by simp
  with assms(2) len show ?thesis
    by (auto simp: cache_job_ready_eq[OF assms(1)] near_def nth_update split: if_splits)
qed

lemma near_pop:
  assumes "cache_ok s" "near s"
  shows "near (snd (schedi_cache_job_ready_pop s))"
    and "ready_bag s \<noteq> {#} \<Longrightarrow> fst (schedi_cache_job_ready_pop s) \<noteq> None"
proof -
  have len: "length (ready_jobs_cache s) = SCHEDI_MAXIMUM_JOBS" using assms(1) by (simp add: cache_ok_def)
  have "near (snd (schedi_cache_job_ready_pop s))
    \<and> (ready_bag s \<noteq> {#} \<longrightarrow> fst (schedi_cache_job_ready_pop s) \<noteq> None)"
    using assms(1)
  proof (cases rule: cache_pop_cases)
    case none
    with assms(2) len have "\<forall>i < length (ready_jobs_cache s). ready_jobs_cache s ! i = None"
      unfolding near_def by (metis option.exhaust)
    with none(1) assms(2) show ?thesis by (simp add: cached_empty_iff[symmetric])
  next
    case (some i j)
    with assms(2) len show ?thesis by (auto simp: near_def nth_update split: if_splits)
  qed
  then show "near (snd (schedi_cache_job_ready_pop s))"
    "ready_bag s \<noteq> {#} \<Longrightarrow> fst (schedi_cache_job_ready_pop s) \<noteq> None" by simp_all
qed

lemma near_tick:
  assumes "cache_ok s" "near s" "size (ready_bag s) \<le> SCHEDI_JOBS_CACHE_CHECK"
  shows "near (schedi_ready_jobs_cache_reorganize_tick b s)"
proof -
  let ?s0 = "s\<lparr>reorganize_counter := 0\<rparr>"
  let ?s' = "schedi_ready_jobs_cache_reorganize b ?s0"
  have "cache_ok ?s0" using assms(1) by simp
  note r = reorganize_compacts[OF this, of b]
  have len: "length (ready_jobs_cache ?s') = SCHEDI_MAXIMUM_JOBS" using r(1) by (simp add: compacted_def cache_ok_def)
  have "mset (cached (ready_jobs_cache ?s')) = ready_bag s" using r(1) by (simp add: compacted_def)
  then have "length (cached (ready_jobs_cache ?s')) = size (ready_bag s)" by (metis size_mset)
  then have "first_free (ready_jobs_cache ?s') \<le> SCHEDI_JOBS_CACHE_CHECK"
    using first_free_le_cached[of "ready_jobs_cache ?s'"] assms(3) by simp
  then have "near ?s'" using r(2) len unfolding gap_free_iff near_def by fastforce
  with assms(2) show ?thesis by (simp add: reorganize_tick_eq)
qed

lemma pick_finds:
  assumes inv: "sched_inv s" and "near s" "ready_bag s \<noteq> {#}"
    and free: "\<And>j. j \<in># ready_bag s \<Longrightarrow> settled (meta s j) \<and> SCHEDI_JOB_METAFLAG_GETACCESS (meta s j) \<noteq> 15"
  obtains j s1 where "schedi_job_pickready s = (Some j, s1)" "j \<in># ready_bag s"
    "ready_bag s1 = ready_bag s - {#j#}" "near s1" "sched_inv s1"
    "jobs s1 = (jobs s)(j := (jobs s j)\<lparr>meta_flag := picked_word (meta s j)\<rparr>)"
    "empty_sections s1 = empty_sections s" "destroy_q s1 = destroy_q s" "completed s1 = completed s"
    "jobsys.more s1 = jobsys.more s"
proof -
  have ok: "cache_ok s" using inv by (simp add: sched_inv_def)
  from near_pop(2)[OF ok assms(2,3)] obtain j u where pop: "schedi_cache_job_ready_pop s = (Some j, u)"
    by (metis option.exhaust prod.collapse)
  note p = sched_pop[OF inv pop]
  have u: "jobs u = jobs s" "empty_sections u = empty_sections s" "destroy_q u = destroy_q s"
    "completed u = completed s" "jobsys.more u = jobsys.more s" using p(6) by (simp_all add: same_rest_def)
  have j: "j \<in># ready_bag s" using p(3) by simp
  let ?s1 = "set_meta j (picked_word (meta s j)) u"
  have pick: "schedi_job_pickready s = (Some j, ?s1)"
    using pickready_pass[OF pop refl] free[OF j] by (simp add: u settled_iff)
  have "near u" using near_pop(1)[OF ok assms(2)] by (simp add: pop)
  then have "near ?s1" using near_cong[of ?s1 u] by simp
  moreover have "ready_bag ?s1 = ready_bag s - {#j#}" using p(3) by simp
  moreover have "sched_inv ?s1" using pickready_spec[OF inv pick] by (simp add: pick_spec_def)
  ultimately show ?thesis using that[OF pick j] u by (simp add: memory)
qed

section \<open>The end of a pass\<close>

text \<open>
  What the end of a pass keeps when the destroy queue is empty: everything but the
  places in the cache.
\<close>

definition kept :: "'a jobsys_scheme \<Rightarrow> 'a jobsys_scheme \<Rightarrow> bool" where
  "kept s s' \<longleftrightarrow> jobs s' = jobs s \<and> ready_bag s' = ready_bag s \<and> free_slots s' = free_slots s
     \<and> completed s' = completed s \<and> jobsys.more s' = jobsys.more s"

lemma tick_kept:
  assumes "life_inv s xs" "near s" "size (ready_bag s) \<le> SCHEDI_JOBS_CACHE_CHECK"
  shows "kept s (schedi_ready_jobs_cache_reorganize_tick b s)"
    and "life_inv (schedi_ready_jobs_cache_reorganize_tick b s) xs" "near (schedi_ready_jobs_cache_reorganize_tick b s)"
proof -
  note inv = life_inv_sched[OF assms(1)]
  note t = tick_cached[OF inv(2), of b]
  show "kept s (schedi_ready_jobs_cache_reorganize_tick b s)"
    using t(1,3) by (simp add: kept_def same_rest_def)
  show "life_inv (schedi_ready_jobs_cache_reorganize_tick b s) xs"
    using calm_life_inv[OF calm_tick[OF inv(2)] tick_sched_inv[OF inv(1)] assms(1)] .
  show "near (schedi_ready_jobs_cache_reorganize_tick b s)" by (rule near_tick[OF inv(2) assms(2,3)])
qed

lemma queue_check_empty:
  assumes "life_inv s []"
  shows "schedi_job_destroy_queue_check b s = s"
proof -
  have "unat (HTC_COUNT (dq_htc (destroy_q s))) = 0" using assms by (simp add: life_inv_def dq_repr_def)
  then show ?thesis by (simp add: schedi_job_destroy_queue_check_def)
qed

lemma continue_kept:
  assumes "life_inv s []" "near s" "size (ready_bag s) \<le> SCHEDI_JOBS_CACHE_CHECK"
  shows "kept s (worker_continue b s)" "life_inv (worker_continue b s) []" "near (worker_continue b s)"
  using tick_kept[OF assms, of b] by (simp_all add: worker_continue_def queue_check_empty[OF assms(1)])

section \<open>The word of a job during a pass\<close>

text \<open>While the job function runs, and after the worker has handed the job on.\<close>

definition entered_word :: "u32 \<Rightarrow> u32" where
  "entered_word m = (m AND NOT (SCHEDI_JOB_METAFLAG_READY OR SCHEDI_JOB_METAFLAG_READYBASIC))
     OR SCHEDI_JOB_METAFLAG_EXECUTING"

lemma entered_word_bits:
  "n < 32 \<Longrightarrow> bit (entered_word m) n \<longleftrightarrow> n = 2 \<or> bit m n \<and> n \<noteq> 5 \<and> n \<noteq> 6"
  by (auto simp: entered_word_def bit_and_iff bit_or_iff bit_not_iff bit_flags)

lemma access_bitsI:
  assumes "\<And>n. n < 28 \<Longrightarrow> bit x n = bit y n"
    and "SCHEDI_JOB_METAFLAG_GETACCESS x = SCHEDI_JOB_METAFLAG_GETACCESS y"
  shows "x = y"
proof (rule bit_word_eqI)
  fix n assume n: "n < LENGTH(32)"
  show "bit x n = bit y n"
  proof (cases "n < 28")
    case False
    then have "bit (SCHEDI_JOB_METAFLAG_GETACCESS x) (n - 28) = bit x n"
      "bit (SCHEDI_JOB_METAFLAG_GETACCESS y) (n - 28) = bit y n"
      using n by (simp_all add: bit_getters less_diff_conv2)
    with assms(2) show ?thesis by simp
  qed (simp add: assms(1))
qed

lemma access_of_flags:
  assumes "\<And>n. 28 \<le> n \<Longrightarrow> \<not> bit f n"
  shows "SCHEDI_JOB_METAFLAG_GETACCESS (m OR f) = SCHEDI_JOB_METAFLAG_GETACCESS m"
    and "SCHEDI_JOB_METAFLAG_GETACCESS (m AND NOT f) = SCHEDI_JOB_METAFLAG_GETACCESS m"
  using assms by (auto intro!: get_cong simp: bit_and_iff bit_or_iff bit_not_iff)

lemma entered_word_eq:
  assumes "SCHEDI_JOB_METAFLAG_GETACCESS m \<noteq> 15"
  defines "p \<equiv> picked_word m OR SCHEDI_JOB_METAFLAG_EXECUTING"
  shows "SCHEDI_JOB_METAFLAG_SETACCESS p (SCHEDI_JOB_METAFLAG_GETACCESS p - 1) = entered_word m"
proof (rule access_bitsI)
  have a: "SCHEDI_JOB_METAFLAG_GETACCESS p - 1 = SCHEDI_JOB_METAFLAG_GETACCESS m"
    using picked_word_access[OF assms(1)] by (simp add: p_def access_of_flags bit_flags)
  show "bit (SCHEDI_JOB_METAFLAG_SETACCESS p (SCHEDI_JOB_METAFLAG_GETACCESS p - 1)) n = bit (entered_word m) n"
    if "n < 28" for n
    using that by (auto simp: a bit_set_access p_def bit_or_iff bit_flags picked_word_bits entered_word_bits)
  have "SCHEDI_JOB_METAFLAG_GETACCESS (entered_word m) = SCHEDI_JOB_METAFLAG_GETACCESS m"
    by (rule get_cong) (auto simp: entered_word_bits)
  then show "SCHEDI_JOB_METAFLAG_GETACCESS (SCHEDI_JOB_METAFLAG_SETACCESS p (SCHEDI_JOB_METAFLAG_GETACCESS p - 1))
      = SCHEDI_JOB_METAFLAG_GETACCESS (entered_word m)"
    by (simp add: a field_less_16)
qed

section \<open>One pass\<close>

text \<open>A consistent system with few ready jobs, none of them executed or held by too many.\<close>

definition small :: "'a jobsys_scheme \<Rightarrow> bool" where
  "small s \<longleftrightarrow> life_inv s [] \<and> near s \<and> size (ready_bag s) \<le> SCHEDI_JOBS_CACHE_CHECK"

text \<open>The state \<open>u\<close> in which the function of a picked job is called.\<close>

definition entered :: "'a jobsys_scheme \<Rightarrow> nat \<Rightarrow> 'a jobsys_scheme \<Rightarrow> bool" where
  "entered s j u \<longleftrightarrow> j \<in># ready_bag s \<and> small u \<and> ready_bag u = ready_bag s - {#j#}
     \<and> jobs u = (jobs s)(j := (jobs s j)\<lparr>state := schedi_job_state_working, meta_flag := entered_word (meta s j)\<rparr>)
     \<and> free_slots u = free_slots s \<and> completed u = completed s \<and> jobsys.more u = jobsys.more s"

lemma run_state_frame [simp]:
  "ready_jobs_cache (run_state s j) = ready_jobs_cache s" "empty_sections (run_state s j) = empty_sections s"
  "completed (run_state s j) = completed s" "destroy_q (run_state s j) = destroy_q s"
  "job_count (run_state s j) = job_count s"
  by (simp_all add: run_state_def mark_defs mark_or_eq unmark_access_eq Let_def)

lemma pass_enters:
  assumes "small s" "ready_bag s \<noteq> {#}"
    and free: "\<And>j. j \<in># ready_bag s \<Longrightarrow> settled (meta s j) \<and> \<not> bit (meta s j) 2
        \<and> SCHEDI_JOB_METAFLAG_GETACCESS (meta s j) \<noteq> 15"
  obtains j u where "entered s j u"
    "worker_pass b run sd s = (WorkerNext, worker_continue b (case run u j of (ret, t) \<Rightarrow>
       if ret < 0 then finish_job b j t
       else if ret = 1 then snd (schedi_job_mark_readybasic b (suspended j t) j)
       else suspended j t))"
proof -
  have inv: "life_inv s []" "near s" using assms(1) by (simp_all add: small_def)
  obtain j s1 where p: "schedi_job_pickready s = (Some j, s1)" "j \<in># ready_bag s"
    "ready_bag s1 = ready_bag s - {#j#}" "near s1" "sched_inv s1"
    "jobs s1 = (jobs s)(j := (jobs s j)\<lparr>meta_flag := picked_word (meta s j)\<rparr>)"
    "empty_sections s1 = empty_sections s" "destroy_q s1 = destroy_q s" "completed s1 = completed s"
    "jobsys.more s1 = jobsys.more s"
    using pick_finds[OF life_inv_sched(1)[OF inv(1)] inv(2) assms(2)] free by metis
  have f: "settled (meta s j)" "\<not> bit (meta s j) 2" "SCHEDI_JOB_METAFLAG_GETACCESS (meta s j) \<noteq> 15"
    using free[OF p(2)] by simp_all
  let ?u = "run_state s1 j"
  have w: "\<not> bit (picked_word (meta s j)) 1" "\<not> bit (picked_word (meta s j)) 2"
    using f by (simp_all add: picked_word_bits settled_iff)
  then have ban: "picked_word (meta s j) AND (SCHEDI_JOB_METAFLAG_UNSTABLE OR SCHEDI_JOB_METAFLAG_EXECUTING) = 0"
    by (simp add: ban_iffs)
  have ju: "jobs ?u = (jobs s)(j := (jobs s j)\<lparr>state := schedi_job_state_working, meta_flag := entered_word (meta s j)\<rparr>)"
    using ban w entered_word_eq[OF f(3)] p(6)
    by (simp add: run_state_def mark_defs mark_or_eq meta_ban_def unmark_access_eq Let_def bit_or_iff bit_flags)
  have "life_inv s1 []"
    using calm_life_inv[OF calm_pick[OF pickready_spec[OF life_inv_sched(1)[OF inv(1)] p(1)]
      life_inv_sched(1)[OF inv(1)]] p(5) inv(1)] .
  moreover have "sched_inv ?u"
    unfolding run_state_def using p(5) by (intro access_sched_inv(2) marks_sched_inv(2)) simp
  moreover have "calm s1 ?u"
    using ju p(6,7,8) f(1) by (auto simp: calm_def picked_word_bits entered_word_bits)
  ultimately have "life_inv ?u []" by (blast intro: calm_life_inv)
  moreover have "near ?u" using p(4) near_cong[of ?u s1] by simp
  moreover have "size (ready_bag ?u) \<le> SCHEDI_JOBS_CACHE_CHECK"
    using assms(1) size_Diff_submset[of "{#j#}" "ready_bag s"] p(2,3)
    by (auto simp: small_def)
  ultimately have "small ?u" by (simp add: small_def)
  then have "entered s j ?u" unfolding entered_def using p ju by (simp add: memory)
  then show ?thesis
    using p(1,6) ban by (intro that[of j ?u]) (simp_all add: worker_pass_def got_a_job_eq)
qed

section \<open>A job that returns 1\<close>

text \<open>An update that changes no count only sets its flag.\<close>

lemma update_same_counts:
  assumes "derived_ok rs rj m" "basic_flag flag"
  shows "cas_update_desired rs rj (uint (SCHEDI_JOB_METAFLAG_GETAVSOCK m)) (uint (SCHEDI_JOB_METAFLAG_GETWAIT m))
    (uint (SCHEDI_JOB_METAFLAG_GETAVJOBS m)) flag m = m OR flag" (is "?d = _")
proof (rule bit_word_eqI)
  fix n assume n: "n < LENGTH(32)"
  have le: "0 \<le> uint (w :: u32) \<and> uint w \<le> 15" if "w < 16" for w using that by (simp add: word_less_def)
  note b = bit_cas_update_desired[of "uint (SCHEDI_JOB_METAFLAG_GETAVSOCK m)" "uint (SCHEDI_JOB_METAFLAG_GETWAIT m)"
      "uint (SCHEDI_JOB_METAFLAG_GETAVJOBS m)" flag rs rj m n]
  have z: "uint (SCHEDI_JOB_METAFLAG_GETWAIT m) = 0 \<longleftrightarrow> SCHEDI_JOB_METAFLAG_GETWAIT m = 0" by (rule uint_0_iff)
  show "bit ?d n = bit (m OR flag) n"
    using b le[OF field_less_16(1)] le[OF field_less_16(2)] le[OF field_less_16(3)] assms z
    by (auto simp: bit_or_iff derived_ok_bits bit_getters dest: basic_flag_bit split: if_splits)
qed

text \<open>What \<^verbatim>\<open>schedi_job_setready\<close> does to a cache with few jobs.\<close>

lemma setready_effect:
  assumes "cache_ok s" "size (ready_bag s) < SCHEDI_JOBS_CACHE_CHECK"
    and "settled (meta s j)" "\<not> bit (meta s j) 5" and s': "s' = snd (schedi_job_setready b s j)"
  shows "ready_bag s' = add_mset j (ready_bag s)"
    and "jobs s' = (jobs s)(j := (jobs s j)\<lparr>meta_flag := meta s j OR SCHEDI_JOB_METAFLAG_READY,
      state := schedi_job_state_readywaiting\<rparr>)"
    and "near s \<Longrightarrow> near s'"
proof -
  have room: "length (cached (ready_jobs_cache s)) < SCHEDI_MAXIMUM_JOBS"
    using assms(2) by (simp add: SCHEDI_MAXIMUM_JOBS_def SCHEDI_JOBS_CACHE_CHECK_def)
  note f = setready_room_fields[OF assms(3,4,1) room s']
  then show "ready_bag s' = add_mset j (ready_bag s)" and "jobs s' = (jobs s)(j := (jobs s j)\<lparr>
      meta_flag := meta s j OR SCHEDI_JOB_METAFLAG_READY, state := schedi_job_state_readywaiting\<rparr>)"
    by simp_all
  show "near s'" if "near s"
  proof -
    let ?r = "marked_ready j s"
    have "cache_ok ?r" "near ?r" using assms(1) that near_cong[of ?r s] by simp_all
    from near_put[OF this, of j] have n: "near (snd (schedi_cache_job_ready ?r j))" using assms(2) by simp
    have "ready_jobs_cache s' = ready_jobs_cache (snd (schedi_cache_job_ready ?r j))"
      by (simp add: s' setready_room(2)[OF assms(3,4,1) room] Let_def)
    with n near_cong show ?thesis by blast
  qed
qed

lemma setready_small:
  assumes "small s" "size (ready_bag s) < SCHEDI_JOBS_CACHE_CHECK" "claimed s j"
    and "settled (meta s j)" "\<not> bit (meta s j) 5"
  shows "small (snd (schedi_job_setready b s j))"
proof -
  have inv: "life_inv s []" "near s" using assms(1) by (simp_all add: small_def)
  note c = life_inv_sched[OF inv(1)]
  have "life_inv (snd (schedi_job_setready b s j)) []"
    using calm_life_inv[OF calm_setready[OF c(2)] setready_sched_inv[OF sched_inv_butI[OF c(1)]] inv(1)]
      assms(3) by simp
  then show ?thesis
    using setready_effect(1,3)[OF c(2) assms(2,4,5) refl] inv(2) assms(2) by (simp add: small_def)
qed

text \<open>
  The word after an update of the readiness conditions that changes a settled job
  that is not READY: it becomes READY when the last condition holds now.
\<close>

definition becomes_ready :: "u32 \<Rightarrow> u32 \<Rightarrow> bool" where
  "becomes_ready m d \<longleftrightarrow> \<not> schedi_job_meta_flag_check_allready m \<and> schedi_job_meta_flag_check_allready d"

lemma update_effect:
  assumes "small s" "size (ready_bag s) < SCHEDI_JOBS_CACHE_CHECK" "claimed s j" "quiet_flag flag"
    and "settled (meta s j)" "\<not> bit (meta s j) 5"
    and body: "cas_update_body (required_available_sockets (jobs s j)) (required_available_jobs (jobs s j))
        sd wd jd flag bn ba (meta s j) = CasTry d r"
    and s': "s' = snd (schedi_job_meta_flag_cas_update b s j sd wd jd flag bn ba)"
  shows "small s'" "ready_bag s' = (if becomes_ready (meta s j) d then add_mset j (ready_bag s) else ready_bag s)"
    and "\<exists>st. jobs s' = (jobs s)(j := (jobs s j)\<lparr>state := st,
      meta_flag := (if becomes_ready (meta s j) d then d OR SCHEDI_JOB_METAFLAG_READY else d)\<rparr>)"
    and "free_slots s' = free_slots s" "completed s' = completed s" "jobsys.more s' = jobsys.more s"
proof -
  have inv: "life_inv s []" "near s" using assms(1) by (simp_all add: small_def)
  have ok: "cache_ok s" using life_inv_sched(2)[OF inv(1)] .
  note d = cas_update_swap_bits[OF body assms(4)]
  have s'_eq: "s' = (if becomes_ready (meta s j) d then snd (schedi_job_setready b (set_meta j d s) j) else set_meta j d s)"
    using d(6) body by (simp add: s' cas_update_eq becomes_ready_def)
  let ?t = "set_meta j d s"
  have t: "cache_ok ?t" "size (ready_bag ?t) < SCHEDI_JOBS_CACHE_CHECK" "settled (meta ?t j)" "\<not> bit (meta ?t j) 5"
    using ok assms(2,5,6) d by (simp_all add: settled_iff)
  note e = setready_effect[OF t refl, of b]
  show bag: "ready_bag s' = (if becomes_ready (meta s j) d then add_mset j (ready_bag s) else ready_bag s)"
    using e(1) by (simp add: s'_eq)
  have "near ?t" using inv(2) near_cong[of ?t s] by simp
  then have "near s'" using e(3) by (simp add: s'_eq)
  moreover have "life_inv s' []" unfolding s' by (rule update_life_inv[OF inv(1) assms(3,4)]) simp_all
  ultimately show "small s'" using assms(2) bag by (simp add: small_def)
  show "\<exists>st. jobs s' = (jobs s)(j := (jobs s j)\<lparr>state := st,
      meta_flag := (if becomes_ready (meta s j) d then d OR SCHEDI_JOB_METAFLAG_READY else d)\<rparr>)"
    using e(2) by (intro exI[of _ "if becomes_ready (meta s j) d then schedi_job_state_readywaiting else state (jobs s j)"])
      (auto simp: s'_eq fun_eq_iff)
  show "free_slots s' = free_slots s" "completed s' = completed s" "jobsys.more s' = jobsys.more s"
    by (simp_all add: s' cas_update_frame memory)
qed

lemma small_set_meta:
  assumes "small s" "bit m 5 = bit (meta s j) 5" "bit (meta s j) 1 \<longrightarrow> bit m 1" "bit (meta s j) 3 \<longrightarrow> bit m 3"
    "schedi_job_meta_flag_check_allready m \<longrightarrow> schedi_job_meta_flag_check_allready (meta s j)"
  shows "small (set_meta j m s)"
proof -
  have inv: "life_inv s []" "near s" using assms(1) by (simp_all add: small_def)
  have "sched_inv (set_meta j m s)" by (rule sched_inv_weaken[OF life_inv_sched(1)[OF inv(1)] assms(2-5)])
  moreover have "calm s (set_meta j m s)" using assms(2,3) by (intro calm_set_meta) simp_all
  ultimately have "life_inv (set_meta j m s) []" using inv(1) by (blast intro: calm_life_inv)
  then show ?thesis using assms(1) near_cong[of "set_meta j m s" s] by (simp add: small_def)
qed

lemma small_cong:
  assumes "\<And>i. meta s' i = meta s i" "ready_jobs_cache s' = ready_jobs_cache s" "job_count s' = job_count s"
    and "empty_sections s' = empty_sections s" "destroy_q s' = destroy_q s"
  shows "small s' = small s"
  using life_inv_cong[of s' s "[]"] near_cong[of s' s] assms by (simp add: small_def)

lemma small_continue:
  assumes "small s"
  shows "small (worker_continue b s)" "kept s (worker_continue b s)"
  using continue_kept[of s b] assms by (auto simp: small_def kept_def)

definition resumed_word :: "u32 \<Rightarrow> u32" where
  "resumed_word m = (let d = m OR SCHEDI_JOB_METAFLAG_READYBASIC
     in if schedi_job_meta_flag_check_allready d then d OR SCHEDI_JOB_METAFLAG_READY else d)"

lemma suspended_fields:
  assumes "small t" "settled (meta t j)" "\<not> bit (meta t j) 5" "\<not> bit (meta t j) 6"
  shows "small (suspended j t)" "ready_bag (suspended j t) = ready_bag t"
    and "meta (suspended j t) j = meta t j AND NOT SCHEDI_JOB_METAFLAG_EXECUTING"
proof -
  have n: "\<not> bit (meta t j) 1" using assms(2) by (simp add: settled_iff)
  let ?t = "upd_job j (\<lambda>x. x\<lparr>state := schedi_job_state_suspended\<rparr>) t"
  have "small ?t" using assms(1) small_cong[of ?t t] by simp
  then show "small (suspended j t)"
    unfolding suspended_eq[OF n] using assms(2-4)
    by (intro small_set_meta) (auto simp: bit_and_iff bit_not_iff bit_flags settled_iff allready_iff)
  show "ready_bag (suspended j t) = ready_bag t"
    "meta (suspended j t) j = meta t j AND NOT SCHEDI_JOB_METAFLAG_EXECUTING"
    by (simp_all add: suspended_eq[OF n])
qed

text \<open>The pass of a job function that returned 1 in state \<open>t\<close>.\<close>

lemma pass_resumes:
  assumes "small t" "size (ready_bag t) < SCHEDI_JOBS_CACHE_CHECK" "claimed t j"
    and "settled (meta t j)" "\<not> bit (meta t j) 5" "\<not> bit (meta t j) 6"
    and ok: "derived_ok (required_available_sockets (jobs t j)) (required_available_jobs (jobs t j)) (meta t j)"
    and w: "w = resumed_word (meta t j AND NOT SCHEDI_JOB_METAFLAG_EXECUTING)"
    and s': "s' = worker_continue b (snd (schedi_job_mark_readybasic b (suspended j t) j))"
  shows "small s'" "ready_bag s' = (if bit w 5 then add_mset j (ready_bag t) else ready_bag t)"
    and "\<exists>st. jobs s' = (jobs t)(j := (jobs t j)\<lparr>state := st, meta_flag := w\<rparr>)"
    and "free_slots s' = free_slots t" "completed s' = completed t" "jobsys.more s' = jobsys.more t"
proof -
  let ?u = "suspended j t" and ?m = "meta t j AND NOT SCHEDI_JOB_METAFLAG_EXECUTING"
  let ?d = "?m OR SCHEDI_JOB_METAFLAG_READYBASIC"
  note u = suspended_fields[OF assms(1,4-6)]
  have n: "\<not> bit (meta t j) 1" using assms(4) by (simp add: settled_iff)
  note f = suspended_frame[OF n]
  have bits: "bit ?m k = bit (meta t j) k" if "k \<noteq> 2" "k < 32" for k
    using that by (auto simp: bit_and_iff bit_not_iff bit_flags)
  have ok': "derived_ok (required_available_sockets (jobs ?u j)) (required_available_jobs (jobs ?u j)) ?m"
    using ok derived_ok_cong[of ?m "meta t j"] bits f(1) by simp
  have le: "uint (v :: u32) \<le> 15" if "v < 16" for v using that by (simp add: word_less_def)
  have body: "\<exists>r. cas_update_body (required_available_sockets (jobs ?u j)) (required_available_jobs (jobs ?u j))
      0 0 0 SCHEDI_JOB_METAFLAG_READYBASIC (SCHEDI_JOB_METAFLAG_UNSTABLE OR SCHEDI_JOB_METAFLAG_WLLDESTROY)
      False (meta ?u j) = CasTry ?d r"
    using assms(4) bits[of 1] bits[of 3] update_same_counts[OF ok', of SCHEDI_JOB_METAFLAG_READYBASIC]
      le[OF field_less_16(1)] le[OF field_less_16(2)] le[OF field_less_16(3)]
    by (simp add: u(3) cas_update_body_def Let_def meta_ban_zero_iff ban_iffs settled_iff not_less)
  then obtain r where body: "cas_update_body (required_available_sockets (jobs ?u j)) (required_available_jobs (jobs ?u j))
      0 0 0 SCHEDI_JOB_METAFLAG_READYBASIC (SCHEDI_JOB_METAFLAG_UNSTABLE OR SCHEDI_JOB_METAFLAG_WLLDESTROY)
      False (meta ?u j) = CasTry ?d r" by blast
  define v where "v = snd (schedi_job_mark_readybasic b ?u j)"
  have v: "v = snd (schedi_job_meta_flag_cas_update b ?u j 0 0 0 SCHEDI_JOB_METAFLAG_READYBASIC
      (SCHEDI_JOB_METAFLAG_UNSTABLE OR SCHEDI_JOB_METAFLAG_WLLDESTROY) False)"
    by (simp add: v_def schedi_job_mark_readybasic_def schedi_job_mark_or_readiness_def case_prod_beta)
  have pre: "size (ready_bag ?u) < SCHEDI_JOBS_CACHE_CHECK" "claimed ?u j" "settled (meta ?u j)" "\<not> bit (meta ?u j) 5"
    using assms(2-5) u f(2) bits[of 1] bits[of 3] bits[of 5] by (simp_all add: settled_iff)
  note e = update_effect[OF u(1) pre(1,2) quiet_flags(2) pre(3,4) body v]
  have rd: "becomes_ready (meta ?u j) ?d \<longleftrightarrow> schedi_job_meta_flag_check_allready ?d"
    using assms(6) bits[of 6] by (simp add: becomes_ready_def u(3) allready_iff)
  then have w': "w = (if becomes_ready (meta ?u j) ?d then ?d OR SCHEDI_JOB_METAFLAG_READY else ?d)"
    by (simp add: w resumed_word_def)
  moreover have "\<not> bit ?d 5" using assms(5) bits[of 5] by (simp add: bit_or_iff bit_flags)
  ultimately have w5: "bit w 5 \<longleftrightarrow> becomes_ready (meta ?u j) ?d" by (simp add: bit_or_iff bit_flags)
  note c = small_continue[OF e(1), of b, folded v_def, unfolded kept_def]
  have s'v: "s' = worker_continue b v" by (simp add: s' v_def)
  show "small s'" using c by (simp add: s'v)
  show "ready_bag s' = (if bit w 5 then add_mset j (ready_bag t) else ready_bag t)"
    using c e(2) w5 u(2) by (simp add: s'v)
  obtain st where "jobs v = (jobs ?u)(j := (jobs ?u j)\<lparr>state := st, meta_flag := w\<rparr>)" using e(3) w' by auto
  then show "\<exists>st. jobs s' = (jobs t)(j := (jobs t j)\<lparr>state := st, meta_flag := w\<rparr>)"
    using c f(1) by (auto simp: s'v intro!: exI[of _ st])
  show "free_slots s' = free_slots t" "completed s' = completed t" "jobsys.more s' = jobsys.more t"
    using c e(4-6) f(2,4) by (simp_all add: s'v memory)
qed

text \<open>A job that waits for nothing, between two runs: it is ready again after each run.\<close>

definition runnable :: "int \<Rightarrow> int \<Rightarrow> u32 \<Rightarrow> bool" where
  "runnable rs rj m \<longleftrightarrow> settled m \<and> \<not> bit m 2 \<and> SCHEDI_JOB_METAFLAG_GETACCESS m = 0
     \<and> bit m 7 \<and> bit m 8 \<and> bit m 21 \<and> derived_ok rs rj m"

lemma entered_fields:
  "SCHEDI_JOB_METAFLAG_GETACCESS (entered_word m) = SCHEDI_JOB_METAFLAG_GETACCESS m"
  "derived_ok rs rj (entered_word m) = derived_ok rs rj m"
  "settled (entered_word m) = settled m" "\<not> bit (entered_word m) 5" "\<not> bit (entered_word m) 6"
proof -
  have bits: "bit (entered_word m) n = bit m n" if "7 \<le> n" "n < 32" for n
    using that by (simp add: entered_word_bits)
  show "SCHEDI_JOB_METAFLAG_GETACCESS (entered_word m) = SCHEDI_JOB_METAFLAG_GETACCESS m"
    by (rule get_cong) (simp add: bits)
  show "derived_ok rs rj (entered_word m) = derived_ok rs rj m" by (rule derived_ok_cong) (simp add: bits)
qed (simp_all add: settled_iff entered_word_bits)

lemma resumed_runnable:
  assumes "runnable rs rj m"
    and w_def: "w = resumed_word (entered_word m AND NOT SCHEDI_JOB_METAFLAG_EXECUTING)"
  shows "runnable rs rj w" "bit w 5"
proof -
  let ?m = "entered_word m AND NOT SCHEDI_JOB_METAFLAG_EXECUTING"
  have mb: "bit ?m n \<longleftrightarrow> bit m n \<and> n \<noteq> 2 \<and> n \<noteq> 5 \<and> n \<noteq> 6" if "n < 32" for n
    using that by (auto simp: bit_and_iff bit_not_iff bit_flags entered_word_bits)
  have "w = (?m OR SCHEDI_JOB_METAFLAG_READYBASIC) OR SCHEDI_JOB_METAFLAG_READY"
    using assms(1) mb[of 7] mb[of 8] mb[of 21]
    by (simp add: w_def runnable_def resumed_word_def Let_def allready_iff bit_or_iff bit_flags)
  then have wb: "bit w n \<longleftrightarrow> n = 5 \<or> n = 6 \<or> bit m n \<and> n \<noteq> 2" if "n < 32" for n
    using mb[OF that] by (auto simp: bit_or_iff bit_flags)
  have "SCHEDI_JOB_METAFLAG_GETACCESS w = SCHEDI_JOB_METAFLAG_GETACCESS m" by (rule get_cong) (simp add: wb)
  moreover have "derived_ok rs rj w = derived_ok rs rj m" by (rule derived_ok_cong) (simp add: wb)
  ultimately show "runnable rs rj w" "bit w 5" using assms(1) by (simp_all add: runnable_def settled_iff wb)
qed

lemma new_word_bits: "n < 32 \<Longrightarrow> bit new_word n \<longleftrightarrow> n \<in> {0, 7, 8, 21}"
  by (auto simp: new_word_def bit_or_iff bit_flags)

lemma new_runnable: "runnable 0 0 (new_word OR SCHEDI_JOB_METAFLAG_READY)" "runnable 0 0 new_word"
proof -
  have b: "bit (new_word OR SCHEDI_JOB_METAFLAG_READY) n \<longleftrightarrow> n \<in> {0, 5, 7, 8, 21}" if "n < 32" for n
    using new_word_bits[OF that] by (auto simp: bit_or_iff bit_flags)
  have "SCHEDI_JOB_METAFLAG_GETACCESS (new_word OR SCHEDI_JOB_METAFLAG_READY) = 0"
    "SCHEDI_JOB_METAFLAG_GETWAIT (new_word OR SCHEDI_JOB_METAFLAG_READY) = 0"
    "SCHEDI_JOB_METAFLAG_GETACCESS new_word = 0" "SCHEDI_JOB_METAFLAG_GETWAIT new_word = 0"
    by (rule field_eqI; simp add: field_less_16 bit_getters b new_word_bits)+
  then show "runnable 0 0 (new_word OR SCHEDI_JOB_METAFLAG_READY)" "runnable 0 0 new_word"
    by (simp_all add: runnable_def settled_iff derived_ok_bits b new_word_bits)
qed

section \<open>A job that finishes\<close>

text \<open>Telling the parent of a finished job.\<close>

definition notified_word :: "int \<Rightarrow> int \<Rightarrow> u32 \<Rightarrow> u32" where
  "notified_word rs rj m =
     (let d = cas_update_desired rs rj (uint (SCHEDI_JOB_METAFLAG_GETAVSOCK m)) (uint (SCHEDI_JOB_METAFLAG_GETWAIT m))
            (uint (SCHEDI_JOB_METAFLAG_GETAVJOBS m) + 1) 0 m
      in if becomes_ready m d then d OR SCHEDI_JOB_METAFLAG_READY else d)"

lemma small_access:
  assumes "small s"
  shows "small (snd (schedi_job_mark_access s j))" "small (snd (schedi_job_unmark_access s j))"
proof -
  have inv: "life_inv s []" using assms by (simp add: small_def)
  note c = calm_life_inv[OF calm_access(1) access_sched_inv(1) inv, OF life_inv_sched(1)[OF inv]]
    calm_life_inv[OF calm_access(2) access_sched_inv(2) inv, OF life_inv_sched(1)[OF inv]]
  have "ready_jobs_cache (snd (schedi_job_mark_access s j)) = ready_jobs_cache s"
    "ready_jobs_cache (snd (schedi_job_unmark_access s j)) = ready_jobs_cache s"
    by (simp_all add: schedi_job_mark_access_def schedi_job_unmark_access_def)
  then show "small (snd (schedi_job_mark_access s j))" "small (snd (schedi_job_unmark_access s j))"
    using c assms near_cong by (auto simp: small_def)
qed

lemma notified_word_access:
  assumes "SCHEDI_JOB_METAFLAG_GETACCESS m \<noteq> 15" "uint (SCHEDI_JOB_METAFLAG_GETAVJOBS m) < 15"
    and a_def: "a = SCHEDI_JOB_METAFLAG_SETACCESS m (SCHEDI_JOB_METAFLAG_GETACCESS m + 1)"
    and w_def: "w = notified_word rs rj a"
  shows "SCHEDI_JOB_METAFLAG_SETACCESS w (SCHEDI_JOB_METAFLAG_GETACCESS w - 1) = notified_word rs rj m"
    and "bit w 5 = bit (notified_word rs rj m) 5" "bit w 1 = bit m 1"
    and "becomes_ready a (cas_update_desired rs rj (uint (SCHEDI_JOB_METAFLAG_GETAVSOCK a)) (uint (SCHEDI_JOB_METAFLAG_GETWAIT a))
            (uint (SCHEDI_JOB_METAFLAG_GETAVJOBS a) + 1) 0 a) = becomes_ready m (cas_update_desired rs rj
            (uint (SCHEDI_JOB_METAFLAG_GETAVSOCK m)) (uint (SCHEDI_JOB_METAFLAG_GETWAIT m))
            (uint (SCHEDI_JOB_METAFLAG_GETAVJOBS m) + 1) 0 m)"
proof -
  define D where "D x = cas_update_desired rs rj (uint (SCHEDI_JOB_METAFLAG_GETAVSOCK x))
      (uint (SCHEDI_JOB_METAFLAG_GETWAIT x)) (uint (SCHEDI_JOB_METAFLAG_GETAVJOBS x) + 1) 0 x" for x
  have a: "bit a n = bit m n" if "n < 28" for n using that by (simp add: a_def bit_set_access)
  have g: "SCHEDI_JOB_METAFLAG_GETAVSOCK a = SCHEDI_JOB_METAFLAG_GETAVSOCK m"
    "SCHEDI_JOB_METAFLAG_GETWAIT a = SCHEDI_JOB_METAFLAG_GETWAIT m"
    "SCHEDI_JOB_METAFLAG_GETAVJOBS a = SCHEDI_JOB_METAFLAG_GETAVJOBS m"
    by (rule get_cong; simp add: a)+
  have le: "0 \<le> uint (v :: u32) \<and> uint v \<le> 15" if "v < 16" for v using that by (simp add: word_less_def)
  note rng = le[OF field_less_16(1)[of m]] le[OF field_less_16(2)[of m]] le[OF field_less_16(3)[of m]]
  have basic: "basic_flag 0" by (simp add: basic_flag_def)
  have D: "bit (D a) n = bit (D m) n" if "n < 28" for n
    unfolding D_def g using rng assms(2) that a[OF that] basic by (subst (1 2) bit_cas_update_desired) auto
  have acc: "SCHEDI_JOB_METAFLAG_GETACCESS (D x) = SCHEDI_JOB_METAFLAG_GETACCESS x" if "x = a \<or> x = m" for x
    unfolding D_def using that g rng assms(2) basic
    by (intro cas_update_desired_fields(4)[OF _ _ _ _ _ _ basic refl]) auto
  have rd: "becomes_ready a (D a) = becomes_ready m (D m)" using a D by (simp add: becomes_ready_def allready_iff)
  then show "becomes_ready a (cas_update_desired rs rj (uint (SCHEDI_JOB_METAFLAG_GETAVSOCK a)) (uint (SCHEDI_JOB_METAFLAG_GETWAIT a))
            (uint (SCHEDI_JOB_METAFLAG_GETAVJOBS a) + 1) 0 a) = becomes_ready m (cas_update_desired rs rj
            (uint (SCHEDI_JOB_METAFLAG_GETAVSOCK m)) (uint (SCHEDI_JOB_METAFLAG_GETWAIT m))
            (uint (SCHEDI_JOB_METAFLAG_GETAVJOBS m) + 1) 0 m)" by (simp add: D_def)
  have nw: "notified_word rs rj x = (if becomes_ready x (D x) then D x OR SCHEDI_JOB_METAFLAG_READY else D x)" for x
    by (simp add: notified_word_def D_def)
  have low: "bit w n = bit (notified_word rs rj m) n" if "n < 28" for n
    using D[OF that] rd by (simp add: w_def nw bit_or_iff)
  then show "bit w 5 = bit (notified_word rs rj m) 5" by simp
  have "bit (D m) 1 = bit m 1" unfolding D_def using rng assms(2) basic by (subst bit_cas_update_desired) auto
  then show "bit w 1 = bit m 1" using low[of 1] by (simp add: nw bit_or_iff bit_flags)
  have acc_nw: "SCHEDI_JOB_METAFLAG_GETACCESS (notified_word rs rj x) = SCHEDI_JOB_METAFLAG_GETACCESS x"
    if "x = a \<or> x = m" for x
    using acc[OF that] by (simp add: nw access_of_flags bit_flags)
  have "unat (SCHEDI_JOB_METAFLAG_GETACCESS m) < 15"
    using field_less_16(4)[of m] assms(1) by (simp add: word_less_nat_alt word_unat_eq_iff)
  then have "SCHEDI_JOB_METAFLAG_GETACCESS m + 1 < 16" by (simp add: word_less_nat_alt unat_word_ariths)
  then have w: "SCHEDI_JOB_METAFLAG_GETACCESS w - 1 = SCHEDI_JOB_METAFLAG_GETACCESS m"
    using acc_nw[of a] by (simp add: w_def a_def)
  show "SCHEDI_JOB_METAFLAG_SETACCESS w (SCHEDI_JOB_METAFLAG_GETACCESS w - 1) = notified_word rs rj m"
  proof (rule access_bitsI)
    show "bit (SCHEDI_JOB_METAFLAG_SETACCESS w (SCHEDI_JOB_METAFLAG_GETACCESS w - 1)) n = bit (notified_word rs rj m) n"
      if "n < 28" for n using low[OF that] that by (simp add: bit_set_access)
    show "SCHEDI_JOB_METAFLAG_GETACCESS (SCHEDI_JOB_METAFLAG_SETACCESS w (SCHEDI_JOB_METAFLAG_GETACCESS w - 1))
        = SCHEDI_JOB_METAFLAG_GETACCESS (notified_word rs rj m)"
      unfolding w using acc_nw[of m] by (simp add: field_less_16)
  qed
qed

lemma notify_effect:
  assumes "small s" "size (ready_bag s) < SCHEDI_JOBS_CACHE_CHECK"
    and req: "requested_job (jobs s j) = Some p" "p \<noteq> j" "gen (jobs s p) = requested_job_gen (jobs s j)"
    and p: "claimed s p" "settled (meta s p)" "\<not> bit (meta s p) 5"
      "SCHEDI_JOB_METAFLAG_GETACCESS (meta s p) \<noteq> 15" "uint (SCHEDI_JOB_METAFLAG_GETAVJOBS (meta s p)) < 15"
    and w: "w = notified_word (required_available_sockets (jobs s p)) (required_available_jobs (jobs s p)) (meta s p)"
    and s': "s' = worker_notify b s j"
  shows "small s'" "ready_bag s' = (if bit w 5 then add_mset p (ready_bag s) else ready_bag s)"
    and "\<exists>st. jobs s' = (jobs s)(p := (jobs s p)\<lparr>state := st, meta_flag := w\<rparr>)"
    and "free_slots s' = free_slots s" "completed s' = completed s" "jobsys.more s' = jobsys.more s"
proof -
  let ?rs = "required_available_sockets (jobs s p)" and ?rj = "required_available_jobs (jobs s p)"
  let ?m = "meta s p"
  let ?a = "SCHEDI_JOB_METAFLAG_SETACCESS ?m (SCHEDI_JOB_METAFLAG_GETACCESS ?m + 1)"
  let ?d = "cas_update_desired ?rs ?rj (uint (SCHEDI_JOB_METAFLAG_GETAVSOCK ?a)) (uint (SCHEDI_JOB_METAFLAG_GETWAIT ?a))
      (uint (SCHEDI_JOB_METAFLAG_GETAVJOBS ?a) + 1) 0 ?a"
  let ?A = "set_meta p ?a s"
  have mark: "schedi_job_mark_access s p = (0, ?A)"
    using p by (simp add: mark_access_eq Let_def settled_iff ban_iffs)
  define v where "v = snd (schedi_job_add_available_job b ?A p)"
  have s'v: "s' = snd (schedi_job_unmark_access v p)"
    using req mark by (simp add: s' worker_notify_def v_def)
  have small_A: "small ?A" using small_access(1)[OF assms(1), of p] by (simp add: mark)
  have le: "0 \<le> uint (x :: u32) \<and> uint x \<le> 15" if "x < 16" for x using that by (simp add: word_less_def)
  have g: "SCHEDI_JOB_METAFLAG_GETAVJOBS ?a = SCHEDI_JOB_METAFLAG_GETAVJOBS ?m"
    by (rule get_cong) (simp add: bit_set_access)
  have "\<exists>r. cas_update_body ?rs ?rj 0 0 1 0 0 False ?a = CasTry ?d r"
    using le[OF field_less_16(1)[of ?a]] le[OF field_less_16(2)[of ?a]] le[OF field_less_16(3)[of ?a]] p(5) g
    by (simp add: cas_update_body_def Let_def meta_ban_zero_iff not_less)
  then obtain r where "cas_update_body ?rs ?rj 0 0 1 0 0 False ?a = CasTry ?d r" ..
  then have body: "cas_update_body (required_available_sockets (jobs ?A p)) (required_available_jobs (jobs ?A p))
      0 0 1 0 0 False (meta ?A p) = CasTry ?d r" by simp
  have pre: "size (ready_bag ?A) < SCHEDI_JOBS_CACHE_CHECK" "claimed ?A p" "settled (meta ?A p)" "\<not> bit (meta ?A p) 5"
    using assms(2) p by (simp_all add: settled_iff bit_set_access)
  note e = update_effect[OF small_A pre(1,2) quiet_flags(1) pre(3,4) body v_def[unfolded schedi_job_add_available_job_def]]
  define w' where "w' = notified_word ?rs ?rj ?a"
  note nw = notified_word_access[OF p(4,5) refl w'_def, folded w]
  have w': "w' = (if becomes_ready ?a ?d then ?d OR SCHEDI_JOB_METAFLAG_READY else ?d)"
    by (simp add: w'_def notified_word_def)
  obtain st where jv: "jobs v = (jobs s)(p := (jobs s p)\<lparr>state := st, meta_flag := w'\<rparr>)"
    using e(3) by (auto simp: w' upd_job_def set_meta_def)
  have "\<not> bit w' 1" using nw(3) p(2) by (simp add: settled_iff)
  then have s'_eq: "s' = set_meta p w v" using nw(1) jv by (simp add: s'v unmark_access_eq Let_def)
  have "\<not> bit ?d 5"
    using cas_update_swap_bits(3)[OF body quiet_flags(1)] p(3) by (simp add: bit_set_access)
  then have w5: "bit w 5 = becomes_ready ?a ?d" using nw(2)
    by (cases "becomes_ready ?a ?d") (simp_all add: w' bit_or_iff bit_flags)
  show "small s'" unfolding s'v by (rule small_access(2)[OF e(1)])
  show "ready_bag s' = (if bit w 5 then add_mset p (ready_bag s) else ready_bag s)"
    using e(2) w5 by (simp add: s'_eq)
  show "\<exists>st. jobs s' = (jobs s)(p := (jobs s p)\<lparr>state := st, meta_flag := w\<rparr>)"
    using jv by (auto simp: s'_eq)
  show "free_slots s' = free_slots s" "completed s' = completed s" "jobsys.more s' = jobsys.more s"
    using e(4-6) by (simp_all add: s'_eq memory)
qed

text \<open>Destroying the idle job and draining the queue.\<close>

lemma destroy_small:
  assumes "addr_ok (job_addr b)" "small v" "claimed v j" "idle (meta v j)"
    and s': "s' = worker_continue b (snd (schedi_job_destroy b v j))"
  shows "small s'" "ready_bag s' = ready_bag v" "free_slots s' \<subseteq> insert j (free_slots v)"
    and "\<exists>g. jobs s' = (jobs v)(j := (jobs v j)\<lparr>gen := g, state := schedi_job_state_nulljob, meta_flag := 0\<rparr>)"
    and "completed s' = completed v" "jobsys.more s' = jobsys.more v"
proof -
  have inv: "life_inv v []" using assms(2) by (simp add: small_def)
  have cl: "j < SCHEDI_MAXIMUM_JOBS" "j \<notin> free_slots v" using assms(3) by simp_all
  define t where "t = snd (schedi_job_destroy b v j)"
  define c where "c = schedi_job_destroy_queue_check b t"
  note d = destroy_then_check[OF assms(1) inv cl assms(4), folded t_def c_def]
  have "life_inv t [j]" using destroy_life_inv(2)[OF assms(1) inv cl assms(4)] by (simp add: t_def)
  note dr = destroy_queue_check_drains[OF assms(1) this c_def]
  obtain q where "schedi_job_destroy b v j = (-1, (set_meta j (doomed_word (meta v j)) v)\<lparr>destroy_q := q\<rparr>)"
    by (rule destroy_idle[OF assms(1) _ life_inv_short(1)[OF inv] assms(4)]) (use inv in \<open>simp add: life_inv_def\<close>)
  then have t: "ready_jobs_cache t = ready_jobs_cache v" "free_slots t = free_slots v" by (simp_all add: t_def)
  have cc: "ready_jobs_cache c = ready_jobs_cache v" using dr(4) t(1) by simp
  then have small_c: "near c" "size (ready_bag c) \<le> SCHEDI_JOBS_CACHE_CHECK"
    using assms(2) near_cong[of c v] by (simp_all add: small_def)
  note k = tick_kept[OF dr(1) small_c, of b]
  have s'c: "s' = schedi_ready_jobs_cache_reorganize_tick b c" by (simp add: s' worker_continue_def c_def t_def)
  have kk: "jobs s' = jobs c" "ready_bag s' = ready_bag c" "free_slots s' = free_slots c"
    "completed s' = completed c" "jobsys.more s' = jobsys.more c"
    using k(1) by (simp_all add: s'c kept_def)
  show "small s'" using k(2,3) small_c(2) kk(2) by (simp add: small_def s'c)
  show "ready_bag s' = ready_bag v" using kk(2) cc by simp
  show "free_slots s' \<subseteq> insert j (free_slots v)" using kk(3) dr(5) t(2) by auto
  show "\<exists>g. jobs s' = (jobs v)(j := (jobs v j)\<lparr>gen := g, state := schedi_job_state_nulljob, meta_flag := 0\<rparr>)"
    using kk(1) d(4) by (intro exI[of _ "gen (jobs v j) + 1"]) (auto simp: torn_down_def fun_eq_iff)
  show "completed s' = completed v" using kk(4) by (simp add: c_def t_def destroy_completed)
  show "jobsys.more s' = jobsys.more v" using kk(5) by (simp add: c_def t_def memory)
qed

text \<open>The pass of a job function that returned a negative value in state \<open>t\<close>.\<close>

definition indicated :: "nat option \<Rightarrow> (nat \<Rightarrow> bool) \<Rightarrow> nat \<Rightarrow> bool" where
  "indicated i c = (case i of None \<Rightarrow> c | Some k \<Rightarrow> c(k := True))"

definition done_job :: "job \<Rightarrow> job \<Rightarrow> bool" where
  "done_job x x' \<longleftrightarrow> meta_flag x' = 0 \<and> job_context x' = job_context x"

text \<open>The state in which the worker looks for a parent.\<close>

lemma indicated_state:
  assumes "small t" "settled (meta t j)" "\<not> bit (meta t j) 5" "\<not> bit (meta t j) 6"
    and "SCHEDI_JOB_METAFLAG_GETACCESS (meta t j) = 0"
    and v: "v = schedi_job_completion_indicate (suspended j t) j"
  shows "small v" "ready_bag v = ready_bag t" "idle (meta v j)" "free_slots v = free_slots t"
    and "jobs v = (jobs t)(j := (jobs t j)\<lparr>state := schedi_job_state_suspended,
      meta_flag := meta t j AND NOT SCHEDI_JOB_METAFLAG_EXECUTING\<rparr>)"
    and "completed v = indicated (completion_indicator (jobs t j)) (completed t)"
      "jobsys.more v = jobsys.more t"
proof -
  have n: "\<not> bit (meta t j) 1" using assms(2) by (simp add: settled_iff)
  note u = suspended_fields[OF assms(1-4)] and f = suspended_frame[OF n]
  have c: "ready_jobs_cache v = ready_jobs_cache (suspended j t)" "job_count v = job_count (suspended j t)"
    "destroy_q v = destroy_q (suspended j t)"
    by (simp_all add: v schedi_job_completion_indicate_def split: option.split)
  show "small v" using u(1) small_cong[of v "suspended j t"] c by (simp add: v)
  show "ready_bag v = ready_bag t" using c(1) u(2) by simp
  show "free_slots v = free_slots t" using f(2) by (simp add: v)
  show jv: "jobs v = (jobs t)(j := (jobs t j)\<lparr>state := schedi_job_state_suspended,
      meta_flag := meta t j AND NOT SCHEDI_JOB_METAFLAG_EXECUTING\<rparr>)" using f(1) by (simp add: v)
  show "completed v = indicated (completion_indicator (jobs t j)) (completed t)"
    using f by (simp add: v schedi_job_completion_indicate_def indicated_def split: option.split)
  show "jobsys.more v = jobsys.more t" by (simp add: v memory)
  show "idle (meta v j)"
    using assms(3,5) n by (simp add: jv idle_bits access_of_flags bit_flags bit_and_iff bit_not_iff)
qed

lemma pass_finishes:
  assumes "addr_ok (job_addr b)" "small t" "claimed t j"
    and w: "settled (meta t j)" "\<not> bit (meta t j) 5" "\<not> bit (meta t j) 6"
      "SCHEDI_JOB_METAFLAG_GETACCESS (meta t j) = 0"
    and "requested_job (jobs t j) = None"
    and s': "s' = worker_continue b (finish_job b j t)"
  shows "small s'" "ready_bag s' = ready_bag t" "free_slots s' \<subseteq> insert j (free_slots t)"
    and "\<exists>x. jobs s' = (jobs t)(j := x) \<and> done_job (jobs t j) x"
    and "completed s' = indicated (completion_indicator (jobs t j)) (completed t)"
    and "jobsys.more s' = jobsys.more t"
proof -
  define v where "v = schedi_job_completion_indicate (suspended j t) j"
  note i = indicated_state[OF assms(2) w v_def]
  have "worker_notify b v j = v" using i(5) assms(8) by (simp add: worker_notify_def)
  then have "s' = worker_continue b (snd (schedi_job_destroy b v j))" by (simp add: s' finish_job_def v_def)
  note d = destroy_small[OF assms(1) i(1) _ i(3) this]
  have c: "claimed v j" using assms(3) i(4) by simp
  show "small s'" "ready_bag s' = ready_bag t" "free_slots s' \<subseteq> insert j (free_slots t)"
    "completed s' = indicated (completion_indicator (jobs t j)) (completed t)" "jobsys.more s' = jobsys.more t"
    using d(1-3,5,6)[OF c] i by simp_all
  show "\<exists>x. jobs s' = (jobs t)(j := x) \<and> done_job (jobs t j) x"
    using d(4)[OF c] i(5) by (auto simp: done_job_def)
qed

text \<open>The same for a job whose parent \<open>p\<close> waits for it.\<close>

lemma pass_finishes_child:
  assumes "addr_ok (job_addr b)" "small t" "claimed t j" "size (ready_bag t) < SCHEDI_JOBS_CACHE_CHECK"
    and w: "settled (meta t j)" "\<not> bit (meta t j) 5" "\<not> bit (meta t j) 6"
      "SCHEDI_JOB_METAFLAG_GETACCESS (meta t j) = 0"
    and req: "requested_job (jobs t j) = Some p" "p \<noteq> j" "gen (jobs t p) = requested_job_gen (jobs t j)"
    and p: "claimed t p" "settled (meta t p)" "\<not> bit (meta t p) 5"
      "SCHEDI_JOB_METAFLAG_GETACCESS (meta t p) \<noteq> 15" "uint (SCHEDI_JOB_METAFLAG_GETAVJOBS (meta t p)) < 15"
    and m: "m = notified_word (required_available_sockets (jobs t p)) (required_available_jobs (jobs t p)) (meta t p)"
    and s': "s' = worker_continue b (finish_job b j t)"
  shows "small s'" "ready_bag s' = (if bit m 5 then add_mset p (ready_bag t) else ready_bag t)"
    and "free_slots s' \<subseteq> insert j (free_slots t)"
    and "\<exists>x st. jobs s' = (jobs t)(p := (jobs t p)\<lparr>state := st, meta_flag := m\<rparr>, j := x) \<and> done_job (jobs t j) x"
    and "completed s' = indicated (completion_indicator (jobs t j)) (completed t)"
    and "jobsys.more s' = jobsys.more t"
proof -
  define v where "v = schedi_job_completion_indicate (suspended j t) j"
  note i = indicated_state[OF assms(2) w v_def]
  define u where "u = worker_notify b v j"
  have "size (ready_bag v) < SCHEDI_JOBS_CACHE_CHECK" "requested_job (jobs v j) = Some p"
    "gen (jobs v p) = requested_job_gen (jobs v j)" "claimed v p" "settled (meta v p)" "\<not> bit (meta v p) 5"
    "SCHEDI_JOB_METAFLAG_GETACCESS (meta v p) \<noteq> 15" "uint (SCHEDI_JOB_METAFLAG_GETAVJOBS (meta v p)) < 15"
    "m = notified_word (required_available_sockets (jobs v p)) (required_available_jobs (jobs v p)) (meta v p)"
    using assms(4) req p m i(2,4,5) by simp_all
  note n = notify_effect[OF i(1) this(1,2) req(2) this(3-9) u_def]
  obtain st where ju: "jobs u = (jobs v)(p := (jobs v p)\<lparr>state := st, meta_flag := m\<rparr>)" using n(3) by blast
  have "s' = worker_continue b (snd (schedi_job_destroy b u j))" by (simp add: s' finish_job_def u_def v_def)
  note d = destroy_small[OF assms(1) n(1) _ _ this]
  have c: "claimed u j" "idle (meta u j)" using assms(3) i(3,4) n(4) ju req(2) by simp_all
  show "small s'" "ready_bag s' = (if bit m 5 then add_mset p (ready_bag t) else ready_bag t)"
    "free_slots s' \<subseteq> insert j (free_slots t)"
    "completed s' = indicated (completion_indicator (jobs t j)) (completed t)" "jobsys.more s' = jobsys.more t"
    using d(1-3,5,6)[OF c] n i by simp_all
  show "\<exists>x st. jobs s' = (jobs t)(p := (jobs t p)\<lparr>state := st, meta_flag := m\<rparr>, j := x) \<and> done_job (jobs t j) x"
  proof -
    obtain g where "jobs s' = (jobs u)(j := (jobs u j)\<lparr>gen := g, state := schedi_job_state_nulljob, meta_flag := 0\<rparr>)"
      using d(4)[OF c] by blast
    then have "jobs s' = (jobs t)(p := (jobs t p)\<lparr>state := st, meta_flag := m\<rparr>,
        j := (jobs t j)\<lparr>gen := g, state := schedi_job_state_nulljob, meta_flag := 0\<rparr>)"
      using ju i(5) req(2) by (simp add: fun_eq_iff)
    then show ?thesis by (intro exI conjI, assumption) (simp add: done_job_def)
  qed
qed

section \<open>Starting a program\<close>

lemma started_small:
  assumes "jobsys.truncate s = sections_init static_jobsys"
  shows "small s" "ready_bag s = {#}" "free_slots s = {..<SCHEDI_MAXIMUM_JOBS}"
    and "jobs s = (\<lambda>_. null_job)" "completed s = (\<lambda>_. False)"
proof -
  let ?s0 = "sections_init static_jobsys"
  have f: "jobs s = jobs ?s0" "ready_jobs_cache s = ready_jobs_cache ?s0" "completed s = completed ?s0"
    "empty_sections s = empty_sections ?s0"
    unfolding assms[symmetric] by (simp_all add: jobsys.truncate_def)
  then show "jobs s = (\<lambda>_. null_job)" "completed s = (\<lambda>_. False)"
    by (simp_all add: sections_init_def static_jobsys_def)
  have c: "ready_jobs_cache s = replicate SCHEDI_MAXIMUM_JOBS None"
    using f(2) by (simp add: sections_init_def static_jobsys_def)
  then show bag: "ready_bag s = {#}" by (simp add: cached_def)
  show "free_slots s = {..<SCHEDI_MAXIMUM_JOBS}"
    using f(4) sections_init_ok(2)[of static_jobsys] by (simp add: static_jobsys_def)
  have "near s" using c by (simp add: near_def)
  then show "small s" using extended_start_life_inv[OF assms] bag by (simp add: small_def)
qed

text \<open>The record of a new job; the completion indicator of the slot is not reset.\<close>

definition new_job :: "nat \<Rightarrow> nat \<Rightarrow> nat option \<Rightarrow> job \<Rightarrow> job" where
  "new_job c r d x = x\<lparr>phase := 0, state := schedi_job_state_suspended,
     requested_job := None, requested_job_gen := 0, job_context := c,
     run_fn := r, dtor := d, total_req := 0, ret_count := 0, err_count := 0,
     required_available_sockets := 0, required_available_jobs := 0, meta_flag := new_word\<rparr>"

lemma new_job_word [simp]: "meta_flag (new_job c r d x) = new_word"
  by (simp add: new_job_def)

lemma create_fields:
  assumes "life_inv s []" "free_slots s \<noteq> {}"
  obtains j s' where "schedi_job_create s c r d = (Some j, s')" "j \<in> free_slots s" "j < SCHEDI_MAXIMUM_JOBS"
    "life_inv s' []" "ready_jobs_cache s' = ready_jobs_cache s" "free_slots s' = free_slots s - {j}"
    "jobs s' = (jobs s)(j := new_job c r d (jobs s j))" "completed s' = completed s"
    "jobsys.more s' = jobsys.more s"
proof -
  have ok: "sections_ok s" using assms(1) by (simp add: life_inv_def)
  obtain j s' where e: "schedi_job_create s c r d = (Some j, s')"
    using create_none(1)[OF ok, of c r d] assms(2) by (metis option.exhaust prod.collapse)
  note n = create_some[OF ok e]
  from e obtain s1 where c: "section_claim s = (Some j, s1)"
    by (auto simp: schedi_job_create_def split: prod.splits option.splits)
  have s': "s' = upd_job j (new_job c r d) s1"
    using e c by (auto simp: schedi_job_create_def new_job_def[abs_def] new_word_def)
  have "jobs s1 = (jobs s)(j := (jobs s j)\<lparr>meta_flag := SCHEDI_JOB_METAFLAG_UNSTABLE\<rparr>)"
    using section_claim_Some(4)[OF ok, of j] c by simp
  then have "jobs s' = (jobs s)(j := new_job c r d (jobs s j))" by (simp add: s' new_job_def)
  moreover have "completed s' = completed s" "jobsys.more s' = jobsys.more s"
    using section_claim_sys_frame[of s] memory_section(2)[of s] c by (simp_all add: s' memory)
  moreover have "life_inv s' []" using create_life_inv[OF assms(1), of c r d] e by simp
  moreover have "j < SCHEDI_MAXIMUM_JOBS" using ok n(1) free_set_bound by (auto simp: sections_ok_def)
  ultimately show ?thesis using that[OF e n(1)] n by simp
qed

lemma create_small:
  assumes "small s" "free_slots s \<noteq> {}"
  obtains j s' where "schedi_job_create s c r d = (Some j, s')" "j \<in> free_slots s" "j < SCHEDI_MAXIMUM_JOBS"
    "small s'" "ready_bag s' = ready_bag s" "free_slots s' = free_slots s - {j}"
    "jobs s' = (jobs s)(j := new_job c r d (jobs s j))" "completed s' = completed s"
    "jobsys.more s' = jobsys.more s"
proof -
  have "life_inv s []" using assms(1) by (simp add: small_def)
  from create_fields[OF this assms(2), of c r d] obtain j s' where
    e: "schedi_job_create s c r d = (Some j, s')" "j \<in> free_slots s" "j < SCHEDI_MAXIMUM_JOBS"
    "life_inv s' []" "ready_jobs_cache s' = ready_jobs_cache s" "free_slots s' = free_slots s - {j}"
    "jobs s' = (jobs s)(j := new_job c r d (jobs s j))" "completed s' = completed s" "jobsys.more s' = jobsys.more s"
    by metis
  moreover have "small s'" using assms(1) e(4,5) near_cong[OF e(5)] by (simp add: small_def)
  ultimately show ?thesis using that by simp
qed

end
