(* ===== verification/Single_Job.thy ===== *)
theory Single_Job
  imports Client_Passes "HOL-Library.Signed_Division"
begin

text \<open>
  A program with one job: the workers run it like a plain loop that calls the job
  function as long as it returns 1. The locale states what the job function may
  do; the client program \<^verbatim>\<open>src/examples/ajob.c\<close> provides it. A pass of a worker is taken as a
  whole; any worker may make it.
\<close>

section \<open>A job function that is called again until it is done\<close>

text \<open>The plain loop: \<open>n\<close> calls that all return 1.\<close>

fun calls :: "('p \<Rightarrow> int \<times> 'p) \<Rightarrow> nat \<Rightarrow> 'p \<Rightarrow> 'p option" where
  "calls f 0 x = Some x"
| "calls f (Suc n) x = (let (r, y) = f x in if r = 1 then calls f n y else None)"

lemma calls_Suc:
  "calls f (Suc n) x = (case calls f n x of None \<Rightarrow> None | Some y \<Rightarrow> let (r, z) = f y in if r = 1 then Some z else None)"
proof (induction n arbitrary: x)
  case (Suc n)
  obtain r y where f: "f x = (r, y)" by force
  then have "calls f (Suc (Suc n)) x = (if r = 1 then calls f (Suc n) y else None)"
    "calls f (Suc n) x = (if r = 1 then calls f n y else None)" by simp_all
  with Suc.IH[of y] show ?case by (simp del: calls.simps)
qed (simp split: prod.split)

text \<open>One job that waits for nothing, ready to be picked and with its completion not yet indicated.\<close>

definition alone :: "'a jobsys_scheme \<Rightarrow> nat \<Rightarrow> nat \<Rightarrow> bool" where
  "alone s j i \<longleftrightarrow> small s \<and> ready_bag s = {#j#} \<and> claimed s j
     \<and> runnable (required_available_sockets (jobs s j)) (required_available_jobs (jobs s j)) (meta s j)
     \<and> requested_job (jobs s j) = None \<and> completion_indicator (jobs s j) = Some i \<and> \<not> completed s i"

text \<open>
  The job function changes the phase of its job and the memory of the client, and
  what it does depends on these only. \<open>mem\<close> is the memory it uses.
\<close>

definition pass :: "build \<Rightarrow> ('a jobsys_scheme \<Rightarrow> nat \<Rightarrow> int \<times> 'a jobsys_scheme) \<Rightarrow> 'a jobsys_scheme
    \<Rightarrow> 'a jobsys_scheme" where
  "pass b run s = snd (worker_pass b run False s)"

locale lone_job =
  fixes b :: build
    and run :: "'a jobsys_scheme \<Rightarrow> nat \<Rightarrow> int \<times> 'a jobsys_scheme"
    and mem :: "'a jobsys_scheme \<Rightarrow> 'm"
    and call :: "int \<times> 'm \<Rightarrow> int \<times> int \<times> 'm"
  assumes run_writes: "client_write u (snd (run u j))"
    and run_call: "call (phase (jobs u j), mem u)
      = (fst (run u j), phase (jobs (snd (run u j)) j), mem (snd (run u j)))"
    and run_indicator: "completion_indicator (jobs (snd (run u j)) j) = completion_indicator (jobs u j)"
    and mem_cong: "jobsys.more s = jobsys.more t \<Longrightarrow> mem s = mem t"
begin

text \<open>The state in which the job function returns.\<close>

lemma returned_state:
  assumes "alone s j i" "entered s j u" "t = snd (run u j)"
  shows "small t" "ready_bag t = {#}" "claimed t j" "meta t j = entered_word (meta s j)"
    and "settled (meta t j)" "\<not> bit (meta t j) 5" "\<not> bit (meta t j) 6"
      "SCHEDI_JOB_METAFLAG_GETACCESS (meta t j) = 0"
    and "derived_ok (required_available_sockets (jobs t j)) (required_available_jobs (jobs t j)) (meta t j)"
    and "runnable (required_available_sockets (jobs t j)) (required_available_jobs (jobs t j)) (meta s j)"
    and "requested_job (jobs t j) = None" "completion_indicator (jobs t j) = Some i" "\<not> completed t i"
    and "call (phase (jobs s j), mem s) = (fst (run u j), phase (jobs t j), mem t)"
proof -
  have w: "client_write u t" using run_writes by (simp add: assms(3))
  note f = client_write_fields[OF w]
  have u: "small u" "ready_bag u = {#}" "free_slots u = free_slots s" "completed u = completed s"
    "jobs u j = (jobs s j)\<lparr>state := schedi_job_state_working, meta_flag := entered_word (meta s j)\<rparr>"
    "jobsys.more u = jobsys.more s" using assms(1,2) by (simp_all add: entered_def alone_def)
  show "small t" using u(1) small_cong[of t u] f by simp
  show "ready_bag t = {#}" "claimed t j" using f u assms(1) by (simp_all add: alone_def)
  show m: "meta t j = entered_word (meta s j)" using f(1)[of j] u(5) by simp
  show r: "runnable (required_available_sockets (jobs t j)) (required_available_jobs (jobs t j)) (meta s j)"
    using assms(1) f(3,4)[of j] u(5) by (simp add: alone_def)
  then show "settled (meta t j)" "\<not> bit (meta t j) 5" "\<not> bit (meta t j) 6"
    "SCHEDI_JOB_METAFLAG_GETACCESS (meta t j) = 0"
    "derived_ok (required_available_sockets (jobs t j)) (required_available_jobs (jobs t j)) (meta t j)"
    by (simp_all add: m runnable_def entered_fields)
  show "requested_job (jobs t j) = None" "completion_indicator (jobs t j) = Some i" "\<not> completed t i"
    using assms(1) f u(4,5) run_indicator[of u j] by (simp_all add: alone_def assms(3))
  show "call (phase (jobs s j), mem s) = (fst (run u j), phase (jobs t j), mem t)"
    using run_call[of u j] mem_cong[OF u(6)] u(5) by (simp add: assms(3))
qed

lemma alone_enters:
  assumes "alone s j i"
  obtains u where "entered s j u"
    "pass b run s = worker_continue b (case run u j of (ret, t) \<Rightarrow>
       if ret < 0 then finish_job b j t
       else if ret = 1 then snd (schedi_job_mark_readybasic b (suspended j t) j) else suspended j t)"
proof -
  have "small s" "ready_bag s \<noteq> {#}" using assms by (simp_all add: alone_def)
  then obtain k u where e: "entered s k u" and p: "worker_pass b run False s = (WorkerNext,
      worker_continue b (case run u k of (ret, t) \<Rightarrow>
       if ret < 0 then finish_job b k t
       else if ret = 1 then snd (schedi_job_mark_readybasic b (suspended k t) k) else suspended k t))"
    by (rule pass_enters) (use assms in \<open>simp add: alone_def runnable_def\<close>)
  from e assms have "k = j" by (simp add: entered_def alone_def)
  from e p show ?thesis unfolding \<open>k = j\<close> by (intro that[of u]) (simp_all add: pass_def)
qed

text \<open>A call that returns 1 leaves the job ready again.\<close>

lemma pass_again:
  assumes "alone s j i" "call (phase (jobs s j), mem s) = (1, x)"
  shows "alone (pass b run s) j i" "(phase (jobs (pass b run s) j), mem (pass b run s)) = x"
proof -
  obtain u where u: "entered s j u" "pass b run s = worker_continue b (case run u j of (ret, t) \<Rightarrow>
       if ret < 0 then finish_job b j t
       else if ret = 1 then snd (schedi_job_mark_readybasic b (suspended j t) j) else suspended j t)"
    by (rule alone_enters[OF assms(1)])
  define t where "t = snd (run u j)"
  note r = returned_state[OF assms(1) u(1) t_def]
  have ret: "fst (run u j) = 1" and x: "x = (phase (jobs t j), mem t)" using r(14) assms(2) by simp_all
  then have p: "pass b run s = worker_continue b (snd (schedi_job_mark_readybasic b (suspended j t) j))"
    using u(2) by (simp add: t_def case_prod_beta)
  define w where "w = resumed_word (meta t j AND NOT SCHEDI_JOB_METAFLAG_EXECUTING)"
  have sz: "size (ready_bag t) < SCHEDI_JOBS_CACHE_CHECK" by (simp add: r(2) SCHEDI_JOBS_CACHE_CHECK_def)
  note e = pass_resumes[OF r(1) sz r(3,5-7,9) w_def p]
  note rw = resumed_runnable[OF r(10) w_def[unfolded r(4)]]
  obtain st where js: "jobs (pass b run s) = (jobs t)(j := (jobs t j)\<lparr>state := st, meta_flag := w\<rparr>)"
    using e(3) by blast
  show "alone (pass b run s) j i" unfolding alone_def using e(1,2,4,5) js r rw by simp
  show "(phase (jobs (pass b run s) j), mem (pass b run s)) = x" using x js mem_cong[OF e(6)] by simp
qed

text \<open>A call that returns a negative value completes the job.\<close>

lemma pass_ends:
  assumes "alone s j i" "call (phase (jobs s j), mem s) = (r, ph, x)" "r < 0" and addr: "addr_ok (job_addr b)"
  shows "completed (pass b run s) i" "ready_bag (pass b run s) = {#}" "meta (pass b run s) j = 0" "mem (pass b run s) = x"
proof -
  obtain u where u: "entered s j u" "pass b run s = worker_continue b (case run u j of (ret, t) \<Rightarrow>
       if ret < 0 then finish_job b j t
       else if ret = 1 then snd (schedi_job_mark_readybasic b (suspended j t) j) else suspended j t)"
    by (rule alone_enters[OF assms(1)])
  define t where "t = snd (run u j)"
  note f = returned_state[OF assms(1) u(1) t_def]
  have ret: "fst (run u j) < 0" and x: "x = mem t" using f(14) assms(2,3) by simp_all
  then have p: "pass b run s = worker_continue b (finish_job b j t)" using u(2) by (simp add: t_def case_prod_beta)
  note e = pass_finishes[OF addr f(1,3,5-8,11) p]
  show "completed (pass b run s) i" using e(5) f(12) by (simp add: indicated_def)
  show "ready_bag (pass b run s) = {#}" using e(2) f(2) by simp
  show "meta (pass b run s) j = 0" using e(4) by (auto simp: done_job_def)
  show "mem (pass b run s) = x" using mem_cong[OF e(6)] x by simp
qed

text \<open>The passes of the workers are the calls of the plain loop.\<close>

lemma passes_are_calls:
  assumes "alone s j i" "calls call n (phase (jobs s j), mem s) = Some x"
  shows "alone ((pass b run ^^ n) s) j i \<and> (phase (jobs ((pass b run ^^ n) s) j), mem ((pass b run ^^ n) s)) = x"
  using assms(2)
proof (induction n arbitrary: x)
  case (Suc n)
  then obtain y where y: "calls call n (phase (jobs s j), mem s) = Some y" "call y = (1, x)"
    by (auto simp: calls_Suc Let_def simp del: calls.simps split: option.splits prod.splits if_splits)
  from Suc.IH[OF y(1)] have "alone ((pass b run ^^ n) s) j i"
    "call (phase (jobs ((pass b run ^^ n) s) j), mem ((pass b run ^^ n) s)) = (1, x)" using y(2) by simp_all
  from pass_again[OF this] show ?case by simp
qed (use assms(1) in simp)

end

section \<open>The program ajob\<close>

record custom_job_context =
  inp :: int
  result :: int
  runs :: u32

record ajob_sys = jobsys +
  ctx :: custom_job_context

text \<open>\<open>heap\<close> is what \<^verbatim>\<open>malloc\<close> left in the allocated context.\<close>

definition GetContext :: "custom_job_context \<Rightarrow> int \<Rightarrow> custom_job_context" where
  "GetContext heap i = heap\<lparr>inp := i\<rparr>"

text \<open>
  The job function as a function of the phase and the context, and on the state of
  the library. The remainders are those of C.
\<close>

definition ajob_call :: "int \<times> custom_job_context \<Rightarrow> int \<times> int \<times> custom_job_context" where
  "ajob_call = (\<lambda>(ph, c0).
     let c = c0\<lparr>runs := runs c0 + 1\<rparr>
     in if ph = 0 then (1, 1, c\<lparr>result := inp c smod 7 + inp c smod 5 + inp c smod 3\<rparr>)
        else if ph = 1
        then let c' = c\<lparr>result := result c + 1\<rparr>
             in if result c' smod 625 = 0 then (-1, ph, c') else (1, ph, c')
        else (1, ph, c))"

definition ajob_func :: "ajob_sys \<Rightarrow> nat \<Rightarrow> int \<times> ajob_sys" where
  "ajob_func s job =
     (let (r, ph, c) = ajob_call (phase (jobs s job), ctx s)
      in (r, upd_job job (\<lambda>x. x\<lparr>phase := ph\<rparr>) (s\<lparr>ctx := c\<rparr>)))"

definition ajob_indicator :: nat where "ajob_indicator = 0"
definition ajob_fn :: nat where "ajob_fn = 1"

text \<open>\<^verbatim>\<open>main\<close> up to the start of the workers.\<close>

definition ajob_static :: "custom_job_context \<Rightarrow> ajob_sys" where
  "ajob_static c = jobsys.extend static_jobsys \<lparr>ctx = c\<rparr>"

definition ajob_main :: "build \<Rightarrow> custom_job_context \<Rightarrow> int \<Rightarrow> (nat \<times> ajob_sys) option" where
  "ajob_main b heap i =
     (case schedi_job_create (sections_init (ajob_static (GetContext heap i))) 0 ajob_fn None of
        (None, _) \<Rightarrow> None
      | (Some job1, s1) \<Rightarrow>
          let s2 = schedi_completion_indicator_init s1 ajob_indicator;
              s3 = upd_job job1 (\<lambda>x. x\<lparr>completion_indicator := Some ajob_indicator\<rparr>) s2
          in Some (job1, snd (schedi_job_setready b s3 job1)))"

lemma ajob_truncate: "jobsys.truncate (sections_init (ajob_static c)) = sections_init static_jobsys"
  by (simp add: ajob_static_def sections_init_def jobsys.truncate_def jobsys.extend_def static_jobsys_def)

interpretation ajob: lone_job b ajob_func ctx ajob_call for b
proof
  show "client_write u (snd (ajob_func u j))" for u j
    by (simp add: ajob_func_def Let_def case_prod_beta client_write_def jobsys.truncate_def upd_job_def)
  show "ctx s = ctx t" if "jobsys.more s = jobsys.more t" for s t :: ajob_sys
    using that by (cases s; cases t) simp
qed (simp_all add: ajob_func_def Let_def case_prod_beta upd_job_def)

text \<open>A new job with an indicator, made ready, is alone.\<close>

definition launched :: "build \<Rightarrow> 'a jobsys_scheme \<Rightarrow> nat \<Rightarrow> nat \<Rightarrow> 'a jobsys_scheme" where
  "launched b s1 i j = snd (schedi_job_setready b (upd_job j (\<lambda>x. x\<lparr>completion_indicator := Some i\<rparr>)
     (schedi_completion_indicator_init s1 i)) j)"

lemma launch_fields:
  assumes "life_inv s0 []" "free_slots s0 \<noteq> {}"
  obtains j s1 where "schedi_job_create s0 c r d = (Some j, s1)" "j \<in> free_slots s0" "j < SCHEDI_MAXIMUM_JOBS"
    "life_inv (launched b s1 i j) []" "ready_bag (launched b s1 i j) = add_mset j (ready_bag s0)"
    "jobs (launched b s1 i j) = (jobs s0)(j := (new_job c r d (jobs s0 j))\<lparr>completion_indicator := Some i,
       meta_flag := new_word OR SCHEDI_JOB_METAFLAG_READY, state := schedi_job_state_readywaiting\<rparr>)"
    "free_slots (launched b s1 i j) = free_slots s0 - {j}"
    "completed (launched b s1 i j) = (completed s0)(i := False)"
    "jobsys.more (launched b s1 i j) = jobsys.more s0"
    "near s0 \<Longrightarrow> size (ready_bag s0) < SCHEDI_JOBS_CACHE_CHECK \<Longrightarrow> near (launched b s1 i j)"
proof -
  from create_fields[OF assms, of c r d] obtain j s1 where
    c: "schedi_job_create s0 c r d = (Some j, s1)" "j \<in> free_slots s0" "j < SCHEDI_MAXIMUM_JOBS"
    "life_inv s1 []" "ready_jobs_cache s1 = ready_jobs_cache s0" "free_slots s1 = free_slots s0 - {j}"
    "jobs s1 = (jobs s0)(j := new_job c r d (jobs s0 j))" "completed s1 = completed s0" "jobsys.more s1 = jobsys.more s0"
    by metis
  define s2 where "s2 = upd_job j (\<lambda>x. x\<lparr>completion_indicator := Some i\<rparr>) (schedi_completion_indicator_init s1 i)"
  define s3 where "s3 = snd (schedi_job_setready b s2 j)"
  have f: "ready_jobs_cache s2 = ready_jobs_cache s1" "job_count s2 = job_count s1" "destroy_q s2 = destroy_q s1"
    "empty_sections s2 = empty_sections s1" "completed s2 = (completed s1)(i := False)"
    "jobs s2 = (jobs s1)(j := (jobs s1 j)\<lparr>completion_indicator := Some i\<rparr>)"
    by (simp_all add: s2_def schedi_completion_indicator_init_def)
  have inv2: "life_inv s2 []"
    using c(4) f by (simp add: life_inv_bits sections_ok_def sched_inv_cong[of s2 s1])
  note sc = life_inv_sched[OF inv2]
  have w: "meta s2 j = new_word" by (simp add: f c(7) new_job_def)
  have pre: "settled (meta s2 j)" "\<not> bit (meta s2 j) 5" by (simp_all add: settled_iff new_word_bits w)
  have room: "length (cached (ready_jobs_cache s2)) < SCHEDI_MAXIMUM_JOBS"
    using sched_room[OF sched_inv_butI[OF sc(1) c(3)] c(3) pre(2)] .
  note e = setready_room_fields[OF pre sc(2) room s3_def]
  have "life_inv s3 []" unfolding s3_def
    using calm_life_inv[OF calm_setready[OF sc(2)] setready_sched_inv[OF sched_inv_butI[OF sc(1)]] inv2] c(3,6) f(4) by simp
  moreover have "free_slots s3 = free_slots s2" "completed s3 = completed s2" using e(5,8) by simp_all
  moreover have s3': "s3 = launched b s1 i j" by (simp add: launched_def s3_def s2_def)
  moreover have "near s3" if "near s0" "size (ready_bag s0) < SCHEDI_JOBS_CACHE_CHECK"
    using setready_effect(3)[OF sc(2) _ pre s3_def] that near_cong[of s2 s0] f(1) c(5) by simp
  moreover have "jobsys.more (launched b s1 i j) = jobsys.more s0"
    using c(9) by (simp add: launched_def memory schedi_completion_indicator_init_def)
  moreover have "jobs s3 = (jobs s0)(j := (new_job c r d (jobs s0 j))\<lparr>completion_indicator := Some i,
       meta_flag := new_word OR SCHEDI_JOB_METAFLAG_READY, state := schedi_job_state_readywaiting\<rparr>)"
    using e(1) by (simp add: w f(6) c(7))
  ultimately show ?thesis using that[OF c(1-3)] e(2) f c(5,6,8) by simp
qed

lemma launch_small:
  assumes "small s0" "free_slots s0 \<noteq> {}" "size (ready_bag s0) < SCHEDI_JOBS_CACHE_CHECK"
  obtains j s1 where "schedi_job_create s0 c r d = (Some j, s1)" "j \<in> free_slots s0" "j < SCHEDI_MAXIMUM_JOBS"
    "small (launched b s1 i j)" "ready_bag (launched b s1 i j) = add_mset j (ready_bag s0)"
    "jobs (launched b s1 i j) = (jobs s0)(j := (new_job c r d (jobs s0 j))\<lparr>completion_indicator := Some i,
       meta_flag := new_word OR SCHEDI_JOB_METAFLAG_READY, state := schedi_job_state_readywaiting\<rparr>)"
    "free_slots (launched b s1 i j) = free_slots s0 - {j}"
    "completed (launched b s1 i j) = (completed s0)(i := False)"
    "jobsys.more (launched b s1 i j) = jobsys.more s0"
proof -
  have inv: "life_inv s0 []" "near s0" using assms(1) by (simp_all add: small_def)
  show ?thesis
    by (rule launch_fields[OF inv(1) assms(2), of c r d b i], rule that)
      (use inv(2) assms(3) in \<open>simp_all add: small_def\<close>)
qed

lemma new_job_alone:
  assumes "jobsys.truncate s0 = sections_init static_jobsys"
  obtains j s1 where "schedi_job_create s0 c r d = (Some j, s1)" "alone (launched b s1 i j) j i"
    "jobs (launched b s1 i j) = (\<lambda>_. null_job)(j := (new_job c r d null_job)\<lparr>completion_indicator := Some i,
       meta_flag := new_word OR SCHEDI_JOB_METAFLAG_READY, state := schedi_job_state_readywaiting\<rparr>)"
    "free_slots (launched b s1 i j) = {..<SCHEDI_MAXIMUM_JOBS} - {j}"
    "jobsys.more (launched b s1 i j) = jobsys.more s0"
proof -
  note st = started_small[OF assms]
  have room: "free_slots s0 \<noteq> {}" "size (ready_bag s0) < SCHEDI_JOBS_CACHE_CHECK"
    by (simp_all add: st(2,3) SCHEDI_MAXIMUM_JOBS_def SCHEDI_JOBS_CACHE_CHECK_def lessThan_empty_iff)
  from launch_small[OF st(1) room, of c r d b i] obtain j s1 where
    l: "schedi_job_create s0 c r d = (Some j, s1)" "j < SCHEDI_MAXIMUM_JOBS"
    "small (launched b s1 i j)" "ready_bag (launched b s1 i j) = add_mset j (ready_bag s0)"
    "jobs (launched b s1 i j) = (jobs s0)(j := (new_job c r d (jobs s0 j))\<lparr>completion_indicator := Some i,
       meta_flag := new_word OR SCHEDI_JOB_METAFLAG_READY, state := schedi_job_state_readywaiting\<rparr>)"
    "free_slots (launched b s1 i j) = free_slots s0 - {j}" "completed (launched b s1 i j) = (completed s0)(i := False)"
    "jobsys.more (launched b s1 i j) = jobsys.more s0" by metis
  have "alone (launched b s1 i j) j i" unfolding alone_def
    using l(2,3,4,7) st(2) new_runnable by (simp add: l(5,6) new_job_def)
  then show ?thesis using that[OF l(1)] l(5,6,8) st(3,4) by simp
qed

text \<open>\<open>main\<close> succeeds and leaves the job alone.\<close>

lemma ajob_main_starts:
  obtains j s where "ajob_main b heap i = Some (j, s)" "alone s j ajob_indicator" "phase (jobs s j) = 0"
    "ctx s = GetContext heap i"
proof -
  let ?s0 = "sections_init (ajob_static (GetContext heap i))"
  obtain j s1 where s: "schedi_job_create ?s0 0 ajob_fn None = (Some j, s1)"
    "alone (launched b s1 ajob_indicator j) j ajob_indicator"
    "phase (jobs (launched b s1 ajob_indicator j) j) = 0"
    "jobsys.more (launched b s1 ajob_indicator j) = jobsys.more ?s0"
    by (rule new_job_alone[OF ajob_truncate[of "GetContext heap i"], of 0 ajob_fn None b ajob_indicator])
      (simp add: new_job_def)
  from s(4) have "ctx (launched b s1 ajob_indicator j) = ctx ?s0" by (rule ajob.mem_cong)
  then have "ctx (launched b s1 ajob_indicator j) = GetContext heap i"
    by (simp add: sections_init_def ajob_static_def jobsys.extend_def)
  moreover have "ajob_main b heap i = Some (j, launched b s1 ajob_indicator j)"
    by (simp add: ajob_main_def s(1) launched_def Let_def)
  ultimately show ?thesis using that s(2,3) by simp
qed

section \<open>The calls of ajob\<close>

lemma smod_zero_iff: "(k :: int) smod 625 = 0 \<longleftrightarrow> k mod 625 = 0"
  by (auto simp: signed_modulo_int_def sgn_0_0 simp flip: dvd_eq_mod_eq_0)

definition first_result :: "int \<Rightarrow> int" where
  "first_result i = i smod 7 + i smod 5 + i smod 3"

lemma ajob_calls:
  assumes "int k < 625 - first_result (inp c) mod 625"
  shows "calls ajob_call (Suc k) (0, c) =
    Some (1, c\<lparr>result := first_result (inp c) + int k, runs := runs c + of_nat (Suc k)\<rparr>)"
  using assms
proof (induction k)
  case 0
  then show ?case by (simp add: ajob_call_def first_result_def)
next
  case (Suc k)
  let ?R = "first_result (inp c)"
  have "(?R + int (Suc k)) mod 625 = ?R mod 625 + int (Suc k)"
    using Suc.prems by (subst mod_add_left_eq[symmetric]) (simp add: mod_pos_pos_trivial)
  moreover have "0 \<le> ?R mod 625" by simp
  ultimately have n: "(?R + int (Suc k)) mod 625 \<noteq> 0" by linarith
  have IH: "calls ajob_call (Suc k) (0, c) = Some (1, c\<lparr>result := ?R + int k, runs := runs c + of_nat (Suc k)\<rparr>)"
    using Suc by simp
  show ?case unfolding calls_Suc[of _ "Suc k"] IH using n
    by (simp add: ajob_call_def smod_zero_iff ac_simps)
qed

section \<open>Properties\<close>



end
