(* ===== verification/Job_Dependencies.thy ===== *)
theory Job_Dependencies
  imports Single_Job
begin

text \<open>
  Jobs that wait for other jobs: \<^verbatim>\<open>schedi_job_tool_job\<close>, \<^verbatim>\<open>schedi_job_required_available_jobs\<close> and
  the notification of a worker. The general result is about a parent and any order in
  which its jobs finish and it suspends itself.
\<close>

section \<open>A parent and the jobs it waits for\<close>

text \<open>
  The word of a parent that requires \<open>n\<close> finished jobs, has been given \<open>k\<close> and has
  (\<open>r\<close>) or has not returned from its function yet; \<open>rs\<close> is its threshold of sockets.
\<close>

definition join_word :: "int \<Rightarrow> nat \<Rightarrow> nat \<Rightarrow> bool \<Rightarrow> u32 \<Rightarrow> bool" where
  "join_word rs n k r m \<longleftrightarrow> settled m \<and> SCHEDI_JOB_METAFLAG_GETWAIT m = 0
     \<and> rs \<le> uint (SCHEDI_JOB_METAFLAG_GETAVSOCK m) \<and> uint (SCHEDI_JOB_METAFLAG_GETAVJOBS m) = int k
     \<and> derived_ok rs (int n) m \<and> bit m 6 = r \<and> bit m 5 = (r \<and> n \<le> k)"

text \<open>Operations that leave the conditions of \<open>p\<close> alone; it may be accessed and stop or start executing.\<close>

definition same_conditions :: "nat \<Rightarrow> 'a jobsys_scheme \<Rightarrow> 'a jobsys_scheme \<Rightarrow> bool" where
  "same_conditions p s s' \<longleftrightarrow> (\<forall>i < 28. i \<noteq> 2 \<longrightarrow> bit (meta s' p) i = bit (meta s p) i)
     \<and> required_available_sockets (jobs s' p) = required_available_sockets (jobs s p)
     \<and> required_available_jobs (jobs s' p) = required_available_jobs (jobs s p)"

text \<open>
  From the call of \<^verbatim>\<open>schedi_job_required_available_jobs\<close> until the parent is READY, in any
  order: a job finishes and the parent is told, the parent returns 1 from its
  function, and anything else that does not touch the parent's conditions.
\<close>

inductive joining :: "build \<Rightarrow> nat \<Rightarrow> nat \<Rightarrow> nat \<Rightarrow> bool \<Rightarrow> 'a jobsys_scheme \<Rightarrow> bool" for b p n where
  require: "job_reach b s \<Longrightarrow> claimed s p \<Longrightarrow> settled (meta s p)
    \<Longrightarrow> meta s p AND (SCHEDI_JOB_METAFLAG_READY OR SCHEDI_JOB_METAFLAG_READYBASIC) = 0
    \<Longrightarrow> SCHEDI_JOB_METAFLAG_GETWAIT (meta s p) = 0 \<Longrightarrow> SCHEDI_JOB_METAFLAG_GETAVJOBS (meta s p) = 0
    \<Longrightarrow> required_available_sockets (jobs s p) \<le> uint (SCHEDI_JOB_METAFLAG_GETAVSOCK (meta s p))
    \<Longrightarrow> 0 < n \<Longrightarrow> n \<le> 15 \<Longrightarrow> joining b p n 0 False (schedi_job_required_available_jobs b s p (int n))"
| job_done: "joining b p n k r s \<Longrightarrow> k < n
    \<Longrightarrow> joining b p n (Suc k) r (snd (schedi_job_add_available_job b s p))"
| returned: "joining b p n k False s \<Longrightarrow> joining b p n k True (snd (schedi_job_mark_readybasic b s p))"
| other: "joining b p n k r s \<Longrightarrow> job_step b s s' \<Longrightarrow> claimed s' p \<Longrightarrow> same_conditions p s s'
    \<Longrightarrow> joining b p n k r s'"

lemma join_word_cong:
  assumes "\<And>i. i < 28 \<Longrightarrow> i \<noteq> 2 \<Longrightarrow> bit m' i = bit m i"
  shows "join_word rs n k r m' = join_word rs n k r m"
proof -
  have "SCHEDI_JOB_METAFLAG_GETWAIT m' = SCHEDI_JOB_METAFLAG_GETWAIT m"
    "SCHEDI_JOB_METAFLAG_GETAVSOCK m' = SCHEDI_JOB_METAFLAG_GETAVSOCK m"
    "SCHEDI_JOB_METAFLAG_GETAVJOBS m' = SCHEDI_JOB_METAFLAG_GETAVJOBS m"
    by (rule get_cong; simp add: assms)+
  moreover have "derived_ok rs (int n) m' = derived_ok rs (int n) m" by (rule derived_ok_cong) (simp add: assms)
  ultimately show ?thesis using assms[of 1] assms[of 3] assms[of 5] assms[of 6] by (simp add: join_word_def settled_iff)
qed

text \<open>An update of the conditions of a parent that is not READY: the swap succeeds and the word follows.\<close>

lemma join_update:
  assumes "settled m" "\<not> bit m 5" "SCHEDI_JOB_METAFLAG_GETWAIT m = 0" "rs \<le> uint (SCHEDI_JOB_METAFLAG_GETAVSOCK m)"
    and "uint (SCHEDI_JOB_METAFLAG_GETAVJOBS m) = int k" "k + jd \<le> 15" "quiet_flag flag"
    and "bn = 0 \<or> bn = SCHEDI_JOB_METAFLAG_UNSTABLE OR SCHEDI_JOB_METAFLAG_WLLDESTROY"
    and "\<not> schedi_job_meta_flag_check_allready m"
  obtains d x where "cas_update_body rs (int n) 0 0 (int jd) flag bn False m = CasTry d x"
    "join_word rs n (k + jd) (bit m 6 \<or> bit flag 6) (if becomes_ready m d then d OR SCHEDI_JOB_METAFLAG_READY else d)"
proof -
  have le: "0 \<le> uint (v :: u32) \<and> uint v \<le> 15" if "v < 16" for v using that by (simp add: word_less_def)
  note rng = le[OF field_less_16(1)[of m]] le[OF field_less_16(2)[of m]]
  have "meta_ban bn False m = 0" using assms(1,8) by (auto simp: meta_ban_zero_iff ban_iffs settled_iff)
  then obtain d x where body: "cas_update_body rs (int n) 0 0 (int jd) flag bn False m = CasTry d x"
    using rng assms(5,6) by (cases rule: cas_update_body_cases[of bn False m rs "int n" 0 0 "int jd" flag]) auto
  have basic: "basic_flag flag" using assms(7) by (simp add: quiet_flag_def)
  note t = cas_update_body_tryD[OF body]
  note f = cas_update_desired_fields[OF t(1-6) basic t(7)]
  note sb = cas_update_swap_bits[OF body assms(7)]
  have der: "derived_ok rs (int n) d" by (rule cas_update_body_derived_ok[OF body basic])
  have w: "SCHEDI_JOB_METAFLAG_GETWAIT d = 0" using f(2) assms(3) by (simp add: uint_0_iff)
  have s: "rs \<le> uint (SCHEDI_JOB_METAFLAG_GETAVSOCK d)" "uint (SCHEDI_JOB_METAFLAG_GETAVJOBS d) = int (k + jd)"
    using f(1,3) assms(4,5) by simp_all
  have "int n \<le> int k + int jd \<longleftrightarrow> n \<le> k + jd" by linarith
  then have rd: "becomes_ready m d \<longleftrightarrow> bit d 6 \<and> n \<le> k + jd"
    using assms(9) der w s by (simp add: becomes_ready_def allready_iff derived_ok_bits)
  let ?v = "if becomes_ready m d then d OR SCHEDI_JOB_METAFLAG_READY else d"
  have bits: "bit ?v i \<longleftrightarrow> bit d i \<or> i = 5 \<and> becomes_ready m d" for i by (auto simp: bit_or_iff bit_flags)
  have "SCHEDI_JOB_METAFLAG_GETWAIT ?v = SCHEDI_JOB_METAFLAG_GETWAIT d"
    "SCHEDI_JOB_METAFLAG_GETAVSOCK ?v = SCHEDI_JOB_METAFLAG_GETAVSOCK d"
    "SCHEDI_JOB_METAFLAG_GETAVJOBS ?v = SCHEDI_JOB_METAFLAG_GETAVJOBS d"
    by (rule get_cong; simp add: bits)+
  moreover have "derived_ok rs (int n) ?v" using der derived_ok_cong[of ?v d] bits by simp
  ultimately have "join_word rs n (k + jd) (bit m 6 \<or> bit flag 6) ?v"
    unfolding join_word_def using w s sb assms(1,2) rd by (simp add: settled_iff bit_or_iff bit_flags)
  then show ?thesis using that body by blast
qed

text \<open>The word after an update, in any consistent system.\<close>

lemma update_word:
  assumes "sched_inv s" "j < SCHEDI_MAXIMUM_JOBS" "quiet_flag flag" "settled (meta s j)" "\<not> bit (meta s j) 5"
    and body: "cas_update_body (required_available_sockets (jobs s j)) (required_available_jobs (jobs s j))
        sd wd jd flag bn ba (meta s j) = CasTry d x"
    and s': "s' = snd (schedi_job_meta_flag_cas_update b s j sd wd jd flag bn ba)"
  shows "meta s' j = (if becomes_ready (meta s j) d then d OR SCHEDI_JOB_METAFLAG_READY else d)"
    and "required_available_sockets (jobs s' j) = required_available_sockets (jobs s j)"
    and "required_available_jobs (jobs s' j) = required_available_jobs (jobs s j)"
proof -
  note d = cas_update_swap_bits[OF body assms(3)]
  let ?t = "set_meta j d s"
  have "slot_ok (meta s j) (count (ready_bag s) j)" using assms(1,2) by (simp add: sched_inv_def)
  then have "sched_inv_but j ?t" using assms(1,2) d by (intro sched_inv_but_set) (simp_all add: slot_iffs)
  then have room: "length (cached (ready_jobs_cache ?t)) < SCHEDI_MAXIMUM_JOBS" and ok: "cache_ok ?t"
    using sched_room[of j ?t] assms(2,5) d(3) by (simp_all add: sched_inv_but_def)
  have "jobs (snd (schedi_job_setready b ?t j)) = (jobs ?t)(j := (jobs ?t j)\<lparr>
      meta_flag := meta ?t j OR SCHEDI_JOB_METAFLAG_READY, state := schedi_job_state_readywaiting\<rparr>)"
    using assms(4,5) d by (intro setready_room_fields(1)[OF _ _ ok room refl]) (simp_all add: settled_iff)
  moreover have "s' = (if becomes_ready (meta s j) d then snd (schedi_job_setready b ?t j) else ?t)"
    using d(6) body by (simp add: s' cas_update_eq becomes_ready_def)
  ultimately show "meta s' j = (if becomes_ready (meta s j) d then d OR SCHEDI_JOB_METAFLAG_READY else d)"
    "required_available_sockets (jobs s' j) = required_available_sockets (jobs s j)"
    "required_available_jobs (jobs s' j) = required_available_jobs (jobs s j)" by simp_all
qed

lemma join_step:
  assumes "sched_inv s" "p < SCHEDI_MAXIMUM_JOBS" "required_available_jobs (jobs s p) = int n"
    and "settled (meta s p)" "\<not> bit (meta s p) 5" "SCHEDI_JOB_METAFLAG_GETWAIT (meta s p) = 0"
    and "required_available_sockets (jobs s p) \<le> uint (SCHEDI_JOB_METAFLAG_GETAVSOCK (meta s p))"
    and "uint (SCHEDI_JOB_METAFLAG_GETAVJOBS (meta s p)) = int k" "k + jd \<le> 15"
    and "\<not> schedi_job_meta_flag_check_allready (meta s p)" "quiet_flag flag"
    and "bn = 0 \<or> bn = SCHEDI_JOB_METAFLAG_UNSTABLE OR SCHEDI_JOB_METAFLAG_WLLDESTROY"
    and s': "s' = snd (schedi_job_meta_flag_cas_update b s p 0 0 (int jd) flag bn False)"
  shows "required_available_jobs (jobs s' p) = int n
    \<and> join_word (required_available_sockets (jobs s' p)) n (k + jd) (bit (meta s p) 6 \<or> bit flag 6) (meta s' p)
    \<and> empty_sections s' = empty_sections s"
proof -
  obtain d x where d: "cas_update_body (required_available_sockets (jobs s p)) (int n) 0 0 (int jd) flag bn False
      (meta s p) = CasTry d x"
    "join_word (required_available_sockets (jobs s p)) n (k + jd) (bit (meta s p) 6 \<or> bit flag 6)
      (if becomes_ready (meta s p) d then d OR SCHEDI_JOB_METAFLAG_READY else d)"
    by (rule join_update[OF assms(4-9,11,12,10)])
  note e = update_word[OF assms(1,2,11,4,5) d(1)[folded assms(3)] s']
  show ?thesis using e d(2) assms(3) by (simp add: s' cas_update_frame)
qed

lemma joining_inv:
  assumes "joining b p n k r s" "addr_ok (job_addr b)"
  shows "job_reach b s \<and> claimed s p \<and> k \<le> n \<and> n \<le> 15 \<and> 0 < n \<and> required_available_jobs (jobs s p) = int n
    \<and> join_word (required_available_sockets (jobs s p)) n k r (meta s p)"
  using assms(1)
proof induction
  case (require s)
  let ?s = "upd_job p (\<lambda>x. x\<lparr>required_available_jobs := int n\<rparr>) s"
  from job_reach_life_inv[OF require(1) assms(2)] have inv: "sched_inv ?s" by (auto simp: life_inv_def)
  define s' where "s' = schedi_job_required_available_jobs b s p (int n)"
  have s': "s' = snd (schedi_job_meta_flag_cas_update b ?s p 0 0 (int 0) 0 0 False)"
    by (simp add: s'_def schedi_job_required_available_jobs_def)
  have "required_available_jobs (jobs s' p) = int n
      \<and> join_word (required_available_sockets (jobs s' p)) n (0 + 0) (bit (meta ?s p) 6 \<or> bit (0 :: u32) 6) (meta s' p)
      \<and> empty_sections s' = empty_sections ?s"
    using require by (intro join_step[OF inv _ _ _ _ _ _ _ _ _ quiet_flags(1) disjI1[OF refl] s'])
      (simp_all add: ban_iffs allready_iff)
  moreover have "job_reach b s'"
    unfolding s'_def using job_reach.step[OF require(1) job_step.require_jobs] require(2) by blast
  ultimately show ?case using require by (simp add: ban_iffs flip: s'_def)
next
  case (job_done k r s)
  then have r: "job_reach b s" and c: "claimed s p" by simp_all
  from job_reach_life_inv[OF r assms(2)] have inv: "sched_inv s" by (auto simp: life_inv_def)
  define s' where "s' = snd (schedi_job_add_available_job b s p)"
  have s': "s' = snd (schedi_job_meta_flag_cas_update b s p 0 0 (int 1) 0 0 False)"
    by (simp add: s'_def schedi_job_add_available_job_def)
  have "required_available_jobs (jobs s' p) = int n
      \<and> join_word (required_available_sockets (jobs s' p)) n (k + 1) (bit (meta s p) 6 \<or> bit (0 :: u32) 6) (meta s' p)
      \<and> empty_sections s' = empty_sections s"
    using job_done by (intro join_step[OF inv _ _ _ _ _ _ _ _ _ quiet_flags(1) disjI1[OF refl] s'])
      (simp_all add: join_word_def allready_iff derived_ok_bits)
  moreover have "job_reach b s'" unfolding s'_def using job_reach.step[OF r job_step.add_available_job[OF c]] .
  ultimately show ?case using job_done by (simp add: join_word_def flip: s'_def)
next
  case (returned k s)
  then have r: "job_reach b s" and c: "claimed s p" by simp_all
  from job_reach_life_inv[OF r assms(2)] have inv: "sched_inv s" by (auto simp: life_inv_def)
  define s' where "s' = snd (schedi_job_mark_readybasic b s p)"
  have s': "s' = snd (schedi_job_meta_flag_cas_update b s p 0 0 (int 0) SCHEDI_JOB_METAFLAG_READYBASIC
      (SCHEDI_JOB_METAFLAG_UNSTABLE OR SCHEDI_JOB_METAFLAG_WLLDESTROY) False)"
    by (simp add: s'_def schedi_job_mark_readybasic_def schedi_job_mark_or_readiness_def case_prod_beta)
  have "required_available_jobs (jobs s' p) = int n
      \<and> join_word (required_available_sockets (jobs s' p)) n (k + 0)
          (bit (meta s p) 6 \<or> bit SCHEDI_JOB_METAFLAG_READYBASIC 6) (meta s' p)
      \<and> empty_sections s' = empty_sections s"
    using returned by (intro join_step[OF inv _ _ _ _ _ _ _ _ _ quiet_flags(2) disjI2[OF refl] s'])
      (simp_all add: join_word_def allready_iff)
  moreover have "job_reach b s'" unfolding s'_def using job_reach.step[OF r job_step.mark_readybasic[OF c]] .
  ultimately show ?case using returned by (simp add: bit_flags flip: s'_def)
next
  case (other k r s s')
  have "join_word rs n k r (meta s' p) = join_word rs n k r (meta s p)" for rs
    using other(4) by (intro join_word_cong) (simp add: same_conditions_def)
  then show ?case using other job_reach.step by (auto simp: same_conditions_def)
qed

text \<open>A worker that finishes a job of the parent makes the step \<open>job_done\<close>.\<close>

lemma notify_joins:
  assumes "joining b p n k r s" "addr_ok (job_addr b)" "k < n" "requested_job (jobs s j) = Some p"
    and "SCHEDI_JOB_METAFLAG_GETACCESS (meta s p) \<noteq> 15"
  shows "joining b p n (if gen (jobs s p) = requested_job_gen (jobs s j) then Suc k else k) r (worker_notify b s j)"
proof -
  note inv = joining_inv[OF assms(1,2)]
  have st: "settled (meta s p)" using inv by (simp add: join_word_def)
  define s1 where "s1 = set_meta p (SCHEDI_JOB_METAFLAG_SETACCESS (meta s p) (SCHEDI_JOB_METAFLAG_GETACCESS (meta s p) + 1)) s"
  have m: "schedi_job_mark_access s p = (0, s1)"
    using st assms(5) by (simp add: s1_def mark_access_eq Let_def settled_iff ban_iffs)
  have "job_step b s s1" using job_step.mark_access[of b s p] by (simp add: m)
  then have j1: "joining b p n k r s1"
    by (rule joining.other[OF assms(1)]) (use inv in \<open>simp_all add: s1_def same_conditions_def bit_set_access\<close>)
  let ?s2 = "if gen (jobs s p) = requested_job_gen (jobs s j) then snd (schedi_job_add_available_job b s1 p) else s1"
  let ?k = "if gen (jobs s p) = requested_job_gen (jobs s j) then Suc k else k"
  have j2: "joining b p n ?k r ?s2" using j1 joining.job_done[OF j1 assms(3)] by simp
  have "claimed (snd (schedi_job_unmark_access ?s2 p)) p"
    using joining_inv[OF j2 assms(2)] by (simp add: unmark_access_eq Let_def)
  moreover have "same_conditions p ?s2 (snd (schedi_job_unmark_access ?s2 p))"
    by (simp add: same_conditions_def unmark_access_eq Let_def bit_set_access)
  ultimately have "joining b p n ?k r (snd (schedi_job_unmark_access ?s2 p))"
    by (rule joining.other[OF j2 job_step.unmark_access])
  moreover have "gen (jobs s1 p) = gen (jobs s p)" "requested_job_gen (jobs s1 j) = requested_job_gen (jobs s j)"
    by (simp_all add: s1_def)
  ultimately show ?thesis using assms(4) m by (simp add: worker_notify_def)
qed

subsection \<open>Property\<close>

text \<open>
  C12: A parent resumes exactly when its jobs are done. After
  \<^verbatim>\<open>schedi_job_required_available_jobs(job, n)\<close>, with 0 < n <= 15, and whatever the order in
  which jobs finish, the parent returns 1 from its function and other calls are made,
  the parent is READY and in the ready cache, once, when all \<open>n\<close> jobs have finished
  and it has returned, and neither READY nor cached before that.
\<close>

theorem parent_resumes_when_all_done:
  assumes "joining b p n k r s" "addr_ok (job_addr b)"
  shows "count (ready_bag s) p = of_bool (k = n \<and> r)
    \<and> (meta s p AND SCHEDI_JOB_METAFLAG_READY \<noteq> 0 \<longleftrightarrow> k = n \<and> r)"
proof -
  note inv = joining_inv[OF assms]
  from inv job_reach_life_inv[of b s] assms(2) obtain xs where "life_inv s xs" by blast
  with inv have "slot_ok (meta s p) (count (ready_bag s) p)" by (simp add: life_inv_def sched_inv_def)
  moreover have "settled (meta s p)" "bit (meta s p) 5 = (k = n \<and> r)" using inv by (auto simp: join_word_def)
  ultimately show ?thesis by (auto simp: slot_iffs settled_iff flag_clear_iff)
qed

lemma example_joining:
  "joining example_build 0 1 1 True (snd (schedi_job_mark_readybasic example_build
     (snd (schedi_job_add_available_job example_build
       (schedi_job_required_available_jobs example_build example_state 0 1) 0)) 0))"
proof -
  have w: "settled (meta example_state 0)"
    "meta example_state 0 AND (SCHEDI_JOB_METAFLAG_READY OR SCHEDI_JOB_METAFLAG_READYBASIC) = 0"
    "SCHEDI_JOB_METAFLAG_GETWAIT (meta example_state 0) = 0" "SCHEDI_JOB_METAFLAG_GETAVJOBS (meta example_state 0) = 0"
    "required_available_sockets (jobs example_state 0) \<le> uint (SCHEDI_JOB_METAFLAG_GETAVSOCK (meta example_state 0))"
    by code_simp+
  have "joining example_build 0 1 0 False (schedi_job_required_available_jobs example_build example_state 0 (int 1))"
    by (rule joining.require[OF example_reach example_claimed w]) simp_all
  from joining.job_done[OF this] have "joining example_build 0 1 (Suc 0) False
      (snd (schedi_job_add_available_job example_build
        (schedi_job_required_available_jobs example_build example_state 0 1) 0))" by simp
  from joining.returned[OF this] show ?thesis by simp
qed

theorem parent_resumes_when_all_done_witness:
  "count (ready_bag (snd (schedi_job_mark_readybasic example_build
     (snd (schedi_job_add_available_job example_build
       (schedi_job_required_available_jobs example_build example_state 0 1) 0)) 0))) 0 = 1"
  using parent_resumes_when_all_done[OF example_joining example_addr] by simp

end
