(* ===== verification/Dependency_Example.thy ===== *)
theory Dependency_Example
  imports Job_Dependencies
begin

text \<open>
  The client program \<^verbatim>\<open>src/examples/avjobs.c\<close>: a parent that creates two jobs, waits for
  both and gathers their results. Its two job functions and its main function are
  modelled on a record that extends the state of the library by the program's own
  memory. The result is about every order in which the workers pick the jobs.
\<close>

section \<open>The program avjobs\<close>

definition LEAF_COUNT :: nat where
  "LEAF_COUNT = 2"

record avjobs_sys = jobsys +
  leaf_values :: "nat \<Rightarrow> int"
  leaves :: "nat \<Rightarrow> nat option"
  total :: int
  seen :: int

text \<open>The function pointers, the context of the parent and its completion indicator.\<close>

definition leaf_fn :: nat where "leaf_fn = 1"
definition parent_fn :: nat where "parent_fn = 2"
definition parent_indicator :: nat where "parent_indicator = 0"

text \<open>The context of a leaf is the index of its \<^verbatim>\<open>leaf_ctx\<close> in the parent's context.\<close>

definition leaf_func :: "avjobs_sys \<Rightarrow> nat \<Rightarrow> int \<times> avjobs_sys" where
  "leaf_func s job =
     (let c = job_context (jobs s job)
      in if phase (jobs s job) = 0
         then (1, upd_job job (\<lambda>x. x\<lparr>phase := 1\<rparr>)
                (s\<lparr>leaf_values := (leaf_values s)(c := leaf_values s c + 10)\<rparr>))
         else if phase (jobs s job) = 1
         then (1, upd_job job (\<lambda>x. x\<lparr>phase := 2\<rparr>)
                (s\<lparr>leaf_values := (leaf_values s)(c := leaf_values s c * 2)\<rparr>))
         else (-1, s))"

text \<open>The three loops of the parent; a leaf that could not be created would be dereferenced, which ends the run.\<close>

fun make_leaves :: "nat \<Rightarrow> nat \<Rightarrow> nat \<Rightarrow> avjobs_sys \<Rightarrow> avjobs_sys option" where
  "make_leaves job i 0 s = Some s"
| "make_leaves job i (Suc k) s =
     (let (l, s1) = schedi_job_create (s\<lparr>leaf_values := (leaf_values s)(i := (int i + 1) * 5)\<rparr>) i leaf_fn None;
          s2 = s1\<lparr>leaves := (leaves s1)(i := l)\<rparr>
      in (case l of None \<Rightarrow> None | Some leaf \<Rightarrow> make_leaves job (Suc i) k (schedi_job_tool_job s2 job leaf)))"

fun launch_leaves :: "build \<Rightarrow> nat \<Rightarrow> nat \<Rightarrow> avjobs_sys \<Rightarrow> avjobs_sys" where
  "launch_leaves b i 0 s = s"
| "launch_leaves b i (Suc k) s =
     launch_leaves b (Suc i) k (case leaves s i of None \<Rightarrow> s | Some l \<Rightarrow> snd (schedi_job_setready b s l))"

fun gather_leaves :: "nat \<Rightarrow> nat \<Rightarrow> avjobs_sys \<Rightarrow> avjobs_sys" where
  "gather_leaves i 0 s = s"
| "gather_leaves i (Suc k) s =
     gather_leaves (Suc i) k (case leaves s i of None \<Rightarrow> s
       | Some l \<Rightarrow> s\<lparr>total := total s + leaf_values s (job_context (jobs s l)), seen := seen s + 1\<rparr>)"

definition parent_func :: "build \<Rightarrow> avjobs_sys \<Rightarrow> nat \<Rightarrow> int \<times> avjobs_sys" where
  "parent_func b s job =
     (if phase (jobs s job) = 0
      then (case make_leaves job 0 LEAF_COUNT s of
              None \<Rightarrow> (-1, s)
            | Some s1 \<Rightarrow>
                let s2 = schedi_job_required_available_jobs b s1 job (int LEAF_COUNT);
                    s3 = launch_leaves b 0 LEAF_COUNT s2
                in (1, upd_job job (\<lambda>x. x\<lparr>phase := 1\<rparr>) s3))
      else if phase (jobs s job) = 1 then (-1, gather_leaves 0 LEAF_COUNT s)
      else (-1, s))"

definition avjobs_run :: "build \<Rightarrow> avjobs_sys \<Rightarrow> nat \<Rightarrow> int \<times> avjobs_sys" where
  "avjobs_run b s job = (if run_fn (jobs s job) = leaf_fn then leaf_func s job else parent_func b s job)"

text \<open>\<^verbatim>\<open>main\<close> up to the wait for completion.\<close>

definition avjobs_static :: avjobs_sys where
  "avjobs_static = jobsys.extend static_jobsys
     \<lparr>leaf_values = (\<lambda>_. 0), leaves = (\<lambda>_. None), total = 0, seen = 0\<rparr>"

definition avjobs_main :: "build \<Rightarrow> (nat \<times> avjobs_sys) option" where
  "avjobs_main b =
     (let s = sections_init avjobs_static
      in (case schedi_job_create s 0 parent_fn None of
            (None, _) \<Rightarrow> None
          | (Some parent, s1) \<Rightarrow>
              let s2 = schedi_completion_indicator_init s1 parent_indicator;
                  s3 = upd_job parent (\<lambda>x. x\<lparr>completion_indicator := Some parent_indicator\<rparr>) s2
              in Some (parent, snd (schedi_job_setready b s3 parent))))"

section \<open>The jobs while the parent waits\<close>

text \<open>The value of leaf \<open>i\<close> after \<open>a\<close> runs; after the third one it is gone.\<close>

definition leaf_value :: "nat \<Rightarrow> nat \<Rightarrow> int" where
  "leaf_value i a = (let v = (int i + 1) * 5 in if a = 0 then v else if a = 1 then v + 10 else (v + 10) * 2)"

definition leaf_ok :: "nat \<Rightarrow> nat \<Rightarrow> nat \<Rightarrow> nat \<Rightarrow> avjobs_sys \<Rightarrow> bool" where
  "leaf_ok p j i a s \<longleftrightarrow> job_context (jobs s j) = i \<and> leaf_values s i = leaf_value i a \<and> leaves s i = Some j \<and> a \<le> 3
     \<and> (a < 3 \<longrightarrow> claimed s j \<and> run_fn (jobs s j) = leaf_fn \<and> phase (jobs s j) = int a
          \<and> requested_job (jobs s j) = Some p \<and> requested_job_gen (jobs s j) = gen (jobs s p)
          \<and> completion_indicator (jobs s j) = None \<and> required_available_sockets (jobs s j) = 0
          \<and> required_available_jobs (jobs s j) = 0 \<and> runnable 0 0 (meta s j))"

definition parent_ok :: "nat \<Rightarrow> nat \<Rightarrow> avjobs_sys \<Rightarrow> bool" where
  "parent_ok p k s \<longleftrightarrow> claimed s p \<and> run_fn (jobs s p) = parent_fn \<and> phase (jobs s p) = 1
     \<and> requested_job (jobs s p) = None \<and> completion_indicator (jobs s p) = Some parent_indicator
     \<and> required_available_sockets (jobs s p) = 0 \<and> required_available_jobs (jobs s p) = int LEAF_COUNT
     \<and> join_word 0 LEAF_COUNT k True (meta s p) \<and> \<not> bit (meta s p) 2
     \<and> SCHEDI_JOB_METAFLAG_GETACCESS (meta s p) = 0"

text \<open>The leaves that are still there are ready; the parent is ready when none is left.\<close>

definition finished :: "(nat \<Rightarrow> nat) \<Rightarrow> nat" where
  "finished a = card {i. i < LEAF_COUNT \<and> a i = 3}"

definition in_cache :: "nat \<Rightarrow> (nat \<Rightarrow> nat) \<Rightarrow> (nat \<Rightarrow> nat) \<Rightarrow> nat \<Rightarrow> bool" where
  "in_cache p l a j \<longleftrightarrow> (\<exists>i < LEAF_COUNT. j = l i \<and> a i < 3) \<or> j = p \<and> finished a = LEAF_COUNT"

definition gathering :: "nat \<Rightarrow> (nat \<Rightarrow> nat) \<Rightarrow> (nat \<Rightarrow> nat) \<Rightarrow> avjobs_sys \<Rightarrow> bool" where
  "gathering p l a s \<longleftrightarrow> small s \<and> inj_on l {..<LEAF_COUNT} \<and> (\<forall>i < LEAF_COUNT. l i \<noteq> p)
     \<and> (\<forall>j. count (ready_bag s) j = of_bool (in_cache p l a j))
     \<and> parent_ok p (finished a) s \<and> (\<forall>i < LEAF_COUNT. leaf_ok p (l i) i (a i) s)
     \<and> total s = 0 \<and> seen s = 0 \<and> \<not> completed s parent_indicator"

lemma finished_le: "finished a \<le> LEAF_COUNT"
  using card_mono[of "{..<LEAF_COUNT}" "{i. i < LEAF_COUNT \<and> a i = 3}"] by (auto simp: finished_def)

lemma finished_all: "finished a = LEAF_COUNT \<longleftrightarrow> (\<forall>i < LEAF_COUNT. a i = 3)"
proof -
  have sub: "{i. i < LEAF_COUNT \<and> a i = 3} \<subseteq> {..<LEAF_COUNT}" by auto
  have "finished a = LEAF_COUNT \<longleftrightarrow> {i. i < LEAF_COUNT \<and> a i = 3} = {..<LEAF_COUNT}"
    unfolding finished_def using card_subset_eq[OF finite_lessThan sub] by (metis card_lessThan)
  also have "\<dots> \<longleftrightarrow> (\<forall>i < LEAF_COUNT. a i = 3)" using sub by blast
  finally show ?thesis .
qed

lemma finished_step:
  assumes "i < LEAF_COUNT" "a i < 3"
  shows "finished (a(i := Suc (a i))) = (if a i = 2 then Suc (finished a) else finished a)" "finished a < LEAF_COUNT"
proof -
  have "{j. j < LEAF_COUNT \<and> (a(i := Suc (a i))) j = 3} =
      (if a i = 2 then insert i {j. j < LEAF_COUNT \<and> a j = 3} else {j. j < LEAF_COUNT \<and> a j = 3})"
    using assms by auto
  then show "finished (a(i := Suc (a i))) = (if a i = 2 then Suc (finished a) else finished a)"
    using assms(2) by (simp add: finished_def)
  show "finished a < LEAF_COUNT" using finished_le[of a] finished_all[of a] assms by force
qed

text \<open>The word of the parent when it is told of a finished job.\<close>

lemma update_access:
  assumes "cas_update_body rs rj sd wd jd flag bn ba m = CasTry d x" "quiet_flag flag"
  shows "SCHEDI_JOB_METAFLAG_GETACCESS (if c then d OR SCHEDI_JOB_METAFLAG_READY else d) = SCHEDI_JOB_METAFLAG_GETACCESS m"
    and "bit (if c then d OR SCHEDI_JOB_METAFLAG_READY else d) 2 = (bit m 2 \<or> bit flag 2)"
proof -
  note t = cas_update_body_tryD[OF assms(1)]
  have "basic_flag flag" using assms(2) by (simp add: quiet_flag_def)
  from cas_update_desired_fields(4)[OF t(1-6) this t(7)] cas_update_swap_bits(4)[OF assms]
  show "SCHEDI_JOB_METAFLAG_GETACCESS (if c then d OR SCHEDI_JOB_METAFLAG_READY else d) = SCHEDI_JOB_METAFLAG_GETACCESS m"
    "bit (if c then d OR SCHEDI_JOB_METAFLAG_READY else d) 2 = (bit m 2 \<or> bit flag 2)"
    by (simp_all add: access_of_flags bit_or_iff bit_flags)
qed

lemma notified_join:
  assumes "join_word rs n k r m" "k < n" "n \<le> 15"
  shows "join_word rs n (Suc k) r (notified_word rs (int n) m)"
    and "bit (notified_word rs (int n) m) 2 = bit m 2"
    and "SCHEDI_JOB_METAFLAG_GETACCESS (notified_word rs (int n) m) = SCHEDI_JOB_METAFLAG_GETACCESS m"
proof -
  have pre: "settled m" "\<not> bit m 5" "SCHEDI_JOB_METAFLAG_GETWAIT m = 0" "rs \<le> uint (SCHEDI_JOB_METAFLAG_GETAVSOCK m)"
    "uint (SCHEDI_JOB_METAFLAG_GETAVJOBS m) = int k" "k + 1 \<le> 15" "\<not> schedi_job_meta_flag_check_allready m"
    using assms by (auto simp: join_word_def allready_iff derived_ok_bits)
  obtain d x where d: "cas_update_body rs (int n) 0 0 (int 1) 0 0 False m = CasTry d x"
    "join_word rs n (k + 1) (bit m 6 \<or> bit (0 :: u32) 6) (if becomes_ready m d then d OR SCHEDI_JOB_METAFLAG_READY else d)"
    by (rule join_update[OF pre(1-6) quiet_flags(1) disjI1[OF refl] pre(7)])
  note t = cas_update_body_tryD[OF d(1)]
  have nw: "notified_word rs (int n) m = (if becomes_ready m d then d OR SCHEDI_JOB_METAFLAG_READY else d)"
    using t(7) by (simp add: notified_word_def)
  show "join_word rs n (Suc k) r (notified_word rs (int n) m)" using d(2) assms(1) by (simp add: nw join_word_def)
  show "bit (notified_word rs (int n) m) 2 = bit m 2"
    "SCHEDI_JOB_METAFLAG_GETACCESS (notified_word rs (int n) m) = SCHEDI_JOB_METAFLAG_GETACCESS m"
    using update_access[OF d(1) quiet_flags(1)] by (simp_all add: nw)
qed

text \<open>The word of the parent when it has returned from its function.\<close>

lemma resumed_join:
  assumes "join_word rs n k False m" "k < n"
    and w_def: "w = resumed_word (m AND NOT SCHEDI_JOB_METAFLAG_EXECUTING)"
  shows "join_word rs n k True w" "\<not> bit w 2" "\<not> bit w 5"
    and "SCHEDI_JOB_METAFLAG_GETACCESS w = SCHEDI_JOB_METAFLAG_GETACCESS m"
proof -
  let ?m = "m AND NOT SCHEDI_JOB_METAFLAG_EXECUTING"
  have "\<not> bit m 21" using assms(1,2) by (auto simp: join_word_def derived_ok_bits)
  then have "w = ?m OR SCHEDI_JOB_METAFLAG_READYBASIC"
    by (simp add: w_def resumed_word_def Let_def allready_iff bit_or_iff bit_and_iff bit_flags)
  then have wb: "bit w i \<longleftrightarrow> i = 6 \<or> bit m i \<and> i \<noteq> 2" if "i < 32" for i
    using that by (auto simp: bit_or_iff bit_and_iff bit_not_iff bit_flags)
  have "SCHEDI_JOB_METAFLAG_GETWAIT w = SCHEDI_JOB_METAFLAG_GETWAIT m"
    "SCHEDI_JOB_METAFLAG_GETAVSOCK w = SCHEDI_JOB_METAFLAG_GETAVSOCK m"
    "SCHEDI_JOB_METAFLAG_GETAVJOBS w = SCHEDI_JOB_METAFLAG_GETAVJOBS m"
    by (rule get_cong; simp add: wb)+
  moreover have "derived_ok rs (int n) w = derived_ok rs (int n) m" by (rule derived_ok_cong) (simp add: wb)
  ultimately show "join_word rs n k True w" using assms(1,2) by (simp add: join_word_def settled_iff wb)
  show "\<not> bit w 2" "\<not> bit w 5" using assms(1) by (simp_all add: wb join_word_def)
  show "SCHEDI_JOB_METAFLAG_GETACCESS w = SCHEDI_JOB_METAFLAG_GETACCESS m" by (rule get_cong) (simp add: wb)
qed

lemma entered_room:
  assumes "small s" "entered s j u"
  shows "size (ready_bag u) < SCHEDI_JOBS_CACHE_CHECK"
proof -
  have "size (ready_bag u) = size (ready_bag s) - 1" "0 < size (ready_bag s)"
    using assms(2) by (auto simp: entered_def size_Diff_submset nonempty_has_size[symmetric])
  moreover have "size (ready_bag s) \<le> SCHEDI_JOBS_CACHE_CHECK" using assms(1) by (simp add: small_def)
  ultimately show ?thesis by linarith
qed

section \<open>A run of a leaf\<close>

text \<open>What has to be shown after a run of leaf \<open>i\<close>.\<close>

lemma gathering_step:
  assumes g: "gathering p l a s" and i: "i < LEAF_COUNT" "a i < 3"
    and "small s'" "ready_bag s' = (ready_bag s - {#l i#}) + (if a i < 2 then {#l i#}
        else if Suc (finished a) = LEAF_COUNT then {#p#} else {#})"
    and other: "\<And>j. j \<noteq> l i \<Longrightarrow> j \<noteq> p \<Longrightarrow> jobs s' j = jobs s j" and "gen (jobs s' p) = gen (jobs s p)"
    and "free_slots s' \<subseteq> insert (l i) (free_slots s)"
    and "parent_ok p (finished (a(i := Suc (a i)))) s'" "leaf_ok p (l i) i (Suc (a i)) s'"
    and "\<And>k. k \<noteq> i \<Longrightarrow> leaf_values s' k = leaf_values s k" "leaves s' = leaves s"
    and "total s' = total s" "seen s' = seen s" "\<not> completed s' parent_indicator"
  shows "gathering p l (a(i := Suc (a i))) s'"
proof -
  have l: "inj_on l {..<LEAF_COUNT}" "\<And>k. k < LEAF_COUNT \<Longrightarrow> l k \<noteq> p"
    and cnt: "\<And>j. count (ready_bag s) j = of_bool (in_cache p l a j)"
    and lf: "\<And>k. k < LEAF_COUNT \<Longrightarrow> leaf_ok p (l k) k (a k) s" and "total s = 0" "seen s = 0"
    using g by (simp_all add: gathering_def)
  have leaf: "leaf_ok p (l k) k ((a(i := Suc (a i))) k) s'" if k: "k < LEAF_COUNT" for k
  proof (cases "k = i")
    case False
    then have "l k \<noteq> l i" using l(1) k i(1) by (auto simp: inj_on_def)
    then show ?thesis using lf[OF k] other[of "l k"] l(2)[OF k] assms(7,8,11,12) False by (auto simp: leaf_ok_def)
  qed (use assms(10) in simp)
  note fs = finished_step[of i a, OF i]
  have only: "k = i" if "k < LEAF_COUNT" "l k = l i" for k using l(1) i(1) that by (auto simp: inj_on_def)
  have "count (ready_bag s') j = of_bool (in_cache p l (a(i := Suc (a i))) j)" for j
  proof -
    consider "j = l i" | "j = p" | "j \<noteq> l i" "j \<noteq> p" by blast
    then show ?thesis
    proof cases
      case 1
      moreover have "in_cache p l a (l i)" using i by (auto simp: in_cache_def)
      moreover have "in_cache p l (a(i := Suc (a i))) (l i) \<longleftrightarrow> a i < 2"
        using i l(2) by (auto simp: in_cache_def dest: only)
      ultimately show ?thesis using cnt[of "l i"] l(2)[OF i(1)] by (simp add: assms(5))
    next
      case 2
      then have "\<not> in_cache p l a j" using fs(2) l(2) by (auto simp: in_cache_def)
      moreover have "in_cache p l (a(i := Suc (a i))) p \<longleftrightarrow> \<not> a i < 2 \<and> Suc (finished a) = LEAF_COUNT"
        using fs i l(2) by (auto simp: in_cache_def)
      ultimately show ?thesis using 2 cnt[of p] l(2)[OF i(1)] by (auto simp: assms(5))
    next
      case 3
      then have "in_cache p l (a(i := Suc (a i))) j = in_cache p l a j" by (auto simp: in_cache_def)
      then show ?thesis using 3 cnt[of j] by (auto simp: assms(5))
    qed
  qed
  then show ?thesis
    unfolding gathering_def using assms(4,9,13-15) l leaf \<open>total s = 0\<close> \<open>seen s = 0\<close> by simp
qed

text \<open>The first two runs.\<close>

lemma leaf_resumes:
  assumes g: "gathering p l a s" and i: "i < LEAF_COUNT" "a i < 2" and e: "entered s (l i) u"
    and s': "s' = worker_continue b (case avjobs_run b u (l i) of (ret, t) \<Rightarrow>
       if ret < 0 then finish_job b (l i) t
       else if ret = 1 then snd (schedi_job_mark_readybasic b (suspended (l i) t) (l i)) else suspended (l i) t)"
  shows "gathering p l (a(i := Suc (a i))) s'"
proof -
  have i3: "a i < 3" using i(2) by simp
  have lf: "leaf_ok p (l i) i (a i) s" and p: "l i \<noteq> p" and sm: "small s"
    and pk: "parent_ok p (finished a) s" using g i by (simp_all add: gathering_def)
  have u: "small u" "ready_bag u = ready_bag s - {#l i#}" "free_slots u = free_slots s" "completed u = completed s"
    "jobs u = (jobs s)(l i := (jobs s (l i))\<lparr>state := schedi_job_state_working,
       meta_flag := entered_word (meta s (l i))\<rparr>)" "jobsys.more u = jobsys.more s"
    using e by (simp_all add: entered_def)
  have um: "leaf_values u = leaf_values s" "leaves u = leaves s" "total u = total s" "seen u = seen s"
    using u(6) by (cases u; cases s; simp)+
  define t where "t = upd_job (l i) (\<lambda>x. x\<lparr>phase := int (Suc (a i))\<rparr>)
    (u\<lparr>leaf_values := (leaf_values u)(i := leaf_value i (Suc (a i)))\<rparr>)"
  have "avjobs_run b u (l i) = (1, t)"
    using lf i(2) u(5) um(1) by (cases "a i")
      (auto simp: avjobs_run_def leaf_func_def leaf_ok_def t_def leaf_value_def Let_def)
  then have s'_eq: "s' = worker_continue b (snd (schedi_job_mark_readybasic b (suspended (l i) t) (l i)))"
    by (simp add: s')
  have small_t: "small t" using u(1) small_cong[of t u] by (simp add: t_def)
  have bag_t: "ready_bag t = ready_bag s - {#l i#}" using u(2) by (simp add: t_def)
  have jt: "jobs t = (jobs s)(l i := (jobs s (l i))\<lparr>state := schedi_job_state_working,
      phase := int (Suc (a i)), meta_flag := entered_word (meta s (l i))\<rparr>)" by (simp add: t_def u(5) fun_eq_iff)
  have ru: "runnable 0 0 (meta s (l i))" and cl: "claimed s (l i)"
    and th: "required_available_sockets (jobs t (l i)) = 0" "required_available_jobs (jobs t (l i)) = 0"
    using lf i3 by (simp_all add: leaf_ok_def jt)
  define w where "w = resumed_word (meta t (l i) AND NOT SCHEDI_JOB_METAFLAG_EXECUTING)"
  have wt: "settled (meta t (l i))" "\<not> bit (meta t (l i)) 5" "\<not> bit (meta t (l i)) 6"
    "derived_ok (required_available_sockets (jobs t (l i))) (required_available_jobs (jobs t (l i))) (meta t (l i))"
    using ru by (simp_all add: th) (simp_all add: jt runnable_def entered_fields)
  have pre: "size (ready_bag t) < SCHEDI_JOBS_CACHE_CHECK" "claimed t (l i)"
    using entered_room[OF sm e] u(2,3) bag_t cl by (simp_all add: t_def)
  note r = pass_resumes[OF small_t pre wt w_def s'_eq]
  have rw: "runnable 0 0 w" "bit w 5" using resumed_runnable[OF ru, of w] by (simp_all add: w_def jt)
  obtain st where js: "jobs s' = (jobs s)(l i := (jobs s (l i))\<lparr>phase := int (Suc (a i)), state := st, meta_flag := w\<rparr>)"
    using r(3) by (auto simp: jt)
  have fr: "free_slots s' = free_slots s" "completed s' = completed s"
    using r(4,5) u(3,4) by (simp_all add: t_def)
  have mem: "leaf_values s' = (leaf_values s)(i := leaf_value i (Suc (a i)))" "leaves s' = leaves s"
    "total s' = total s" "seen s' = seen s"
    using r(6) um by (cases s'; cases u; simp add: t_def upd_job_def)+
  show ?thesis
  proof (rule gathering_step[OF g i(1) i3 r(1)])
    show "ready_bag s' = (ready_bag s - {#l i#}) + (if a i < 2 then {#l i#}
        else if Suc (finished a) = LEAF_COUNT then {#p#} else {#})" using r(2) rw(2) i(2) bag_t by simp
    show "parent_ok p (finished (a(i := Suc (a i)))) s'"
      using pk p finished_step(1)[of i a] i(1) i3 i(2) js fr by (simp add: parent_ok_def)
    show "leaf_ok p (l i) i (Suc (a i)) s'" using lf i3 js fr(1) mem rw(1) p by (simp add: leaf_ok_def)
    show "\<not> completed s' parent_indicator" using g fr(2) by (simp add: gathering_def)
  qed (use js fr mem p in auto)
qed

text \<open>The third run, after which the leaf is gone and the parent has been told.\<close>

lemma leaf_finishes:
  assumes addr: "addr_ok (job_addr b)" and g: "gathering p l a s" and i: "i < LEAF_COUNT" "a i = 2"
    and e: "entered s (l i) u"
    and s': "s' = worker_continue b (case avjobs_run b u (l i) of (ret, t) \<Rightarrow>
       if ret < 0 then finish_job b (l i) t
       else if ret = 1 then snd (schedi_job_mark_readybasic b (suspended (l i) t) (l i)) else suspended (l i) t)"
  shows "gathering p l (a(i := Suc (a i))) s'"
proof -
  have i3: "a i < 3" using i(2) by simp
  have lf: "leaf_ok p (l i) i (a i) s" and p: "p \<noteq> l i" and sm: "small s"
    and pk: "parent_ok p (finished a) s" using g i(1) by (auto simp: gathering_def)
  have u: "small u" "ready_bag u = ready_bag s - {#l i#}" "free_slots u = free_slots s" "completed u = completed s"
    "jobs u = (jobs s)(l i := (jobs s (l i))\<lparr>state := schedi_job_state_working,
       meta_flag := entered_word (meta s (l i))\<rparr>)" "jobsys.more u = jobsys.more s"
    using e by (simp_all add: entered_def)
  have um: "leaf_values u = leaf_values s" "leaves u = leaves s" "total u = total s" "seen u = seen s"
    using u(6) by (cases u; cases s; simp)+
  have "avjobs_run b u (l i) = (-1, u)"
    using lf i(2) u(5) by (simp add: avjobs_run_def leaf_func_def leaf_ok_def Let_def)
  then have s'_eq: "s' = worker_continue b (finish_job b (l i) u)" by (simp add: s')
  have "runnable 0 0 (meta s (l i))" using lf i3 by (simp add: leaf_ok_def)
  then have wu: "settled (meta u (l i))" "\<not> bit (meta u (l i)) 5" "\<not> bit (meta u (l i)) 6"
    "SCHEDI_JOB_METAFLAG_GETACCESS (meta u (l i)) = 0"
    by (simp_all add: u(5) runnable_def entered_fields)
  have cl: "claimed u (l i)" "requested_job (jobs u (l i)) = Some p"
    "gen (jobs u p) = requested_job_gen (jobs u (l i))" "completion_indicator (jobs u (l i)) = None"
    using lf i3 p by (simp_all add: leaf_ok_def u(3,5))
  have less: "finished a < LEAF_COUNT" using finished_step(2)[of i a] i(1) i3 by simp
  have le15: "LEAF_COUNT \<le> 15" by (simp add: LEAF_COUNT_def)
  have jw: "join_word 0 LEAF_COUNT (finished a) True (meta s p)" using pk by (simp add: parent_ok_def)
  have pu: "claimed u p" "settled (meta u p)" "\<not> bit (meta u p) 5"
    "SCHEDI_JOB_METAFLAG_GETACCESS (meta u p) \<noteq> 15" "uint (SCHEDI_JOB_METAFLAG_GETAVJOBS (meta u p)) < 15"
    using pk p less le15 by (simp_all add: parent_ok_def join_word_def u(3,5))
  define m where "m = notified_word (required_available_sockets (jobs u p)) (required_available_jobs (jobs u p)) (meta u p)"
  note f = pass_finishes_child[OF addr u(1) cl(1) entered_room[OF sm e] wu cl(2) p cl(3) pu m_def s'_eq]
  have m: "m = notified_word 0 (int LEAF_COUNT) (meta s p)" using pk p by (simp add: m_def u(5) parent_ok_def)
  note nj = notified_join[OF jw less le15, folded m]
  obtain x st where js: "jobs s' = (jobs u)(p := (jobs u p)\<lparr>state := st, meta_flag := m\<rparr>, l i := x)"
    "done_job (jobs u (l i)) x" using f(4) by blast
  have jp: "jobs s' p = (jobs s p)\<lparr>state := st, meta_flag := m\<rparr>" using js(1) p by (simp add: u(5))
  have m5: "bit m 5 \<longleftrightarrow> Suc (finished a) = LEAF_COUNT" using nj(1) less by (auto simp: join_word_def)
  have mem: "leaf_values s' = leaf_values s" "leaves s' = leaves s" "total s' = total s" "seen s' = seen s"
    using f(6) um by (cases s'; cases u; simp)+
  have fr: "free_slots s' \<subseteq> insert (l i) (free_slots s)" "completed s' = completed s"
    using f(3,5) cl(4) u(3,4) by (simp_all add: indicated_def)
  show ?thesis
  proof (rule gathering_step[OF g i(1) i3 f(1)])
    show "ready_bag s' = (ready_bag s - {#l i#}) + (if a i < 2 then {#l i#}
        else if Suc (finished a) = LEAF_COUNT then {#p#} else {#})" using f(2) m5 u(2) i(2) by simp
    show "parent_ok p (finished (a(i := Suc (a i)))) s'"
      using pk p finished_step(1)[of i a] i i3 jp fr nj by (auto simp: parent_ok_def)
    show "leaf_ok p (l i) i (Suc (a i)) s'"
      using lf i(2) js mem by (simp add: leaf_ok_def done_job_def u(5) leaf_value_def)
    show "\<not> completed s' parent_indicator" using g fr(2) by (simp add: gathering_def)
    show "jobs s' j = jobs s j" if "j \<noteq> l i" "j \<noteq> p" for j using that js(1) by (simp add: u(5))
  qed (use jp fr mem in \<open>simp_all\<close>)
qed

lemma gather_progress:
  assumes addr: "addr_ok (job_addr b)" and g: "gathering p l a s" and k: "sum a {..<LEAF_COUNT} < 3 * LEAF_COUNT"
  shows "\<exists>a'. gathering p l a' (pass b (avjobs_run b) s) \<and> sum a' {..<LEAF_COUNT} = Suc (sum a {..<LEAF_COUNT})"
proof -
  have sm: "small s" and cnt: "\<And>j. count (ready_bag s) j = of_bool (in_cache p l a j)"
    and lf: "\<And>i. i < LEAF_COUNT \<Longrightarrow> leaf_ok p (l i) i (a i) s" using g by (simp_all add: gathering_def)
  have bag: "j \<in># ready_bag s \<longleftrightarrow> in_cache p l a j" for j
    unfolding count_greater_zero_iff[symmetric] cnt by simp
  have "\<exists>i < LEAF_COUNT. a i < 3"
  proof (rule ccontr)
    assume "\<not> (\<exists>i < LEAF_COUNT. a i < 3)"
    then have "3 \<le> a i" if "i \<in> {..<LEAF_COUNT}" for i using that not_less by auto
    then have "sum (\<lambda>_. 3) {..<LEAF_COUNT} \<le> sum a {..<LEAF_COUNT}" by (rule sum_mono)
    with k show False by simp
  qed
  then obtain k where k: "k < LEAF_COUNT" "a k < 3" by blast
  then have nf: "finished a \<noteq> LEAF_COUNT" using finished_step(2)[of k a] by simp
  have ne: "ready_bag s \<noteq> {#}" using k bag[of "l k"] by (auto simp: in_cache_def)
  have leaf: "\<exists>i < LEAF_COUNT. j = l i \<and> a i < 3" if "j \<in># ready_bag s" for j
    using that nf unfolding bag in_cache_def by blast
  have free: "settled (meta s j) \<and> \<not> bit (meta s j) 2 \<and> SCHEDI_JOB_METAFLAG_GETACCESS (meta s j) \<noteq> 15"
    if "j \<in># ready_bag s" for j
    using leaf[OF that] lf by (auto simp: leaf_ok_def runnable_def)
  obtain j u where e: "entered s j u" and w: "worker_pass b (avjobs_run b) False s = (WorkerNext,
      worker_continue b (case avjobs_run b u j of (ret, t) \<Rightarrow>
       if ret < 0 then finish_job b j t
       else if ret = 1 then snd (schedi_job_mark_readybasic b (suspended j t) j) else suspended j t))"
    by (rule pass_enters[OF sm ne free])
  from leaf[of j] e obtain i where i: "i < LEAF_COUNT" "j = l i" "a i < 3" by (auto simp: entered_def)
  have "gathering p l (a(i := Suc (a i))) (pass b (avjobs_run b) s)"
  proof (cases "a i = 2")
    case True
    show ?thesis by (rule leaf_finishes[OF addr g i(1) True e[unfolded i(2)]]) (simp add: pass_def w[unfolded i(2)])
  next
    case False
    then have i2: "a i < 2" using i(3) by simp
    show ?thesis by (rule leaf_resumes[OF g i(1) i2 e[unfolded i(2)]]) (simp add: pass_def w[unfolded i(2)])
  qed
  moreover have "sum (a(i := Suc (a i))) {..<LEAF_COUNT} = Suc (sum a {..<LEAF_COUNT})"
    using i(1) by (simp add: sum.remove[of _ i] fun_upd_def)
  ultimately show ?thesis by blast
qed

lemma gather_all:
  assumes "addr_ok (job_addr b)" "gathering p l (\<lambda>_. 0) s" "c \<le> 3 * LEAF_COUNT"
  shows "\<exists>a. gathering p l a ((pass b (avjobs_run b) ^^ c) s) \<and> sum a {..<LEAF_COUNT} = c"
  using assms(3)
proof (induction c)
  case 0
  then show ?case using assms(2) by (intro exI[of _ "\<lambda>_. 0"]) simp
next
  case (Suc c)
  then obtain a where a: "gathering p l a ((pass b (avjobs_run b) ^^ c) s)" "sum a {..<LEAF_COUNT} = c" by auto
  from gather_progress[OF assms(1) a(1)] a(2) Suc.prems show ?case by auto
qed

section \<open>The parent gathers the results\<close>

lemma all_finished:
  assumes "gathering p l a s" "sum a {..<LEAF_COUNT} = 3 * LEAF_COUNT"
  shows "\<forall>i < LEAF_COUNT. a i = 3"
proof (rule ccontr)
  assume "\<not> (\<forall>i < LEAF_COUNT. a i = 3)"
  then obtain i where i: "i < LEAF_COUNT" "a i \<noteq> 3" by blast
  have le: "a j \<le> 3" if "j < LEAF_COUNT" for j using assms(1) that by (auto simp: gathering_def leaf_ok_def)
  have "a i < 3" using le[OF i(1)] i(2) by simp
  then have "sum a {..<LEAF_COUNT} < sum (\<lambda>_. 3) {..<LEAF_COUNT}"
    using i(1) le by (intro sum_strict_mono_ex1) (auto intro!: bexI[of _ i])
  with assms(2) show False by simp
qed

lemma parent_gathers:
  assumes addr: "addr_ok (job_addr b)" and g: "gathering p l a s" and all: "\<forall>i < LEAF_COUNT. a i = 3"
    and s': "s' = pass b (avjobs_run b) s"
  shows "completed s' parent_indicator" "total s' = 70" "seen s' = int LEAF_COUNT" "ready_bag s' = {#}"
proof -
  have sm: "small s" and cnt: "\<And>j. count (ready_bag s) j = of_bool (in_cache p l a j)"
    and lf: "\<And>i. i < LEAF_COUNT \<Longrightarrow> leaf_ok p (l i) i (a i) s" and pk: "parent_ok p LEAF_COUNT s"
    and z: "total s = 0" "seen s = 0" and np: "\<And>i. i < LEAF_COUNT \<Longrightarrow> l i \<noteq> p"
    using g all finished_all[of a] by (simp_all add: gathering_def)
  have bag: "ready_bag s = {#p#}"
    using cnt all finished_all[of a] by (intro multiset_eqI) (simp add: in_cache_def)
  have free: "settled (meta s p)" "\<not> bit (meta s p) 2" "SCHEDI_JOB_METAFLAG_GETACCESS (meta s p) = 0"
    using pk by (simp_all add: parent_ok_def join_word_def)
  obtain j u where e: "entered s j u" and w: "worker_pass b (avjobs_run b) False s = (WorkerNext,
      worker_continue b (case avjobs_run b u j of (ret, t) \<Rightarrow>
       if ret < 0 then finish_job b j t
       else if ret = 1 then snd (schedi_job_mark_readybasic b (suspended j t) j) else suspended j t))"
    by (rule pass_enters[OF sm]) (use bag free in simp_all)
  have j: "j = p" using e bag by (simp add: entered_def)
  have u: "small u" "ready_bag u = {#}" "free_slots u = free_slots s" "completed u = completed s"
    "jobs u = (jobs s)(p := (jobs s p)\<lparr>state := schedi_job_state_working,
       meta_flag := entered_word (meta s p)\<rparr>)" "jobsys.more u = jobsys.more s"
    using e bag by (simp_all add: entered_def j)
  have um: "leaf_values u = leaf_values s" "leaves u = leaves s" "total u = total s" "seen u = seen s"
    using u(6) by (cases u; cases s; simp)+
  define t where "t = gather_leaves 0 LEAF_COUNT u"
  have t: "t = u\<lparr>total := 70, seen := 2\<rparr>"
    using lf[of 0] lf[of 1] np[of 0] np[of 1] all z um
    by (simp add: t_def LEAF_COUNT_def numeral_2_eq_2 leaf_ok_def u(5) leaf_value_def)
  have "avjobs_run b u p = (-1, t)"
    using pk u(5) by (simp add: avjobs_run_def parent_func_def parent_ok_def t_def leaf_fn_def parent_fn_def)
  then have s'_eq: "s' = worker_continue b (finish_job b p t)" by (simp add: s' pass_def w[unfolded j])
  have small_t: "small t" using u(1) small_cong[of t u] by (simp add: t)
  have jt: "jobs t = jobs u" "free_slots t = free_slots u" "ready_bag t = {#}" using u(2) by (simp_all add: t)
  have pre: "claimed t p" "settled (meta t p)" "\<not> bit (meta t p) 5" "\<not> bit (meta t p) 6"
    "SCHEDI_JOB_METAFLAG_GETACCESS (meta t p) = 0" "requested_job (jobs t p) = None"
    using pk free by (simp_all add: jt u(3,5) parent_ok_def entered_fields)
  note f = pass_finishes[OF addr small_t pre s'_eq]
  show "completed s' parent_indicator" using f(5) pk by (simp add: jt u(5) parent_ok_def indicated_def)
  show "total s' = 70" "seen s' = int LEAF_COUNT"
    using f(6) by (cases s'; cases u; simp add: t LEAF_COUNT_def)+
  show "ready_bag s' = {#}" using f(2) jt(3) by simp
qed

section \<open>The parent launches its jobs\<close>

definition new_leaf :: "nat \<Rightarrow> nat \<Rightarrow> u64 \<Rightarrow> job \<Rightarrow> job" where
  "new_leaf i p g x = (new_job i leaf_fn None x)\<lparr>requested_job := Some p, requested_job_gen := g\<rparr>"

lemma make_leaf:
  assumes "small s" "free_slots s \<noteq> {}"
  obtains s' l where "\<And>k. make_leaves p i (Suc k) s = make_leaves p (Suc i) k s'" "l \<in> free_slots s"
    "l < SCHEDI_MAXIMUM_JOBS" "small s'" "ready_bag s' = ready_bag s" "free_slots s' = free_slots s - {l}"
    "jobs s' = (jobs s)(l := new_leaf i p (gen (jobs s p)) (jobs s l))" "completed s' = completed s"
    "leaf_values s' = (leaf_values s)(i := (int i + 1) * 5)" "leaves s' = (leaves s)(i := Some l)"
    "total s' = total s" "seen s' = seen s"
proof -
  let ?s0 = "s\<lparr>leaf_values := (leaf_values s)(i := (int i + 1) * 5)\<rparr>"
  have "small ?s0" using assms(1) small_cong[of ?s0 s] by simp
  moreover have "free_slots ?s0 \<noteq> {}" using assms(2) by simp
  ultimately obtain l s1 where c: "schedi_job_create ?s0 i leaf_fn None = (Some l, s1)" "l \<in> free_slots ?s0"
    "l < SCHEDI_MAXIMUM_JOBS" "small s1" "ready_bag s1 = ready_bag ?s0" "free_slots s1 = free_slots ?s0 - {l}"
    "jobs s1 = (jobs ?s0)(l := new_job i leaf_fn None (jobs ?s0 l))" "completed s1 = completed ?s0"
    "jobsys.more s1 = jobsys.more ?s0" by (rule create_small)
  have m: "leaf_values s1 = (leaf_values s)(i := (int i + 1) * 5)" "leaves s1 = leaves s" "total s1 = total s" "seen s1 = seen s"
    using c(9) by (cases s1; cases s; simp)+
  define s' where "s' = schedi_job_tool_job (s1\<lparr>leaves := (leaves s1)(i := Some l)\<rparr>) p l"
  have g: "gen (jobs s1 p) = gen (jobs s p)" by (simp add: c(7) new_job_def)
  show ?thesis
  proof (rule that)
    show "make_leaves p i (Suc k) s = make_leaves p (Suc i) k s'" for k using c(1) by (simp add: s'_def Let_def)
    show "small s'" using c(4) small_cong[of s' s1] by (simp add: s'_def schedi_job_tool_job_def)
    show "jobs s' = (jobs s)(l := new_leaf i p (gen (jobs s p)) (jobs s l))"
      using g by (simp add: s'_def schedi_job_tool_job_def c(7) new_leaf_def)
  qed (use c m in \<open>simp_all add: s'_def schedi_job_tool_job_def upd_job_def\<close>)
qed

text \<open>The first loop: two leaves.\<close>

lemma leaves_made:
  assumes "small u" "free_slots u = {..<SCHEDI_MAXIMUM_JOBS} - {p}"
  obtains l0 l1 s where "make_leaves p 0 LEAF_COUNT u = Some s" "l0 \<noteq> p" "l1 \<noteq> p" "l0 \<noteq> l1"
    "l0 < SCHEDI_MAXIMUM_JOBS" "l1 < SCHEDI_MAXIMUM_JOBS" "small s" "ready_bag s = ready_bag u"
    "free_slots s = free_slots u - {l0, l1}" "completed s = completed u"
    "jobs s = (jobs u)(l0 := new_leaf 0 p (gen (jobs u p)) (jobs u l0), l1 := new_leaf 1 p (gen (jobs u p)) (jobs u l1))"
    "leaf_values s = (leaf_values u)(0 := 5, 1 := 10)" "leaves s = (leaves u)(0 := Some l0, 1 := Some l1)"
    "total s = total u" "seen s = seen u"
proof -
  have ne: "{..<SCHEDI_MAXIMUM_JOBS} - A \<noteq> {}" if "finite A" "card A < SCHEDI_MAXIMUM_JOBS" for A
    using that card_mono[of A "{..<SCHEDI_MAXIMUM_JOBS}"] by auto
  have "free_slots u \<noteq> {}" using ne[of "{p}"] by (simp add: assms(2) SCHEDI_MAXIMUM_JOBS_def)
  with assms(1) obtain s1 l0 where
    a: "\<And>k. make_leaves p 0 (Suc k) u = make_leaves p (Suc 0) k s1" "l0 \<in> free_slots u"
    "l0 < SCHEDI_MAXIMUM_JOBS" "small s1" "ready_bag s1 = ready_bag u" "free_slots s1 = free_slots u - {l0}"
    "jobs s1 = (jobs u)(l0 := new_leaf 0 p (gen (jobs u p)) (jobs u l0))" "completed s1 = completed u"
    "leaf_values s1 = (leaf_values u)(0 := (int 0 + 1) * 5)" "leaves s1 = (leaves u)(0 := Some l0)"
    "total s1 = total u" "seen s1 = seen u"
    by (rule make_leaf[of u p 0]) (rule that; assumption)
  have "free_slots s1 = {..<SCHEDI_MAXIMUM_JOBS} - {p, l0}" using a(6) assms(2) by auto
  then have "free_slots s1 \<noteq> {}" using ne[of "{p, l0}"] a(2) assms(2) by (simp add: SCHEDI_MAXIMUM_JOBS_def)
  with a(4) obtain s2 l1 where
    c: "\<And>k. make_leaves p (Suc 0) (Suc k) s1 = make_leaves p (Suc (Suc 0)) k s2" "l1 \<in> free_slots s1"
    "l1 < SCHEDI_MAXIMUM_JOBS" "small s2" "ready_bag s2 = ready_bag s1" "free_slots s2 = free_slots s1 - {l1}"
    "jobs s2 = (jobs s1)(l1 := new_leaf (Suc 0) p (gen (jobs s1 p)) (jobs s1 l1))" "completed s2 = completed s1"
    "leaf_values s2 = (leaf_values s1)(Suc 0 := (int (Suc 0) + 1) * 5)" "leaves s2 = (leaves s1)(Suc 0 := Some l1)"
    "total s2 = total s1" "seen s2 = seen s1"
    by (rule make_leaf[of s1 p "Suc 0"]) (rule that; assumption)
  have l: "l0 \<noteq> p" "l1 \<noteq> p" "l0 \<noteq> l1" using a(2,6) c(2) assms(2) by auto
  have "make_leaves p 0 LEAF_COUNT u = Some s2"
    using a(1)[of 1] c(1)[of 0] by (simp add: LEAF_COUNT_def numeral_2_eq_2)
  then show ?thesis using l a(3) c(3) c(4) by (rule that) (use a c l in auto)
qed

text \<open>The parent asks to wait for them.\<close>

lemma parent_requires:
  assumes "small s" "size (ready_bag s) < SCHEDI_JOBS_CACHE_CHECK" "claimed s p"
    and "required_available_sockets (jobs s p) = 0"
    and m: "settled (meta s p)" "\<not> bit (meta s p) 5" "\<not> bit (meta s p) 6"
      "SCHEDI_JOB_METAFLAG_GETWAIT (meta s p) = 0" "SCHEDI_JOB_METAFLAG_GETAVJOBS (meta s p) = 0"
    and s'_def: "s' = schedi_job_required_available_jobs b s p (int LEAF_COUNT)"
  obtains d where "small s'" "ready_bag s' = ready_bag s"
    "\<exists>st. jobs s' = (jobs s)(p := (jobs s p)\<lparr>required_available_jobs := int LEAF_COUNT, state := st, meta_flag := d\<rparr>)"
    "free_slots s' = free_slots s" "completed s' = completed s" "jobsys.more s' = jobsys.more s"
    "join_word 0 LEAF_COUNT 0 False d" "SCHEDI_JOB_METAFLAG_GETACCESS d = SCHEDI_JOB_METAFLAG_GETACCESS (meta s p)"
proof -
  let ?r = "upd_job p (\<lambda>x. x\<lparr>required_available_jobs := int LEAF_COUNT\<rparr>) s"
  have small_r: "small ?r" using assms(1) small_cong[of ?r s] by simp
  have pre: "SCHEDI_JOB_METAFLAG_GETWAIT (meta ?r p) = 0"
    "required_available_sockets (jobs ?r p) \<le> uint (SCHEDI_JOB_METAFLAG_GETAVSOCK (meta ?r p))"
    "uint (SCHEDI_JOB_METAFLAG_GETAVJOBS (meta ?r p)) = int 0" "0 + 0 \<le> (15 :: nat)"
    "\<not> schedi_job_meta_flag_check_allready (meta ?r p)" "settled (meta ?r p)" "\<not> bit (meta ?r p) 5"
    using m assms(4) by (simp_all add: allready_iff)
  obtain d x where d: "cas_update_body (required_available_sockets (jobs ?r p)) (int LEAF_COUNT) 0 0 (int 0) 0 0 False
      (meta ?r p) = CasTry d x" "join_word (required_available_sockets (jobs ?r p)) LEAF_COUNT (0 + 0)
      (bit (meta ?r p) 6 \<or> bit (0 :: u32) 6) (if becomes_ready (meta ?r p) d then d OR SCHEDI_JOB_METAFLAG_READY else d)"
    by (rule join_update[OF pre(6,7,1-4) quiet_flags(1) disjI1[OF refl] pre(5)])
  have body: "cas_update_body (required_available_sockets (jobs ?r p)) (required_available_jobs (jobs ?r p)) 0 0 0 0 0 False
      (meta ?r p) = CasTry d x" using d(1) by simp
  have s': "s' = snd (schedi_job_meta_flag_cas_update b ?r p 0 0 0 0 0 False)"
    by (simp add: s'_def schedi_job_required_available_jobs_def)
  have "\<not> bit d 6" using cas_update_swap_bits(5)[OF body quiet_flags(1)] m(3) by simp
  then have nr: "\<not> becomes_ready (meta ?r p) d" by (simp add: becomes_ready_def allready_iff)
  have sz: "size (ready_bag ?r) < SCHEDI_JOBS_CACHE_CHECK" "claimed ?r p" using assms(2,3) by simp_all
  note e = update_effect[OF small_r sz quiet_flags(1) pre(6,7) body s']
  show ?thesis
  proof (rule that[of d])
    show "\<exists>st. jobs s' = (jobs s)(p := (jobs s p)\<lparr>required_available_jobs := int LEAF_COUNT, state := st, meta_flag := d\<rparr>)"
      using e(3) nr by simp
    show "SCHEDI_JOB_METAFLAG_GETACCESS d = SCHEDI_JOB_METAFLAG_GETACCESS (meta s p)"
      using update_access(1)[OF body quiet_flags(1), of False] by simp
  qed (use e nr d(2) m(3) assms(4) in \<open>simp_all add: memory\<close>)
qed

text \<open>The second loop: both leaves are made ready.\<close>

lemma leaf_launched:
  assumes "small s" "size (ready_bag s) < SCHEDI_JOBS_CACHE_CHECK" "claimed s l" "meta s l = new_word"
    and s'_def: "s' = snd (schedi_job_setready b s l)"
  shows "small s'" "ready_bag s' = add_mset l (ready_bag s)"
    and "jobs s' = (jobs s)(l := (jobs s l)\<lparr>meta_flag := new_word OR SCHEDI_JOB_METAFLAG_READY,
      state := schedi_job_state_readywaiting\<rparr>)"
    and "free_slots s' = free_slots s" "completed s' = completed s" "jobsys.more s' = jobsys.more s"
proof -
  have w: "settled (meta s l)" "\<not> bit (meta s l) 5" by (simp_all add: assms(4) settled_iff new_word_bits)
  have ok: "cache_ok s" using assms(1) life_inv_sched(2) by (auto simp: small_def)
  show "small s'" unfolding s'_def by (rule setready_small[OF assms(1-3) w])
  show "ready_bag s' = add_mset l (ready_bag s)" "jobs s' = (jobs s)(l := (jobs s l)\<lparr>
      meta_flag := new_word OR SCHEDI_JOB_METAFLAG_READY, state := schedi_job_state_readywaiting\<rparr>)"
    using setready_effect(1,2)[OF ok assms(2) w s'_def] by (simp_all add: assms(4))
  show "free_slots s' = free_slots s" "completed s' = completed s" "jobsys.more s' = jobsys.more s"
    by (simp_all add: s'_def setready_frame memory)
qed

text \<open>Phase 0 of the parent, called in state \<open>u\<close> with no other job around.\<close>

lemma parent_phase0:
  assumes u: "small u" "ready_bag u = {#}" "free_slots u = {..<SCHEDI_MAXIMUM_JOBS} - {p}" "p < SCHEDI_MAXIMUM_JOBS"
    and others: "\<And>j. j \<noteq> p \<Longrightarrow> jobs u j = null_job"
    and ph: "phase (jobs u p) = 0" "required_available_sockets (jobs u p) = 0"
    and m: "settled (meta u p)" "\<not> bit (meta u p) 5" "\<not> bit (meta u p) 6"
      "SCHEDI_JOB_METAFLAG_GETWAIT (meta u p) = 0" "SCHEDI_JOB_METAFLAG_GETAVJOBS (meta u p) = 0"
  obtains l0 l1 t d st where "parent_func b u p = (1, t)" "l0 \<noteq> p" "l1 \<noteq> p" "l0 \<noteq> l1"
    "l0 < SCHEDI_MAXIMUM_JOBS" "l1 < SCHEDI_MAXIMUM_JOBS"
    "small t" "ready_bag t = {#l0, l1#}" "free_slots t = free_slots u - {l0, l1}" "completed t = completed u"
    "jobs t p = (jobs u p)\<lparr>required_available_jobs := int LEAF_COUNT, state := st, meta_flag := d, phase := 1\<rparr>"
    "join_word 0 LEAF_COUNT 0 False d" "SCHEDI_JOB_METAFLAG_GETACCESS d = SCHEDI_JOB_METAFLAG_GETACCESS (meta u p)"
    "jobs t l0 = (new_leaf 0 p (gen (jobs u p)) null_job)\<lparr>meta_flag := new_word OR SCHEDI_JOB_METAFLAG_READY,
       state := schedi_job_state_readywaiting\<rparr>"
    "jobs t l1 = (new_leaf 1 p (gen (jobs u p)) null_job)\<lparr>meta_flag := new_word OR SCHEDI_JOB_METAFLAG_READY,
       state := schedi_job_state_readywaiting\<rparr>"
    "leaf_values t = (leaf_values u)(0 := 5, 1 := 10)" "leaves t = (leaves u)(0 := Some l0, 1 := Some l1)"
    "total t = total u" "seen t = seen u"
proof -
  obtain l0 l1 s where a: "make_leaves p 0 LEAF_COUNT u = Some s" "l0 \<noteq> p" "l1 \<noteq> p" "l0 \<noteq> l1"
    "l0 < SCHEDI_MAXIMUM_JOBS" "l1 < SCHEDI_MAXIMUM_JOBS" "small s" "ready_bag s = ready_bag u"
    "free_slots s = free_slots u - {l0, l1}" "completed s = completed u"
    "jobs s = (jobs u)(l0 := new_leaf 0 p (gen (jobs u p)) (jobs u l0), l1 := new_leaf 1 p (gen (jobs u p)) (jobs u l1))"
    "leaf_values s = (leaf_values u)(0 := 5, 1 := 10)" "leaves s = (leaves u)(0 := Some l0, 1 := Some l1)"
    "total s = total u" "seen s = seen u"
    by (rule leaves_made[OF u(1,3)]) (rule that; assumption)
  have jp: "jobs s p = jobs u p" using a(2,3) by (simp add: a(11))
  have pre: "size (ready_bag s) < SCHEDI_JOBS_CACHE_CHECK" "claimed s p" "required_available_sockets (jobs s p) = 0"
    using a(8,9) u ph(2) jp by (simp_all add: SCHEDI_JOBS_CACHE_CHECK_def)
  define s2 where "s2 = schedi_job_required_available_jobs b s p (int LEAF_COUNT)"
  obtain d where r: "small s2" "ready_bag s2 = ready_bag s"
    "\<exists>st. jobs s2 = (jobs s)(p := (jobs s p)\<lparr>required_available_jobs := int LEAF_COUNT, state := st, meta_flag := d\<rparr>)"
    "free_slots s2 = free_slots s" "completed s2 = completed s" "jobsys.more s2 = jobsys.more s"
    "join_word 0 LEAF_COUNT 0 False d" "SCHEDI_JOB_METAFLAG_GETACCESS d = SCHEDI_JOB_METAFLAG_GETACCESS (meta s p)"
    by (rule parent_requires[OF a(7) pre m[folded jp] s2_def])
  obtain st where j2: "jobs s2 = (jobs s)(p := (jobs s p)\<lparr>required_available_jobs := int LEAF_COUNT, state := st, meta_flag := d\<rparr>)"
    using r(3) by blast
  have mem2: "leaf_values s2 = leaf_values s" "leaves s2 = leaves s" "total s2 = total s" "seen s2 = seen s"
    using r(6) by (cases s2; cases s; simp)+
  define s3 where "s3 = snd (schedi_job_setready b s2 l0)"
  have sz: "size (ready_bag s2) < SCHEDI_JOBS_CACHE_CHECK" "claimed s2 l0" "meta s2 l0 = new_word"
    using r(2,4) a u others by (simp_all add: j2 SCHEDI_JOBS_CACHE_CHECK_def new_leaf_def)
  note f = leaf_launched[OF r(1) sz s3_def]
  define s4 where "s4 = snd (schedi_job_setready b s3 l1)"
  have "size (ready_bag s3) < SCHEDI_JOBS_CACHE_CHECK" "claimed s3 l1" "meta s3 l1 = new_word"
    using f(2,3,4) r(2,4) a u by (simp_all add: j2 SCHEDI_JOBS_CACHE_CHECK_def new_leaf_def)
  note g = leaf_launched[OF f(1) this s4_def]
  have mem4: "leaf_values s4 = leaf_values s2" "leaves s4 = leaves s2" "total s4 = total s2" "seen s4 = seen s2"
    and mem3: "leaves s3 = leaves s2"
    using f(6) g(6) by (cases s4; cases s3; cases s2; simp)+
  have "launch_leaves b 0 LEAF_COUNT s2 = s4"
    using mem2(2) mem3 a(13) by (simp add: LEAF_COUNT_def numeral_2_eq_2 s3_def s4_def)
  then have run: "parent_func b u p = (1, upd_job p (\<lambda>x. x\<lparr>phase := 1\<rparr>) s4)"
    using ph(1) a(1) by (simp add: parent_func_def s2_def Let_def)
  let ?t = "upd_job p (\<lambda>x. x\<lparr>phase := 1\<rparr>) s4"
  show ?thesis
  proof (rule that[OF run a(2-6)])
    show "small ?t" using g(1) small_cong[of ?t s4] by simp
    show "jobs ?t p = (jobs u p)\<lparr>required_available_jobs := int LEAF_COUNT, state := st, meta_flag := d, phase := 1\<rparr>"
      using a(2,3) jp by (simp add: g(3) f(3) j2)
    show "jobs ?t l0 = (new_leaf 0 p (gen (jobs u p)) null_job)\<lparr>meta_flag := new_word OR SCHEDI_JOB_METAFLAG_READY,
        state := schedi_job_state_readywaiting\<rparr>"
      "jobs ?t l1 = (new_leaf 1 p (gen (jobs u p)) null_job)\<lparr>meta_flag := new_word OR SCHEDI_JOB_METAFLAG_READY,
        state := schedi_job_state_readywaiting\<rparr>"
      using a(2-4) others by (simp_all add: g(3) f(3) j2 a(11))
    show "ready_bag ?t = {#l0, l1#}" using g(2) f(2) r(2) a(8) u(2) by simp
    show "SCHEDI_JOB_METAFLAG_GETACCESS d = SCHEDI_JOB_METAFLAG_GETACCESS (meta u p)" using r(8) jp by simp
  qed (use g f r a mem4 mem2 in \<open>simp_all add: upd_job_def\<close>)
qed

text \<open>The first pass runs the parent and leaves it waiting for two ready leaves.\<close>

lemma parent_launches:
  assumes al: "alone s p parent_indicator"
    and js: "jobs s = (\<lambda>_. null_job)(p := (new_job 0 parent_fn None null_job)\<lparr>completion_indicator := Some parent_indicator,
       meta_flag := new_word OR SCHEDI_JOB_METAFLAG_READY, state := schedi_job_state_readywaiting\<rparr>)"
    and fs: "free_slots s = {..<SCHEDI_MAXIMUM_JOBS} - {p}" and z: "total s = 0" "seen s = 0"
  shows "\<exists>l. gathering p l (\<lambda>_. 0) (pass b (avjobs_run b) s)"
proof -
  have sm: "small s" and bag: "ready_bag s = {#p#}" and p: "p < SCHEDI_MAXIMUM_JOBS"
    and ru: "runnable 0 0 (meta s p)" and nc: "\<not> completed s parent_indicator"
    using al by (simp_all add: alone_def js new_job_def)
  obtain j u where e0: "entered s j u" and w0: "worker_pass b (avjobs_run b) False s = (WorkerNext,
      worker_continue b (case avjobs_run b u j of (ret, t) \<Rightarrow>
       if ret < 0 then finish_job b j t
       else if ret = 1 then snd (schedi_job_mark_readybasic b (suspended j t) j) else suspended j t))"
    by (rule pass_enters[OF sm]) (use bag ru in \<open>simp_all add: runnable_def\<close>)
  have j: "j = p" using e0 bag by (simp add: entered_def)
  note e = e0[unfolded j entered_def] and w = w0[unfolded j]
  have u: "small u" "ready_bag u = {#}" "free_slots u = {..<SCHEDI_MAXIMUM_JOBS} - {p}" "completed u = completed s"
    "jobs u p = (jobs s p)\<lparr>state := schedi_job_state_working, meta_flag := entered_word (meta s p)\<rparr>"
    using e bag fs by simp_all
  have um: "total u = 0" "seen u = 0" using e z by (cases u; cases s; simp)+
  have others: "jobs u k = null_job" if "k \<noteq> p" for k using e that by (simp add: js)
  have eb: "bit (entered_word (meta s p)) n \<longleftrightarrow> n \<in> {0, 2, 7, 8, 21}" if "n < 32" for n
    using that new_word_bits[OF that] by (auto simp: js entered_word_bits bit_or_iff bit_flags)
  have ew: "SCHEDI_JOB_METAFLAG_GETWAIT (meta u p) = 0" "SCHEDI_JOB_METAFLAG_GETAVJOBS (meta u p) = 0"
    "SCHEDI_JOB_METAFLAG_GETACCESS (meta u p) = 0"
    by (rule field_eqI; simp add: u(5) field_less_16 bit_getters eb)+
  have mw: "settled (meta u p)" "\<not> bit (meta u p) 5" "\<not> bit (meta u p) 6" using u(5) by (simp_all add: settled_iff eb)
  have ph: "phase (jobs u p) = 0" "required_available_sockets (jobs u p) = 0" "run_fn (jobs u p) = parent_fn"
    "requested_job (jobs u p) = None" "completion_indicator (jobs u p) = Some parent_indicator"
    using u(5) by (simp_all add: js new_job_def)
  obtain l0 l1 t d st where f: "parent_func b u p = (1, t)" "l0 \<noteq> p" "l1 \<noteq> p" "l0 \<noteq> l1"
    "l0 < SCHEDI_MAXIMUM_JOBS" "l1 < SCHEDI_MAXIMUM_JOBS"
    "small t" "ready_bag t = {#l0, l1#}" "free_slots t = free_slots u - {l0, l1}" "completed t = completed u"
    "jobs t p = (jobs u p)\<lparr>required_available_jobs := int LEAF_COUNT, state := st, meta_flag := d, phase := 1\<rparr>"
    "join_word 0 LEAF_COUNT 0 False d" "SCHEDI_JOB_METAFLAG_GETACCESS d = SCHEDI_JOB_METAFLAG_GETACCESS (meta u p)"
    "jobs t l0 = (new_leaf 0 p (gen (jobs u p)) null_job)\<lparr>meta_flag := new_word OR SCHEDI_JOB_METAFLAG_READY,
       state := schedi_job_state_readywaiting\<rparr>"
    "jobs t l1 = (new_leaf 1 p (gen (jobs u p)) null_job)\<lparr>meta_flag := new_word OR SCHEDI_JOB_METAFLAG_READY,
       state := schedi_job_state_readywaiting\<rparr>"
    "leaf_values t = (leaf_values u)(0 := 5, 1 := 10)" "leaves t = (leaves u)(0 := Some l0, 1 := Some l1)"
    "total t = total u" "seen t = seen u"
    by (rule parent_phase0[OF u(1-3) p others ph(1,2) mw ew(1,2), of b]) (assumption, (rule that; assumption))
  have "avjobs_run b u p = (1, t)" using ph(3) f(1) by (simp add: avjobs_run_def leaf_fn_def parent_fn_def)
  then have s': "pass b (avjobs_run b) s = worker_continue b (snd (schedi_job_mark_readybasic b (suspended p t) p))"
    by (simp add: pass_def w)
  define v where "v = resumed_word (meta t p AND NOT SCHEDI_JOB_METAFLAG_EXECUTING)"
  have tp: "meta t p = d" using f(11) by simp
  have LC: "0 < LEAF_COUNT" by (simp add: LEAF_COUNT_def)
  note rj = resumed_join[OF f(12) LC v_def[unfolded tp]]
  have pre: "size (ready_bag t) < SCHEDI_JOBS_CACHE_CHECK" "claimed t p" "settled (meta t p)"
    "\<not> bit (meta t p) 5" "\<not> bit (meta t p) 6"
    "derived_ok (required_available_sockets (jobs t p)) (required_available_jobs (jobs t p)) (meta t p)"
    using f(2,3,8,9,11,12) u(3) p ph(2) by (simp_all add: SCHEDI_JOBS_CACHE_CHECK_def join_word_def)
  note r = pass_resumes[OF f(7) pre v_def s']
  let ?s' = "pass b (avjobs_run b) s"
  obtain st' where j': "jobs ?s' = (jobs t)(p := (jobs t p)\<lparr>state := st', meta_flag := v\<rparr>)" using r(3) by blast
  have mem: "leaf_values ?s' = leaf_values t" "leaves ?s' = leaves t" "total ?s' = total t" "seen ?s' = seen t"
    using r(6) by (cases ?s'; cases t; simp)+
  let ?l = "\<lambda>i. if i = 0 then l0 else l1"
  have two: "i < LEAF_COUNT \<longleftrightarrow> i = 0 \<or> i = 1" for i by (auto simp: LEAF_COUNT_def)
  have fin: "finished (\<lambda>_. 0) = 0" by (simp add: finished_def)
  have parent: "parent_ok p (finished (\<lambda>_. 0)) ?s'"
    using j' f(2,3,9,11,13) r(4) u(3) p ph rj ew(3) unfolding fin by (simp add: parent_ok_def)
  have leaf: "leaf_ok p (?l i) i 0 ?s'" if "i < LEAF_COUNT" for i
    using that j' f r(4) u(3) mem new_runnable(1)
    by (auto simp: two leaf_ok_def new_leaf_def new_job_def leaf_value_def null_job_def)
  have "count (ready_bag ?s') k = of_bool (in_cache p ?l (\<lambda>_. 0) k)" for k
    using r(2) rj(3) f(2-4,8) unfolding in_cache_def fin by (auto simp: LEAF_COUNT_def less_2_cases_iff)
  moreover have "inj_on ?l {..<LEAF_COUNT}" using f(4) by (auto simp: inj_on_def two)
  ultimately have "gathering p ?l (\<lambda>_. 0) ?s'"
    unfolding gathering_def using r(1,5) parent leaf f(2,3,10,18,19) mem um u(4) nc two by simp
  then show ?thesis by (rule exI[of _ ?l])
qed

section \<open>Property\<close>

lemma avjobs_truncate: "jobsys.truncate (sections_init avjobs_static) = sections_init static_jobsys"
  by (simp add: avjobs_static_def sections_init_def jobsys.truncate_def jobsys.extend_def static_jobsys_def)

text \<open>
  C15: The program avjobs adds up the results of its jobs. \<^verbatim>\<open>main\<close> creates the parent,
  and under passes of the worker loop, one after the other, the parent is not complete
  during the first seven and complete after the eighth, with the sum of the final values
  of both leaves, 70, and both seen; no job is left in the ready cache.
\<close>

theorem avjobs_gathers_leaves:
  assumes "addr_ok (job_addr b)"
  shows "\<exists>parent s. avjobs_main b = Some (parent, s)
    \<and> (\<forall>k \<le> 7. \<not> completed ((pass b (avjobs_run b) ^^ k) s) parent_indicator)
    \<and> (let s' = (pass b (avjobs_run b) ^^ 8) s
       in completed s' parent_indicator \<and> total s' = 70 \<and> seen s' = 2 \<and> ready_bag s' = {#})"
proof -
  let ?s0 = "sections_init avjobs_static" and ?run = "avjobs_run b"
  obtain p s1 where c: "schedi_job_create ?s0 0 parent_fn None = (Some p, s1)"
    "alone (launched b s1 parent_indicator p) p parent_indicator"
    "jobs (launched b s1 parent_indicator p) = (\<lambda>_. null_job)(p := (new_job 0 parent_fn None null_job)\<lparr>
       completion_indicator := Some parent_indicator, meta_flag := new_word OR SCHEDI_JOB_METAFLAG_READY,
       state := schedi_job_state_readywaiting\<rparr>)"
    "free_slots (launched b s1 parent_indicator p) = {..<SCHEDI_MAXIMUM_JOBS} - {p}"
    "jobsys.more (launched b s1 parent_indicator p) = jobsys.more ?s0"
    by (rule new_job_alone[OF avjobs_truncate])
  define s where "s = launched b s1 parent_indicator p"
  have main: "avjobs_main b = Some (p, s)" by (simp add: avjobs_main_def c(1) s_def launched_def Let_def)
  have "total s = total ?s0" "seen s = seen ?s0"
    using c(5) by (cases s; cases ?s0; simp add: s_def)+
  then have "total s = 0" "seen s = 0"
    by (simp_all add: sections_init_def avjobs_static_def jobsys.extend_def)
  from parent_launches[OF c(2-4)[folded s_def] this, of b]
  obtain l where g: "gathering p l (\<lambda>_. 0) (pass b ?run s)" by blast
  have swap: "(pass b ?run ^^ k) (pass b ?run s) = (pass b ?run ^^ Suc k) s" for k by (simp add: funpow_swap1)
  have step: "\<exists>a. gathering p l a ((pass b ?run ^^ Suc k) s) \<and> sum a {..<LEAF_COUNT} = k" if "k \<le> 6" for k
    using gather_all[OF assms g, of k] that unfolding swap by (simp add: LEAF_COUNT_def)
  have early: "\<not> completed ((pass b ?run ^^ k) s) parent_indicator" if "k \<le> 7" for k
  proof (cases k)
    case 0
    then show ?thesis using c(2) by (simp add: s_def alone_def)
  next
    case (Suc j)
    then show ?thesis using step[of j] that by (auto simp: gathering_def)
  qed
  obtain a where a: "gathering p l a ((pass b ?run ^^ 7) s)" "sum a {..<LEAF_COUNT} = 6"
    using step[of 6] by (auto simp: numeral_eq_Suc)
  then have "\<forall>i < LEAF_COUNT. a i = 3" using all_finished[OF a(1)] by (simp add: LEAF_COUNT_def)
  note f = parent_gathers[OF assms a(1) this refl]
  have e: "(pass b ?run ^^ 8) s = pass b ?run ((pass b ?run ^^ 7) s)" by (simp add: numeral_eq_Suc)
  show ?thesis
    using main early f by (intro exI[of _ p] exI[of _ s]) (simp add: Let_def e LEAF_COUNT_def)
qed

theorem avjobs_gathers_leaves_witness:
  "\<exists>parent s. avjobs_main example_build = Some (parent, s)
    \<and> total ((pass example_build (avjobs_run example_build) ^^ 8) s) = 70"
  using avjobs_gathers_leaves[OF example_addr] by (auto simp: Let_def)

end
