(* ===== verification/Parallel_Example.thy ===== *)
theory Parallel_Example
  imports Main
begin

text \<open>
  The client programs \<^verbatim>\<open>src/examples/aparalleljob.c\<close> and \<^verbatim>\<open>src/examples/aparalleljob_mono.c\<close> with
  their parameters: 32 jobs fill parts of two global arrays, one thread does the same
  alone. The element type and its multiplication (\<^verbatim>\<open>float\<close>) are parameters, as no law of
  them is used; jobs run on different threads, so their statements interleave.
\<close>

section \<open>The parameters\<close>

definition VECTOR_COUNT :: nat where "VECTOR_COUNT = 130000000"
definition PARALLEL_JOB_COUNT :: nat where "PARALLEL_JOB_COUNT = 32"

record 'f Vector2 =
  vx :: 'f
  vy :: 'f

record 'f arrays =
  vecs :: "nat \<Rightarrow> 'f Vector2"
  params :: "nat \<Rightarrow> 'f Vector2"

definition DotProduct :: "('f \<Rightarrow> 'f \<Rightarrow> 'f) \<Rightarrow> 'f Vector2 \<Rightarrow> 'f Vector2 \<Rightarrow> 'f Vector2" where
  "DotProduct mul v1 v2 = \<lparr>vx = mul (vx v1) (vx v2), vy = mul (vy v1) (vy v2)\<rparr>"

text \<open>\<^verbatim>\<open>RANDOM_FLOAT\<close> is a constant expression; \<open>random_float\<close> stands for its value.\<close>

definition RANDOM_VECTOR :: "'f \<Rightarrow> 'f Vector2" where
  "RANDOM_VECTOR random_float = \<lparr>vx = random_float, vy = random_float\<rparr>"

section \<open>The loops\<close>

text \<open>The three assignments of an iteration, each taken as one step.\<close>

datatype stmt = SetVec (index: nat) | SetParam (index: nat) | SetDot (index: nat)

fun exec :: "('f \<Rightarrow> 'f \<Rightarrow> 'f) \<Rightarrow> 'f \<Rightarrow> 'f arrays \<Rightarrow> stmt \<Rightarrow> 'f arrays" where
  "exec mul c m (SetVec i) = m\<lparr>vecs := (vecs m)(i := RANDOM_VECTOR c)\<rparr>"
| "exec mul c m (SetParam i) = m\<lparr>params := (params m)(i := RANDOM_VECTOR c)\<rparr>"
| "exec mul c m (SetDot i) = m\<lparr>vecs := (vecs m)(i := DotProduct mul (vecs m i) (params m i))\<rparr>"

definition run_stmts :: "('f \<Rightarrow> 'f \<Rightarrow> 'f) \<Rightarrow> 'f \<Rightarrow> stmt list \<Rightarrow> 'f arrays \<Rightarrow> 'f arrays" where
  "run_stmts mul c tr m = foldl (exec mul c) m tr"

definition iteration :: "nat \<Rightarrow> stmt list" where
  "iteration i = [SetVec i, SetParam i, SetDot i]"

text \<open>The loop of \<^verbatim>\<open>job_func\<close>, up to and including \<open>e\<close>, and the loop of the single thread.\<close>

function job_loop :: "nat \<Rightarrow> nat \<Rightarrow> stmt list" where
  "job_loop i e = (if i \<le> e then iteration i @ job_loop (i + 1) e else [])"
  by pat_completeness auto
termination by (relation "measure (\<lambda>(i, e). Suc e - i)") auto

declare job_loop.simps [simp del]

function mono_loop :: "nat \<Rightarrow> stmt list" where
  "mono_loop i = (if i < VECTOR_COUNT then iteration i @ mono_loop (i + 1) else [])"
  by pat_completeness auto
termination by (relation "measure (\<lambda>i. VECTOR_COUNT - i)") auto

declare mono_loop.simps [simp del]

definition mono_main :: "('f \<Rightarrow> 'f \<Rightarrow> 'f) \<Rightarrow> 'f \<Rightarrow> 'f arrays \<Rightarrow> 'f arrays" where
  "mono_main mul c m = run_stmts mul c (mono_loop 0) m"

section \<open>The parts of the jobs\<close>

text \<open>The loop of \<^verbatim>\<open>main\<close> that fills \<^verbatim>\<open>start_end\<close>.\<close>

definition start_end_step :: "nat \<Rightarrow> (nat \<times> nat) list \<Rightarrow> (nat \<times> nat) list" where
  "start_end_step i t = t[i := (snd (t ! (i - 1)), snd (t ! 0) * (i + 1))]"

definition start_end :: "(nat \<times> nat) list" where
  "start_end =
     (let t0 = (replicate PARALLEL_JOB_COUNT (0, 0))[0 := (0, VECTOR_COUNT div PARALLEL_JOB_COUNT)];
          t1 = fold start_end_step [1..<PARALLEL_JOB_COUNT - 1] t0
      in t1[PARALLEL_JOB_COUNT - 1 := (snd (t1 ! (PARALLEL_JOB_COUNT - 2)), VECTOR_COUNT - 1)])"

definition parallel_job_func :: "nat \<Rightarrow> stmt list" where
  "parallel_job_func proc_indice = job_loop (fst (start_end ! proc_indice)) (snd (start_end ! proc_indice))"

section \<open>Interleaved jobs\<close>

text \<open>The threads take turns; each keeps the order of its own statements.\<close>

inductive interleaved :: "'a list list \<Rightarrow> 'a list \<Rightarrow> bool" where
  finished: "\<forall>xs \<in> set xss. xs = [] \<Longrightarrow> interleaved xss []"
| turn: "k < length xss \<Longrightarrow> xss ! k = x # xs \<Longrightarrow> interleaved (xss[k := xs]) tr \<Longrightarrow> interleaved xss (x # tr)"

inductive_cases interleaved_NilE: "interleaved xss []"
inductive_cases interleaved_ConsE: "interleaved xss (x # tr)"

text \<open>Statements that only thread \<open>k\<close> makes are made in its order.\<close>

lemma interleaved_filter:
  assumes "interleaved xss tr" "k < length xss" "\<And>j. j < length xss \<Longrightarrow> j \<noteq> k \<Longrightarrow> filter P (xss ! j) = []"
  shows "filter P tr = filter P (xss ! k)"
  using assms
proof induction
  case (turn l xss x xs tr)
  have eq: "filter P (xss[l := xs] ! j) = []" if "j < length (xss[l := xs])" "j \<noteq> k" for j
    using turn.prems(2)[of j] that turn.hyps by (cases "j = l") (auto split: if_splits)
  from turn.IH[OF _ eq] turn.prems(1) have IH: "filter P tr = filter P (xss[l := xs] ! k)" by simp
  show ?case
  proof (cases "l = k")
    case False
    then have "\<not> P x" using turn.prems(2)[OF turn.hyps(1)] turn.hyps(2) by (auto split: if_splits)
    then show ?thesis using IH False by simp
  qed (use IH turn.hyps in simp)
qed (metis filter.simps(1) nth_mem)

text \<open>What one index of the arrays holds depends on the statements on that index.\<close>

lemma run_Nil [simp]: "run_stmts mul c [] m = m"
  by (simp add: run_stmts_def)

lemma run_Cons [simp]: "run_stmts mul c (st # tr) m = run_stmts mul c tr (exec mul c m st)"
  by (simp add: run_stmts_def)

lemma run_append [simp]: "run_stmts mul c (tr @ tr') m = run_stmts mul c tr' (run_stmts mul c tr m)"
  by (simp add: run_stmts_def)

lemma run_filter:
  "vecs m i = vecs m' i \<Longrightarrow> params m i = params m' i \<Longrightarrow>
   vecs (run_stmts mul c tr m) i = vecs (run_stmts mul c (filter (\<lambda>st. index st = i) tr) m') i
   \<and> params (run_stmts mul c tr m) i = params (run_stmts mul c (filter (\<lambda>st. index st = i) tr) m') i"
proof (induction tr arbitrary: m m')
  case (Cons st tr)
  show ?case
  proof (cases "index st = i")
    case True
    have "vecs (exec mul c m st) i = vecs (exec mul c m' st) i \<and> params (exec mul c m st) i = params (exec mul c m' st) i"
      using True Cons.prems by (cases st) simp_all
    then show ?thesis using True Cons.IH by simp
  next
    case False
    have "vecs (exec mul c m st) i = vecs m' i \<and> params (exec mul c m st) i = params m' i"
      using False Cons.prems by (cases st) simp_all
    then show ?thesis using False Cons.IH by simp
  qed
qed simp

lemma filter_body: "filter (\<lambda>st. index st = i) (iteration j) = (if j = i then iteration i else [])"
  by (simp add: iteration_def)

lemma filter_job_loop: "filter (\<lambda>st. index st = i) (job_loop s e) = (if s \<le> i \<and> i \<le> e then iteration i else [])"
proof (induction s e rule: job_loop.induct)
  case (1 s e)
  then show ?case by (subst job_loop.simps) (auto simp: filter_body)
qed

lemma filter_mono_loop: "filter (\<lambda>st. index st = i) (mono_loop s) = (if s \<le> i \<and> i < VECTOR_COUNT then iteration i else [])"
proof (induction s rule: mono_loop.induct)
  case (1 s)
  then show ?case by (subst mono_loop.simps) (auto simp: filter_body)
qed

lemma run_body:
  "vecs (run_stmts mul c (iteration i) m) i = DotProduct mul (RANDOM_VECTOR c) (RANDOM_VECTOR c)"
  "params (run_stmts mul c (iteration i) m) i = RANDOM_VECTOR c"
  by (simp_all add: iteration_def)

lemma mono_values:
  "vecs (mono_main mul c m) i = (if i < VECTOR_COUNT then DotProduct mul (RANDOM_VECTOR c) (RANDOM_VECTOR c) else vecs m i)"
  "params (mono_main mul c m) i = (if i < VECTOR_COUNT then RANDOM_VECTOR c else params m i)"
  using run_filter[of m i m mul c "mono_loop 0"] by (simp_all add: mono_main_def filter_mono_loop run_body)

section \<open>The table of parts\<close>

definition part :: nat where "part = VECTOR_COUNT div PARALLEL_JOB_COUNT"

lemma part_count: "PARALLEL_JOB_COUNT * part = VECTOR_COUNT" "0 < part"
  by (simp_all add: part_def VECTOR_COUNT_def PARALLEL_JOB_COUNT_def)

lemma start_end_fold:
  assumes "1 \<le> k" "k < PARALLEL_JOB_COUNT"
  defines "t0 \<equiv> (replicate PARALLEL_JOB_COUNT (0, 0))[0 := (0, part)]"
  shows "length (fold start_end_step [1..<k] t0) = PARALLEL_JOB_COUNT
    \<and> (\<forall>i < k. fold start_end_step [1..<k] t0 ! i = (i * part, (i + 1) * part))"
  using assms(1,2)
proof (induction k rule: dec_induct)
  case base
  then show ?case by (simp add: t0_def PARALLEL_JOB_COUNT_def)
next
  case (step k)
  let ?t = "fold start_end_step [1..<k] t0"
  have IH: "length ?t = PARALLEL_JOB_COUNT" "\<And>i. i < k \<Longrightarrow> ?t ! i = (i * part, (i + 1) * part)"
    using step by simp_all
  have e: "fold start_end_step [1..<Suc k] t0 = ?t[k := (snd (?t ! (k - 1)), snd (?t ! 0) * (k + 1))]"
    using step.hyps by (simp add: start_end_step_def)
  have "snd (?t ! (k - 1)) = k * part" "snd (?t ! 0) * (k + 1) = (k + 1) * part"
    using IH(2)[of "k - 1"] IH(2)[of 0] step.hyps by simp_all
  then show ?case unfolding e using IH step.prems by (simp add: nth_list_update less_Suc_eq)
qed

lemma start_end_nth:
  assumes "k < PARALLEL_JOB_COUNT"
  shows "start_end ! k = (k * part, if k = PARALLEL_JOB_COUNT - 1 then VECTOR_COUNT - 1 else (k + 1) * part)"
proof -
  let ?t0 = "(replicate PARALLEL_JOB_COUNT (0, 0))[0 := (0, part)]"
  define t where "t = fold start_end_step [1..<PARALLEL_JOB_COUNT - 1] ?t0"
  have t: "length t = PARALLEL_JOB_COUNT" "\<And>i. i < PARALLEL_JOB_COUNT - 1 \<Longrightarrow> t ! i = (i * part, (i + 1) * part)"
    unfolding t_def using start_end_fold[of "PARALLEL_JOB_COUNT - 1"] by (simp_all add: PARALLEL_JOB_COUNT_def)
  have se: "start_end = t[PARALLEL_JOB_COUNT - 1 := (snd (t ! (PARALLEL_JOB_COUNT - 2)), VECTOR_COUNT - 1)]"
    by (simp add: start_end_def part_def Let_def t_def)
  have "snd (t ! (PARALLEL_JOB_COUNT - 2)) = (PARALLEL_JOB_COUNT - 1) * part"
    using t(2)[of "PARALLEL_JOB_COUNT - 2"] by (simp add: PARALLEL_JOB_COUNT_def)
  then show ?thesis unfolding se using t assms by (cases "k = PARALLEL_JOB_COUNT - 1") simp_all
qed

text \<open>The indices of a job: its part and the first one of the next part.\<close>

definition covers :: "nat \<Rightarrow> nat \<Rightarrow> bool" where
  "covers k i \<longleftrightarrow> k < PARALLEL_JOB_COUNT \<and> i < VECTOR_COUNT \<and> k * part \<le> i \<and> i \<le> (k + 1) * part"

lemma filter_job:
  assumes "k < PARALLEL_JOB_COUNT"
  shows "filter (\<lambda>st. index st = i) (parallel_job_func k) = (if covers k i then iteration i else [])"
proof -
  define E where "E = (k + 1) * part"
  have "E = VECTOR_COUNT" if "k = PARALLEL_JOB_COUNT - 1"
    using that assms part_count(1) by (simp add: E_def del: mult_Suc)
  moreover have "E < VECTOR_COUNT" if "k \<noteq> PARALLEL_JOB_COUNT - 1"
    unfolding E_def part_count(1)[symmetric] using that assms part_count(2)
    by (intro mult_strict_right_mono) simp_all
  moreover have "0 < VECTOR_COUNT" by (simp add: VECTOR_COUNT_def)
  ultimately have "covers k i \<longleftrightarrow> fst (start_end ! k) \<le> i \<and> i \<le> snd (start_end ! k)"
    unfolding covers_def start_end_nth[OF assms] E_def[symmetric] using assms by auto
  then show ?thesis by (simp add: parallel_job_func_def filter_job_loop)
qed

lemma covers_iff:
  assumes "i < VECTOR_COUNT"
  shows "covers k i \<longleftrightarrow> k = i div part \<or> Suc k = i div part \<and> i mod part = 0"
proof -
  have lt: "i div part < PARALLEL_JOB_COUNT"
    using assms part_count by (simp add: div_less_iff_less_mult)
  have A: "k * part \<le> i \<longleftrightarrow> k \<le> i div part" using part_count(2) by (simp add: less_eq_div_iff_mult_less_eq)
  have B: "i \<le> (k + 1) * part \<longleftrightarrow> i div part < k + 1 \<or> i div part = k + 1 \<and> i mod part = 0"
  proof -
    have i: "i = i div part * part + i mod part" "i mod part < part" using part_count(2) by simp_all
    consider "i div part < k + 1" | "i div part = k + 1" | "k + 2 \<le> i div part" by linarith
    then show ?thesis
    proof cases
      case 1
      then have "(i div part + 1) * part \<le> (k + 1) * part" by (intro mult_le_mono1) simp
      moreover have "(i div part + 1) * part = i div part * part + part" by simp
      ultimately have "i \<le> (k + 1) * part" using i by linarith
      then show ?thesis using 1 by simp
    next
      case 2
      then have "i = (k + 1) * part + i mod part" using i(1) by simp
      then have "i \<le> (k + 1) * part \<longleftrightarrow> i mod part = 0" by linarith
      then show ?thesis using 2 by simp
    next
      case 3
      then have "(k + 2) * part \<le> i div part * part" by (intro mult_le_mono1)
      moreover have "(k + 2) * part = (k + 1) * part + part" by simp
      ultimately have "\<not> i \<le> (k + 1) * part" using i(1) part_count(2) by linarith
      then show ?thesis using 3 by simp
    qed
  qed
  define q r where "q = i div part" and "r = i mod part"
  have "covers k i \<longleftrightarrow> k < PARALLEL_JOB_COUNT \<and> k \<le> q \<and> (q < k + 1 \<or> q = k + 1 \<and> r = 0)"
    unfolding covers_def A B q_def r_def using assms by blast
  moreover have "q < PARALLEL_JOB_COUNT" using lt by (simp add: q_def)
  ultimately show ?thesis unfolding q_def[symmetric] r_def[symmetric] by auto
qed

section \<open>Jobs one after the other\<close>

lemma run_jobs:
  assumes "\<forall>k \<in> set ks. k < PARALLEL_JOB_COUNT"
  shows "vecs (run_stmts mul c (concat (map parallel_job_func ks)) m) i = (if \<exists>k \<in> set ks. covers k i
      then DotProduct mul (RANDOM_VECTOR c) (RANDOM_VECTOR c) else vecs m i)
    \<and> params (run_stmts mul c (concat (map parallel_job_func ks)) m) i = (if \<exists>k \<in> set ks. covers k i
      then RANDOM_VECTOR c else params m i)"
  using assms
proof (induction ks arbitrary: m)
  case (Cons k ks)
  let ?m = "run_stmts mul c (parallel_job_func k) m"
  have "vecs ?m i = (if covers k i then DotProduct mul (RANDOM_VECTOR c) (RANDOM_VECTOR c) else vecs m i)
      \<and> params ?m i = (if covers k i then RANDOM_VECTOR c else params m i)"
    using run_filter[of m i m mul c "parallel_job_func k"] Cons.prems by (simp add: filter_job run_body)
  then show ?case using Cons.IH[of ?m] Cons.prems by simp
qed simp

lemma covered:
  assumes "i < VECTOR_COUNT"
  shows "i div part < PARALLEL_JOB_COUNT" "covers (i div part) i"
  using assms part_count by (simp_all add: div_less_iff_less_mult covers_iff)

text \<open>
  C26: Jobs that run one after the other, in any order, leave the arrays as the single
  thread does: all elements are filled, no other one is touched, and an element that
  two jobs fill comes out the same.
\<close>

theorem parallel_jobs_equal_mono:
  assumes "set ks = {..<PARALLEL_JOB_COUNT}"
  shows "run_stmts mul c (concat (map parallel_job_func ks)) m = mono_main mul c m"
proof -
  have ks: "\<forall>k \<in> set ks. k < PARALLEL_JOB_COUNT" using assms by simp
  have "(\<exists>k \<in> set ks. covers k i) \<longleftrightarrow> i < VECTOR_COUNT" for i
    using assms covered[of i] by (auto simp: covers_def)
  then have "vecs (run_stmts mul c (concat (map parallel_job_func ks)) m) = vecs (mono_main mul c m)"
    "params (run_stmts mul c (concat (map parallel_job_func ks)) m) = params (mono_main mul c m)"
    using run_jobs[OF ks, of mul c m] by (auto simp: mono_values fun_eq_iff)
  then show ?thesis by (intro arrays.equality) simp_all
qed

theorem parallel_jobs_equal_mono_witness:
  "run_stmts (*) (3 :: int) (concat (map parallel_job_func [0..<PARALLEL_JOB_COUNT])) \<lparr>vecs = (\<lambda>_. \<lparr>vx = 0, vy = 0\<rparr>),
     params = (\<lambda>_. \<lparr>vx = 0, vy = 0\<rparr>)\<rparr>
   = mono_main (*) 3 \<lparr>vecs = (\<lambda>_. \<lparr>vx = 0, vy = 0\<rparr>), params = (\<lambda>_. \<lparr>vx = 0, vy = 0\<rparr>)\<rparr>"
  by (rule parallel_jobs_equal_mono) (simp add: atLeast0LessThan)

section \<open>Interleaved jobs\<close>

text \<open>
  C27: In every interleaving of the statements of the 32 jobs, each element that
  one job fills, that is every one but the first element of each part after the first,
  ends as in the single-thread program.
\<close>

theorem parallel_jobs_interleaved:
  assumes "interleaved (map parallel_job_func [0..<PARALLEL_JOB_COUNT]) tr"
    and "i < VECTOR_COUNT" "i < part \<or> i mod part \<noteq> 0"
  shows "vecs (run_stmts mul c tr m) i = vecs (mono_main mul c m) i
    \<and> params (run_stmts mul c tr m) i = params (mono_main mul c m) i"
proof -
  let ?k = "i div part" and ?P = "\<lambda>st. index st = i"
  note k = covered[OF assms(2)]
  have only: "\<not> covers j i" if "j \<noteq> ?k" for j
    using that assms(3) by (auto simp: covers_iff[OF assms(2)])
  have "filter ?P tr = filter ?P (map parallel_job_func [0..<PARALLEL_JOB_COUNT] ! ?k)"
    using k(1) only by (intro interleaved_filter[OF assms(1)]) (simp_all add: filter_job)
  then have "filter ?P tr = iteration i" using k by (simp add: filter_job)
  then show ?thesis using run_filter[of m i m mul c tr] assms(2) by (simp add: run_body mono_values)
qed

lemma interleaved_take:
  "xss ! k = ys @ zs \<Longrightarrow> k < length xss \<Longrightarrow> interleaved (xss[k := zs]) tr \<Longrightarrow> interleaved xss (ys @ tr)"
proof (induction ys arbitrary: xss)
  case (Cons y ys)
  have "interleaved (xss[k := ys @ zs]) (ys @ tr)" using Cons.prems by (intro Cons.IH) simp_all
  then show ?case using Cons.prems by (auto intro: interleaved.turn)
qed (metis append_Nil list_update_id)

lemma interleaved_tail: "interleaved xss tr \<Longrightarrow> interleaved ([] # xss) tr"
proof (induction rule: interleaved.induct)
  case (turn k xss x xs tr)
  then show ?case by (intro interleaved.turn[of "Suc k"]) simp_all
qed (simp add: interleaved.finished)

lemma interleaved_concat: "interleaved xss (concat xss)"
proof (induction xss)
  case (Cons xs xss)
  have "interleaved ([] # xss) (concat xss)" using Cons by (rule interleaved_tail)
  then show ?case using interleaved_take[of "xs # xss" 0 xs "[]"] by simp
qed (simp add: interleaved.finished)

theorem parallel_jobs_interleaved_witness:
  "\<exists>tr. interleaved (map parallel_job_func [0..<PARALLEL_JOB_COUNT]) tr
    \<and> vecs (run_stmts (*) (3 :: int) tr \<lparr>vecs = (\<lambda>_. \<lparr>vx = 0, vy = 0\<rparr>), params = (\<lambda>_. \<lparr>vx = 0, vy = 0\<rparr>)\<rparr>) 5
      = \<lparr>vx = 9, vy = 9\<rparr>"
proof -
  let ?m = "\<lparr>vecs = (\<lambda>_. \<lparr>vx = 0 :: int, vy = 0\<rparr>), params = (\<lambda>_. \<lparr>vx = 0, vy = 0\<rparr>)\<rparr>"
  let ?tr = "concat (map parallel_job_func [0..<PARALLEL_JOB_COUNT])"
  have "5 < VECTOR_COUNT" "5 < part" by (simp_all add: VECTOR_COUNT_def part_def PARALLEL_JOB_COUNT_def)
  then have "vecs (run_stmts (*) 3 ?tr ?m) 5 = vecs (mono_main (*) 3 ?m) 5"
    using parallel_jobs_interleaved[OF interleaved_concat, of 5 "(*)" 3 ?m] by blast
  then have "vecs (run_stmts (*) 3 ?tr ?m) 5 = \<lparr>vx = 9, vy = 9\<rparr>"
    using \<open>5 < VECTOR_COUNT\<close> by (simp add: mono_values DotProduct_def RANDOM_VECTOR_def)
  then show ?thesis using interleaved_concat by blast
qed

text \<open>The last and the first iteration of a job.\<close>

lemma job_loop_snoc: "s \<le> Suc e \<Longrightarrow> job_loop s (Suc e) = job_loop s e @ iteration (Suc e)"
proof (induction s e rule: job_loop.induct)
  case (1 s e)
  show ?case
  proof (cases "s \<le> e")
    case True
    then show ?thesis using 1 by (subst (1 2) job_loop.simps) simp
  next
    case False
    with 1(2) have "s = Suc e" by simp
    then show ?thesis by (subst (1 2) job_loop.simps, subst job_loop.simps) simp
  qed
qed

lemma job_ends:
  assumes "Suc k < PARALLEL_JOB_COUNT"
  shows "\<exists>pre. parallel_job_func k = pre @ iteration (Suc k * part)"
    and "\<exists>post. parallel_job_func (Suc k) = iteration (Suc k * part) @ post"
proof -
  have "k \<noteq> PARALLEL_JOB_COUNT - 1" using assms by simp
  then have k: "start_end ! k = (k * part, Suc k * part)" using assms start_end_nth[of k] by simp
  obtain e where e: "Suc k * part = Suc e" using part_count(2) by (cases "Suc k * part") simp_all
  have "k * part \<le> Suc e" unfolding e[symmetric] by simp
  from job_loop_snoc[OF this] show "\<exists>pre. parallel_job_func k = pre @ iteration (Suc k * part)"
    by (auto simp: parallel_job_func_def k e simp del: mult_Suc)
  have "Suc k * part < VECTOR_COUNT"
    unfolding part_count(1)[symmetric] using assms part_count(2) by (intro mult_strict_right_mono) simp_all
  then have "fst (start_end ! Suc k) = Suc k * part" "Suc k * part \<le> snd (start_end ! Suc k)"
    using assms by (auto simp: start_end_nth)
  then show "\<exists>post. parallel_job_func (Suc k) = iteration (Suc k * part) @ post"
    unfolding parallel_job_func_def by (subst job_loop.simps) simp
qed

text \<open>
  C37: The parts of the jobs overlap in one element each, and filling it twice at the
  same time goes wrong. For each two neighbouring jobs there is an interleaving of all
  jobs after which the last element of the first, which is the first of the second, has
  been multiplied twice.
\<close>

theorem parallel_jobs_race:
  assumes "Suc k < PARALLEL_JOB_COUNT"
  shows "snd (start_end ! k) = fst (start_end ! Suc k)
    \<and> (\<exists>tr. interleaved (map parallel_job_func [0..<PARALLEL_JOB_COUNT]) tr
        \<and> vecs (run_stmts mul c tr m) (snd (start_end ! k))
          = DotProduct mul (DotProduct mul (RANDOM_VECTOR c) (RANDOM_VECTOR c)) (RANDOM_VECTOR c))"
proof -
  let ?e = "Suc k * part" and ?xss = "map parallel_job_func [0..<PARALLEL_JOB_COUNT]" and ?P = "\<lambda>st. index st = Suc k * part"
  obtain pre post where j: "parallel_job_func k = pre @ iteration ?e" "parallel_job_func (Suc k) = iteration ?e @ post"
    using job_ends[OF assms] by blast
  have "k \<noteq> PARALLEL_JOB_COUNT - 1" using assms by simp
  then have e: "start_end ! k = (k * part, ?e)" "fst (start_end ! Suc k) = ?e"
    using assms start_end_nth[of k] start_end_nth[of "Suc k"] by simp_all
  have lt: "?e < VECTOR_COUNT"
    unfolding part_count(1)[symmetric] using assms part_count(2) by (intro mult_strict_right_mono) simp_all
  define y1 where "y1 = ?xss[k := [SetDot ?e]]"
  define y2 where "y2 = y1[Suc k := SetDot ?e # post]"
  define y3 where "y3 = y2[k := []]"
  define tr where "tr = (pre @ [SetVec ?e, SetParam ?e]) @ [SetVec ?e, SetParam ?e] @ [SetDot ?e] @ concat y3"
  have "interleaved y2 ([SetDot ?e] @ concat y3)"
    by (rule interleaved_take[of _ k "[SetDot ?e]" "[]"]) (use assms in \<open>simp_all add: y2_def y1_def y3_def interleaved_concat\<close>)
  then have "interleaved y1 ([SetVec ?e, SetParam ?e] @ [SetDot ?e] @ concat y3)"
    by (intro interleaved_take[of _ "Suc k" "[SetVec ?e, SetParam ?e]" "SetDot ?e # post"])
      (use assms j(2) in \<open>simp_all add: y1_def y2_def iteration_def\<close>)
  then have tr: "interleaved ?xss tr" unfolding tr_def
    by (intro interleaved_take[of _ k "pre @ [SetVec ?e, SetParam ?e]" "[SetDot ?e]"]) (use assms j(1) in \<open>simp_all add: y1_def iteration_def\<close>)
  have f1: "filter ?P pre = []"
    using filter_job[of k ?e] assms lt unfolding j(1) by (auto simp: iteration_def split: if_splits)
  have f2: "filter ?P post = []"
    using filter_job[of "Suc k" ?e] assms lt unfolding j(2) by (auto simp: iteration_def split: if_splits)
  have fo: "filter ?P (parallel_job_func l) = []" if "l < PARALLEL_JOB_COUNT" "l \<noteq> k" "l \<noteq> Suc k" for l
  proof -
    have "?e div part = Suc k" using part_count(2) by (simp only: nonzero_mult_div_cancel_right)
    then have "\<not> covers l ?e" using that by (simp only: covers_iff[OF lt]) simp
    then show ?thesis using filter_job[OF that(1), of ?e] by simp
  qed
  have "filter ?P (concat y3) = filter ?P (y3 ! Suc k)"
    by (rule interleaved_filter[OF interleaved_concat]) (use assms fo in \<open>auto simp: y3_def y2_def y1_def nth_list_update\<close>)
  then have "filter ?P (concat y3) = [SetDot ?e]" using assms f2 by (simp add: y3_def y2_def y1_def)
  then have "filter ?P tr = [SetVec ?e, SetParam ?e, SetVec ?e, SetParam ?e, SetDot ?e, SetDot ?e]"
    using f1 by (simp add: tr_def)
  then have "vecs (run_stmts mul c tr m) ?e = DotProduct mul (DotProduct mul (RANDOM_VECTOR c) (RANDOM_VECTOR c)) (RANDOM_VECTOR c)"
    using run_filter[of m ?e m mul c tr] by simp
  then show ?thesis using tr e by auto
qed

theorem parallel_jobs_race_witness:
  "\<exists>tr. interleaved (map parallel_job_func [0..<PARALLEL_JOB_COUNT]) tr
    \<and> vecs (run_stmts (*) (2 :: int) tr \<lparr>vecs = (\<lambda>_. \<lparr>vx = 0, vy = 0\<rparr>), params = (\<lambda>_. \<lparr>vx = 0, vy = 0\<rparr>)\<rparr>)
        (snd (start_end ! 0)) = \<lparr>vx = 8, vy = 8\<rparr>"
proof -
  have "Suc 0 < PARALLEL_JOB_COUNT" by (simp add: PARALLEL_JOB_COUNT_def)
  from parallel_jobs_race[OF this, of "(*)" "2 :: int" "\<lparr>vecs = (\<lambda>_. \<lparr>vx = 0, vy = 0\<rparr>), params = (\<lambda>_. \<lparr>vx = 0, vy = 0\<rparr>)\<rparr>"]
  have "\<exists>tr. interleaved (map parallel_job_func [0..<PARALLEL_JOB_COUNT]) tr
    \<and> vecs (run_stmts (*) (2 :: int) tr \<lparr>vecs = (\<lambda>_. \<lparr>vx = 0, vy = 0\<rparr>), params = (\<lambda>_. \<lparr>vx = 0, vy = 0\<rparr>)\<rparr>)
        (snd (start_end ! 0)) = DotProduct (*) (DotProduct (*) (RANDOM_VECTOR 2) (RANDOM_VECTOR 2)) (RANDOM_VECTOR 2)"
    by (rule conjunct2)
  then show ?thesis by (simp add: DotProduct_def RANDOM_VECTOR_def)
qed

end
