(* ===== verification/Socket_Examples.thy ===== *)
theory Socket_Examples
  imports Epoll_Memory Socket_Streams
begin

text \<open>
  The client programs \<^verbatim>\<open>src/examples/epollsocket_test.c\<close>, a server whose jobs send back what
  their client sent, and \<^verbatim>\<open>src/examples/epollsocket.c\<close>, a server whose jobs print what they
  read. Their job functions and destructors are modelled on the state of the epoll side;
  the streams of the socket then say what a client gets back and what is printed.
\<close>

section \<open>Contexts\<close>

record sock_ctx =
  ctx_fd :: int
  ctx_socket :: "nat option"
  ctx_exit :: bool

text \<open>
  What the creation of a socket is given: the timer descriptor, the results of the
  timer calls, the addresses of the epoll data, the contents and the address of the socket.
\<close>

record sock_env =
  env_tfd :: int
  env_sets :: "int \<times> int"
  env_ds :: "nat \<times> nat"
  env_bufs :: "u8 list \<times> u8 list"
  env_ptr :: nat

definition set_phase :: "nat \<Rightarrow> int \<Rightarrow> ep_state \<Rightarrow> ep_state" where
  "set_phase job ph st = st\<lparr>ep_sys := upd_job job (\<lambda>x. x\<lparr>phase := ph\<rparr>) (ep_sys st)\<rparr>"

abbreviation socket_dead :: "epollsocket \<Rightarrow> bool" where
  "socket_dead k \<equiv> has_flag (sock_htc k) SCHEDI_JOB_EPOLLSOCKET_DEAD"

text \<open>Making the socket and asking for it; both programs begin so. The timeout is 3 seconds.\<close>

definition make_socket ::
  "build \<Rightarrow> kernel \<Rightarrow> sock_env \<Rightarrow> sock_ctx \<Rightarrow> ep_state \<Rightarrow> nat \<Rightarrow> u32 \<Rightarrow> sock_ctx \<times> ep_state" where
  "make_socket b ctl env c st job rc =
     (let (p, st1) = schedi_job_tool_epollsocket b ctl (env_tfd env) (env_sets env) (env_ds env) (env_bufs env)
            (env_ptr env) st job (ctx_fd c) rc 0 3
      in (c\<lparr>ctx_socket := p\<rparr>, st1\<lparr>ep_sys := schedi_job_required_available_socket b (ep_sys st1) job 1\<rparr>))"

section \<open>The echo server\<close>

text \<open>\<open>r\<close> is what \<^verbatim>\<open>send\<close> answers when the write makes that call. A missing or freed socket is a bad pointer.\<close>

definition echo_job_func ::
  "build \<Rightarrow> kernel \<Rightarrow> sock_env \<Rightarrow> send_result \<Rightarrow> sock_ctx \<Rightarrow> ep_state \<Rightarrow> nat
    \<Rightarrow> (int \<times> sock_ctx \<times> ep_state) outcome" where
  "echo_job_func b ctl env r c st job =
     (let ph = phase (jobs (ep_sys st) job)
      in if ph = 0
         then let (c', st1) = make_socket b ctl env c st job 1 in Returns (1, c', set_phase job 1 st1)
         else if ph = 1 \<or> ph = 2
         then (case ctx_socket c of
                 None \<Rightarrow> BadPointer
               | Some p \<Rightarrow>
                   (case socks st p of
                      None \<Rightarrow> BadPointer
                    | Some k \<Rightarrow>
                        if ph = 1
                        then let (buf, st1) = on_socket ctl st p k (\<lambda>v. schedi_job_epollsocket_read b v 255);
                                 k1 = the (socks st1 p)
                             in if buf \<noteq> []
                                then Returns (1, c, set_phase job 2 (snd (on_socket ctl st1 p k1
                                       (\<lambda>v. schedi_job_epollsocket_write b r v buf))))
                                else Returns (if socket_dead k1 then -1 else 1, c, st1)
                        else Returns (if socket_dead k then -1 else 1, c, st)))
         else Returns (-1, c, st))"

definition echo_dtor :: "build \<Rightarrow> kernel \<Rightarrow> sock_ctx \<Rightarrow> ep_state \<Rightarrow> ep_state outcome" where
  "echo_dtor b ctl c st =
     (case ctx_socket c of
        None \<Rightarrow> BadPointer
      | Some p \<Rightarrow>
          (case socks st p of
             None \<Rightarrow> BadPointer
           | Some k \<Rightarrow> Returns (close_fd (snd (epollsocket_done_at b ctl st p k False)) (ctx_fd c))))"

section \<open>The printing server\<close>

text \<open>
  The second result is what the call prints of the data. Reading the timer descriptor
  of a timed-out socket changes nothing the model has.
\<close>

definition reader_gives_up ::
  "build \<Rightarrow> kernel \<Rightarrow> sock_ctx \<Rightarrow> ep_state \<Rightarrow> nat \<Rightarrow> (int \<times> u8 list \<times> sock_ctx \<times> ep_state) outcome" where
  "reader_gives_up b ctl c st p =
     (case socks st p of
        None \<Rightarrow> BadPointer
      | Some k \<Rightarrow> Returns (1, [], c\<lparr>ctx_exit := True\<rparr>, snd (epollsocket_done_at b ctl st p k False)))"

definition reader_job_func ::
  "build \<Rightarrow> kernel \<Rightarrow> sock_env \<Rightarrow> sock_ctx \<Rightarrow> ep_state \<Rightarrow> nat
    \<Rightarrow> (int \<times> u8 list \<times> sock_ctx \<times> ep_state) outcome" where
  "reader_job_func b ctl env c st job =
     (if ctx_exit c then Returns (-1, [], c, st)
      else
        (case ctx_socket c of
           None \<Rightarrow> let (c', st1) = make_socket b ctl env c st job 20 in Returns (1, [], c', st1)
         | Some p \<Rightarrow>
             (case socks st p of
                None \<Rightarrow> BadPointer
              | Some k \<Rightarrow>
                  if socket_dead k then reader_gives_up b ctl c st p
                  else if ext_timeout b \<and> has_flag (sock_htc k) SCHEDI_JOB_EPOLLSOCKET_TIMEOUT
                  then let (r, st1) = schedi_job_epollsocket_epollagain b ctl (env_sets env) (env_ds env) st p k
                       in if r \<noteq> 0 then reader_gives_up b ctl c st1 p else Returns (1, [], c, st1)
                  else
                    let (data, st1) = on_socket ctl st p k (\<lambda>v. schedi_job_epollsocket_read b v 20)
                    in if data \<noteq> [] then Returns (1, data, c, st1)
                       else if socket_dead (the (socks st1 p)) then reader_gives_up b ctl c st1 p
                       else Returns (1, [], c, st1))))"

definition reader_dtor :: "sock_ctx \<Rightarrow> ep_state \<Rightarrow> ep_state" where
  "reader_dtor c st = close_fd st (ctx_fd c)"

section \<open>Socket operations leave the phases of jobs alone\<close>

named_theorems phases_kept

definition phases :: "'a jobsys_scheme \<Rightarrow> nat \<Rightarrow> int" where
  "phases s j = phase (jobs s j)"

lemma phases_marks [phases_kept]:
  "phases (snd (schedi_cache_job_ready s j)) = phases s"
  "phases (snd (meta_cas body s j)) = phases s"
  "phases (upd_job j (\<lambda>x. x\<lparr>state := w\<rparr>) s) = phases s" "phases (s\<lparr>readyjob_signals := n\<rparr>) = phases s"
  "phases (upd_job j (\<lambda>x. x\<lparr>required_available_sockets := i\<rparr>) s) = phases s"
  by (simp_all add: phases_def schedi_cache_job_ready_def schedi_ready_jobs_cache_add_job_count_def fun_eq_iff
      meta_cas_def set_meta_def case_prod_beta split: option.split)

lemma phases_ops [phases_kept]:
  "phases (snd (schedi_job_mark_access s j)) = phases s" "phases (snd (schedi_job_unmark_access s j)) = phases s"
  "phases (snd (schedi_job_setready b s j)) = phases s"
  "phases (snd (schedi_job_meta_flag_cas_update b s j sd wd jd f bn ba)) = phases s"
  by (simp_all add: schedi_job_mark_access_def schedi_job_unmark_access_def schedi_job_setready_def
      schedi_job_meta_flag_cas_update_def schedi_job_mark_or_def schedi_job_unmark_or_def
      Let_def case_prod_beta mark_defs phases_kept)

lemma phases_required [phases_kept]:
  "phases (schedi_job_required_available_socket b s j n) = phases s"
  by (simp add: schedi_job_required_available_socket_def Let_def case_prod_beta phases_kept)

lemma phases_socket_cas [phases_kept]: "phases (sys (socket_cas b body st)) = phases (sys st)"
  by (simp add: socket_cas_def schedi_job_epollsocket_jobready_update_def schedi_job_epollsocket_accessjob_def Let_def
      case_prod_beta phases_kept split: prod.split option.split)

lemma phases_returns [phases_kept]:
  "phases (sys (snd (schedi_job_epollsocket_write_return b r1 r2 st))) = phases (sys st)"
  "phases (sys (snd (schedi_job_epollsocket_read_return b q1 q2 st))) = phases (sys st)"
  "phases (sys (schedi_job_epollsocket_epoll_activator b st)) = phases (sys st)"
    apply (cases r1; simp add: schedi_job_epollsocket_write_return_def Let_def socket_cas_ops case_prod_beta phases_kept)
   apply (cases q1; simp add: schedi_job_epollsocket_read_return_def Let_def socket_cas_ops case_prod_beta phases_kept)
  by (simp add: schedi_job_epollsocket_epoll_activator_def Let_def)

lemma phases_socket_ops [phases_kept]:
  "phases (sys (snd (schedi_job_epollsocket_read b st n))) = phases (sys st)"
  "phases (sys (snd (schedi_job_epollsocket_write b r st data))) = phases (sys st)"
  "phases (sys (snd (schedi_job_epollsocket_return b rcv sd st ev))) = phases (sys st)"
  "phases (sys (snd (schedi_job_epollsocket_done_side b st side))) = phases (sys st)"
  by (simp_all add: schedi_job_epollsocket_read_def schedi_job_epollsocket_write_def schedi_job_epollsocket_return_def
      schedi_job_epollsocket_done_side_def schedi_job_epollsocket_write_buffer_data_def Let_def socket_cas_ops
      case_prod_beta phases_kept)

section \<open>A dead socket stays dead\<close>

definition keeps_dead :: "(u64 \<Rightarrow> ((u64 \<times> u64) option, u64) cas_step) \<Rightarrow> bool" where
  "keeps_dead body \<longleftrightarrow> (\<forall>h. bit h 63 \<longrightarrow> (case body h of CasReturn _ \<Rightarrow> True | CasTry d _ \<Rightarrow> bit d 63))"

lemma bodies_keep_dead:
  "keeps_dead (avail_add_body b c delta dead)" "keeps_dead (count_add_body b c delta dead)"
  "keeps_dead (socket_or_body f)" "keeps_dead done_jobside_body"
  by (auto simp: keeps_dead_def avail_add_body_def count_add_body_def socket_or_body_def done_jobside_body_def Let_def
      bit_or_iff bit_and_iff bit_not_iff bit_socket_flags socket_flag_iff)

lemma cas_keeps_dead:
  assumes "keeps_dead body" "bit (sock_htc (sock st)) 63"
  shows "bit (sock_htc (sock (socket_cas b body st))) 63"
proof (cases "body (sock_htc (sock st))")
  case (CasTry d r)
  with assms have "bit d 63" by (auto simp: keeps_dead_def split: cas_step.splits)
  then show ?thesis using CasTry assms(2) by (auto simp: socket_cas_def split: option.split)
qed (use assms(2) in \<open>auto simp: socket_cas_def split: option.split\<close>)

lemma ops_keep_dead:
  assumes "socket_dead (sock st)"
  shows "socket_dead (sock (snd (schedi_job_epollsocket_return b rcv sd st ev)))"
    and "socket_dead (sock (snd (schedi_job_epollsocket_done_side b st side)))"
proof -
  have d: "bit (sock_htc (sock st)) 63" using assms by (simp add: socket_flag_iff)
  note k = cas_keeps_dead[OF bodies_keep_dead(1)] cas_keeps_dead[OF bodies_keep_dead(2)]
    cas_keeps_dead[OF bodies_keep_dead(3)] cas_keeps_dead[OF bodies_keep_dead(4)]
  have w: "bit (sock_htc (sock (snd (schedi_job_epollsocket_write_return b r1 r2 st)))) 63" for r1 r2
    using d by (cases r1; simp add: schedi_job_epollsocket_write_return_def Let_def socket_cas_ops case_prod_beta k)
  have r: "bit (sock_htc (sock (snd (schedi_job_epollsocket_read_return b r1 r2 st)))) 63" for r1 r2
    using d by (cases r1; simp add: schedi_job_epollsocket_read_return_def Let_def socket_cas_ops case_prod_beta k)
  show "socket_dead (sock (snd (schedi_job_epollsocket_return b rcv sd st ev)))"
    using d w r by (simp add: schedi_job_epollsocket_return_def Let_def socket_cas_ops case_prod_beta k socket_flag_iff)
  show "socket_dead (sock (snd (schedi_job_epollsocket_done_side b st side)))"
    using d by (simp add: schedi_job_epollsocket_done_side_def Let_def socket_cas_ops k socket_flag_iff)
qed

section \<open>The streams of a socket on the heap\<close>

text \<open>
  As long as the socket at \<open>p\<close> is allocated, \<open>w\<close> is what has been written to it, sent or
  waiting, \<open>g\<close> what has been read from it and \<open>a\<close> what has arrived.
\<close>

definition flows :: "build \<Rightarrow> ep_state \<Rightarrow> nat \<Rightarrow> u8 list \<Rightarrow> u8 list \<Rightarrow> u8 list \<Rightarrow> bool" where
  "flows b st p w g a \<longleftrightarrow> (\<forall>k. socks st p = Some k \<longrightarrow> sock_ok b k \<and> \<not> timed_out b k
     \<and> wires st p @ outgoing b k = w \<and> g @ incoming b k = a)"

definition view :: "ep_state \<Rightarrow> nat \<Rightarrow> epollsocket \<Rightarrow> sock_state" where
  "view st p k = \<lparr>sock = k, sys = ep_sys st, epoll_mods = [], timer_resets = 0, wire = wires st p\<rparr>"

lemma view_simps [simp]: "sock (view st p k) = k" "sys (view st p k) = ep_sys st" "wire (view st p k) = wires st p"
  by (simp_all add: view_def)

lemma on_socket_view:
  assumes "on_socket ctl st p k f = (r, st')"
  obtains v where "f (view st p k) = (r, v)" "socks st' = (socks st)(p \<mapsto> sock v)" "wires st' = (wires st)(p := wire v)"
    "ep_sys st' = sys v" "edata st' = edata st"
  using assms by (auto simp: on_socket_def view_def Let_def split: prod.splits)

lemma flows_cong:
  "socks st' p = socks st p \<Longrightarrow> wires st' p = wires st p \<Longrightarrow> flows b st' p w g a = flows b st p w g a"
  by (simp add: flows_def)

lemma flows_read:
  assumes "flows b st p w g a" "socks st p = Some k"
    and "on_socket ctl st p k (\<lambda>v. schedi_job_epollsocket_read b v n) = (data, st')"
  shows "flows b st' p w (g @ data) a" "data = take n (incoming b k)"
    "phases (ep_sys st') = phases (ep_sys st)" "\<exists>k'. socks st' p = Some k'"
proof -
  have k: "sock_ok b k" "\<not> timed_out b k" "wires st p @ outgoing b k = w" "g @ incoming b k = a"
    using assms(1,2) by (simp_all add: flows_def)
  obtain v where v: "schedi_job_epollsocket_read b (view st p k) n = (data, v)" "socks st' = (socks st)(p \<mapsto> sock v)"
    "wires st' = (wires st)(p := wire v)" "ep_sys st' = sys v" by (rule on_socket_view[OF assms(3)])
  note e = read_effect[of b "view st p k", simplified, OF k(1,2) v(1)]
  show "flows b st' p w (g @ data) a" using e k v by (auto simp: flows_def)
  show "data = take n (incoming b k)" by (rule e(1))
  show "phases (ep_sys st') = phases (ep_sys st)" using phases_socket_ops(1)[of b "view st p k" n] v by simp
  show "\<exists>k'. socks st' p = Some k'" using v(2) by simp
qed

lemma flows_write:
  assumes "flows b st p w g a" "socks st p = Some k" "send_fits (length data) r"
    and "on_socket ctl st p k (\<lambda>v. schedi_job_epollsocket_write b r v data) = (ret, st')"
  shows "flows b st' p (w @ take (nat ret) data) g a" "phases (ep_sys st') = phases (ep_sys st)"
    and "w = [] \<Longrightarrow> length data \<le> BUF \<Longrightarrow> if r = SendError
      then ret = -1 \<and> (\<forall>k'. socks st' p = Some k' \<longrightarrow> socket_dead k') else ret = int (length data)"
    and "\<exists>k'. socks st' p = Some k'"
proof -
  have k: "sock_ok b k" "\<not> timed_out b k" "wires st p @ outgoing b k = w" "g @ incoming b k = a"
    using assms(1,2) by (simp_all add: flows_def)
  obtain v where v: "schedi_job_epollsocket_write b r (view st p k) data = (ret, v)" "socks st' = (socks st)(p \<mapsto> sock v)"
    "wires st' = (wires st)(p := wire v)" "ep_sys st' = sys v" by (rule on_socket_view[OF assms(4)])
  note e = write_effect[of b "view st p k", simplified, OF k(1,2) assms(3) v(1)]
  show "flows b st' p (w @ take (nat ret) data) g a" using e k v by (auto simp: flows_def)
  show "phases (ep_sys st') = phases (ep_sys st)" using phases_socket_ops(2)[of b r "view st p k" data] v by simp
  show "\<exists>k'. socks st' p = Some k'" using v(2) by simp
  assume "w = []" "length data \<le> BUF"
  then have "outgoing b k = []" using k(3) by simp
  then have full: "avl b (sock_htc k) = BUF" using k(1) by (auto simp: outgoing_def sock_ok_def simp flip: length_0_conv)
  show "if r = SendError then ret = -1 \<and> (\<forall>k'. socks st' p = Some k' \<longrightarrow> socket_dead k') else ret = int (length data)"
  proof (cases "r = SendError")
    case True
    with full v(1) have "ret = -1" "v = schedi_job_epollsocket_dead b (view st p k)"
      by (simp_all add: schedi_job_epollsocket_write_def avail_from_avl)
    then show ?thesis using dead_effect(5)[of b "view st p k"] k(1) v(2) True by simp
  next
    case False
    with write_complete[of b "view st p k" data r] k assms(3) full v(1) \<open>length data \<le> BUF\<close> show ?thesis by simp
  qed
qed

lemma flows_done:
  assumes "flows b st p w g a" "socks st p = Some k" "epollsocket_done_at b ctl st p k side = (r, st')"
  shows "flows b st' p w g a" "phases (ep_sys st') = phases (ep_sys st)"
    and "socket_dead k \<Longrightarrow> socks st' p = Some k' \<Longrightarrow> socket_dead k'"
proof -
  have k: "sock_ok b k" "\<not> timed_out b k" "wires st p @ outgoing b k = w" "g @ incoming b k = a"
    using assms(1,2) by (simp_all add: flows_def)
  obtain st1 where s: "on_socket ctl st p k (\<lambda>v. schedi_job_epollsocket_done_side b v side) = (r, st1)"
    "st' = (if r = 0 then st1\<lparr>socks := (socks st1)(p := None)\<rparr> else st1)"
    using assms(3) by (auto simp: epollsocket_done_at_def Let_def split: prod.splits)
  obtain v where v: "schedi_job_epollsocket_done_side b (view st p k) side = (r, v)" "socks st1 = (socks st)(p \<mapsto> sock v)"
    "wires st1 = (wires st)(p := wire v)" "ep_sys st1 = sys v" by (rule on_socket_view[OF s(1)])
  note e = done_side_effect[of b "view st p k", simplified, OF k(1,2) v(1)]
  show "flows b st' p w g a" using e k v s(2) by (auto simp: flows_def split: if_splits)
  show "phases (ep_sys st') = phases (ep_sys st)" using phases_socket_ops(4)[of b "view st p k" side] v s(2) by simp
  show "socket_dead k'" if "socket_dead k" "socks st' p = Some k'"
    using ops_keep_dead(2)[of "view st p k" b side] that v s(2) by (auto split: if_splits)
qed

text \<open>What an event brings in.\<close>

definition event_bytes :: "build \<Rightarrow> epollsocket \<Rightarrow> ep_event \<Rightarrow> u8 list" where
  "event_bytes b k ev = (if ev_events ev AND EPOLLIN \<noteq> 0 then arrived b k (fst (ev_recv ev)) (snd (ev_recv ev)) else [])"

lemma flows_event:
  assumes "\<not> ext_timeout b" "flows b st p w g a" "socks st p = Some k"
    and "fill_fits b k (fst (ev_recv ev)) (snd (ev_recv ev))" "flush_fits b k (fst (ev_send ev)) (snd (ev_send ev))"
    and "handle_socket_event b ctl st d p ev = Returns st'"
  shows "flows b st' p w g (a @ event_bytes b k ev)" "phases (ep_sys st') = phases (ep_sys st)"
    and "socket_dead k \<Longrightarrow> socks st' p = Some k' \<Longrightarrow> socket_dead k'"
proof -
  have k: "sock_ok b k" "\<not> timed_out b k" "wires st p @ outgoing b k = w" "g @ incoming b k = a"
    using assms(2,3) by (simp_all add: flows_def)
  obtain r st1 where s: "on_socket ctl st p k (\<lambda>v. schedi_job_epollsocket_return b (ev_recv ev) (ev_send ev) v (ev_events ev)) = (r, st1)"
    by force
  obtain v where v: "schedi_job_epollsocket_return b (ev_recv ev) (ev_send ev) (view st p k) (ev_events ev) = (r, v)"
    "socks st1 = (socks st)(p \<mapsto> sock v)" "wires st1 = (wires st)(p := wire v)" "ep_sys st1 = sys v"
    by (rule on_socket_view[OF s])
  note e = return_effect[of b "view st p k", simplified, OF k(1,2) assms(4,5) v(1)]
  have f1: "flows b st1 p w g (a @ event_bytes b k ev)"
    using e k v by (auto simp: flows_def event_bytes_def)
  have p1: "phases (ep_sys st1) = phases (ep_sys st)"
    using phases_socket_ops(3)[of b "ev_recv ev" "ev_send ev" "view st p k" "ev_events ev"] v by simp
  have d1: "socket_dead k \<Longrightarrow> socket_dead (sock v)"
    using ops_keep_dead(1)[of "view st p k" b "ev_recv ev" "ev_send ev" "ev_events ev"] v(1) by simp
  define st2 where "st2 = free_data (schedi_epoll_del_socketcompletely b ctl st1 (sock v)) d"
  have s2: "socks st2 = socks st1" "wires st2 = wires st1" "ep_sys st2 = ep_sys st1"
    using assms(1) by (simp_all add: st2_def schedi_epoll_del_socketcompletely_def)
  have st': "st' = (if r \<noteq> 0 then snd (epollsocket_done_at b ctl st2 p (sock v) True) else st1)"
    using assms(3,6) s v(2) by (auto simp: handle_socket_event_def drop_socket_def st2_def)
  have f2: "flows b st2 p w g (a @ event_bytes b k ev)" using f1 s2 flows_cong[of st2 p st1] by simp
  have "socks st2 p = Some (sock v)" using s2(1) v(2) by simp
  note dn = flows_done[OF f2 this surjective_pairing, of ctl True]
  show "flows b st' p w g (a @ event_bytes b k ev)" using f1 dn(1) st' by simp
  show "phases (ep_sys st') = phases (ep_sys st)" using p1 dn(2) s2(3) st' by simp
  show "socket_dead k'" if dead: "socket_dead k" and k': "socks st' p = Some k'"
  proof (cases "r = 0")
    case True
    then have "k' = sock v" using st' k' v(2) by simp
    with d1[OF dead] show ?thesis by simp
  next
    case False
    show ?thesis by (rule dn(3)[OF d1[OF dead]]) (use False st' k' in simp)
  qed
qed

lemma epoll_add_frame [simp]:
  "socks (snd (schedi_epoll_add ctl st fd d ev)) = socks st" "wires (snd (schedi_epoll_add ctl st fd d ev)) = wires st"
  "ep_sys (snd (schedi_epoll_add ctl st fd d ev)) = ep_sys st"
  by (simp_all add: schedi_epoll_add_def Let_def case_prod_beta split: option.split)

lemma flows_made:
  assumes "\<not> ext_timeout b" "length (fst (env_bufs env)) = BUF" "length (snd (env_bufs env)) = BUF"
    and "make_socket b ctl env c st job rc = (c', st')" "ctx_socket c' = Some p"
  shows "flows b st' p [] [] []" "phases (ep_sys st') = phases (ep_sys st)" "c' = c\<lparr>ctx_socket := Some p\<rparr>"
    "\<exists>k. socks st' p = Some k"
proof -
  define k where "k = new_epollsocket b job (gen (jobs (ep_sys st) job)) (ctx_fd c) rc 0 (env_bufs env)"
  define upd :: "int \<Rightarrow> ep_state \<Rightarrow> ep_state" where "upd = (\<lambda>delta s. if has_flag (sock_htc k) SCHEDI_JOB_EPOLLSOCKET_READY
    then s\<lparr>ep_sys := snd (schedi_job_meta_flag_cas_update b (ep_sys s) job delta 0 0 0 0 False)\<rparr> else s)"
  have upd: "socks (upd delta s) = socks s" "wires (upd delta s) = wires s" "phases (ep_sys (upd delta s)) = phases (ep_sys s)"
    for delta s by (simp_all add: upd_def phases_kept)
  define st1 where "st1 = upd 1 (st\<lparr>socks := (socks st)(env_ptr env \<mapsto> k), wires := (wires st)(env_ptr env := [])\<rparr>)"
  obtain r st2 where q: "schedi_job_epollsocket_push_epoll ctl (snd (env_ds env)) st1 (env_ptr env) k = (r, st2)" by force
  have st2: "socks st2 = (socks st1)(env_ptr env \<mapsto> k\<lparr>data_ptr := snd (env_ds env)\<rparr>)" "wires st2 = wires st1"
    "ep_sys st2 = ep_sys st1"
    using q epoll_add_frame by (auto simp: schedi_job_epollsocket_push_epoll_def dest!: arg_cong[of _ _ snd])
  have "fst (schedi_job_tool_epollsocket b ctl (env_tfd env) (env_sets env) (env_ds env) (env_bufs env)
      (env_ptr env) st job (ctx_fd c) rc 0 3) = Some p"
    using assms(4,5) by (auto simp: make_socket_def case_prod_beta)
  then have p: "p = env_ptr env" and t: "schedi_job_tool_epollsocket b ctl (env_tfd env) (env_sets env) (env_ds env)
      (env_bufs env) (env_ptr env) st job (ctx_fd c) rc 0 3 = (Some p, st2)"
    using q unfolding st1_def upd_def
    by (cases "has_flag (sock_htc k) SCHEDI_JOB_EPOLLSOCKET_READY";
        simp add: schedi_job_tool_epollsocket_def k_def[symmetric] epollisize_plain[OF assms(1)] assms(1) Let_def
          split: if_splits)+
  have st': "st' = st2\<lparr>ep_sys := schedi_job_required_available_socket b (ep_sys st2) job 1\<rparr>"
    and c': "c' = c\<lparr>ctx_socket := Some p\<rparr>"
    using assms(4) t by (simp_all add: make_socket_def)
  show "c' = c\<lparr>ctx_socket := Some p\<rparr>" by (rule c')
  have s: "socks st' p = Some (k\<lparr>data_ptr := snd (env_ds env)\<rparr>)" "wires st' p = []"
    using st' st2 by (simp_all add: p st1_def upd)
  then show "\<exists>k. socks st' p = Some k" by simp
  show "phases (ep_sys st') = phases (ep_sys st)" using st' st2(3) by (simp add: phases_kept st1_def upd)
  note n = new_epollsocket_ok[OF assms(2,3), of b job "gen (jobs (ep_sys st) job)" "ctx_fd c" rc 0, folded k_def]
  have "sock_ok b (k\<lparr>data_ptr := d\<rparr>) = sock_ok b k" "timed_out b (k\<lparr>data_ptr := d\<rparr>) = timed_out b k"
    "outgoing b (k\<lparr>data_ptr := d\<rparr>) = outgoing b k" "incoming b (k\<lparr>data_ptr := d\<rparr>) = incoming b k" for d
    by (simp_all add: sock_ok_def timed_out_def outgoing_def incoming_def)
  then show "flows b st' p [] [] []" using s n by (simp add: flows_def)
qed

section \<open>Runs of the echo server\<close>

text \<open>
  The life of one connection: the first call of the job function makes the socket; then
  events of its descriptor, further calls, and anything that other jobs and sockets do
  follow in any order. \<open>a\<close> is what has arrived from the client.
\<close>

inductive echo_run :: "build \<Rightarrow> kernel \<Rightarrow> nat \<Rightarrow> sock_ctx \<times> ep_state \<Rightarrow> u8 list \<Rightarrow> bool" for b ctl job where
  started: "phase (jobs (ep_sys st) job) = 0 \<Longrightarrow> length (fst (env_bufs env)) = BUF \<Longrightarrow>
    length (snd (env_bufs env)) = BUF \<Longrightarrow> echo_job_func b ctl env r c st job = Returns (ret, c', st') \<Longrightarrow>
    ctx_socket c' = Some p \<Longrightarrow> echo_run b ctl job (c', st') []"
| event: "echo_run b ctl job (c, st) a \<Longrightarrow> ctx_socket c = Some p \<Longrightarrow> socks st p = Some k \<Longrightarrow>
    fill_fits b k (fst (ev_recv ev)) (snd (ev_recv ev)) \<Longrightarrow> flush_fits b k (fst (ev_send ev)) (snd (ev_send ev)) \<Longrightarrow>
    ev_data ev = Some d \<Longrightarrow> edata st d = Some (EpollDataSocket p) \<Longrightarrow> handler b ctl i st ev = Returns st' \<Longrightarrow>
    echo_run b ctl job (c, st') (a @ event_bytes b k ev)"
| called: "echo_run b ctl job (c, st) a \<Longrightarrow> ctx_socket c = Some p \<Longrightarrow> socks st p = Some k \<Longrightarrow>
    send_fits (min 255 (cnt b (sock_htc k))) r \<Longrightarrow> echo_job_func b ctl env r c st job = Returns (ret, c', st') \<Longrightarrow>
    echo_run b ctl job (c', st') a"
| others: "echo_run b ctl job (c, st) a \<Longrightarrow> ctx_socket c = Some p \<Longrightarrow> socks st' p = socks st p \<Longrightarrow>
    wires st' p = wires st p \<Longrightarrow> phase (jobs (ep_sys st') job) = phase (jobs (ep_sys st) job) \<Longrightarrow>
    echo_run b ctl job (c, st') a"

definition echoing :: "build \<Rightarrow> nat \<Rightarrow> nat \<Rightarrow> ep_state \<Rightarrow> u8 list \<Rightarrow> bool" where
  "echoing b job p st a \<longleftrightarrow>
     phases (ep_sys st) job = 1 \<and> flows b st p [] [] a
     \<or> phases (ep_sys st) job = 2 \<and> (\<exists>got w. got \<noteq> [] \<and> length got \<le> 255 \<and> flows b st p w got a
         \<and> (w = got \<or> w = [] \<and> (\<forall>k. socks st p = Some k \<longrightarrow> socket_dead k)))"

lemma echoingI:
  "phases (ep_sys st) job = 1 \<Longrightarrow> flows b st p [] [] a \<Longrightarrow> echoing b job p st a"
  "phases (ep_sys st) job = 2 \<Longrightarrow> got \<noteq> [] \<Longrightarrow> length got \<le> 255 \<Longrightarrow> flows b st p w got a \<Longrightarrow>
    w = got \<or> w = [] \<and> (\<forall>k. socks st p = Some k \<longrightarrow> socket_dead k) \<Longrightarrow> echoing b job p st a"
  unfolding echoing_def by blast+

lemma echoing_cases:
  assumes "echoing b job p st a"
  obtains (waiting) "phases (ep_sys st) job = 1" "flows b st p [] [] a"
  | (echoed) got w where "phases (ep_sys st) job = 2" "got \<noteq> []" "length got \<le> 255" "flows b st p w got a"
      "w = got \<or> w = [] \<and> (\<forall>k. socks st p = Some k \<longrightarrow> socket_dead k)"
  using assms unfolding echoing_def by blast

lemma handler_socket:
  "ev_data ev = Some d \<Longrightarrow> edata st d = Some (EpollDataSocket p) \<Longrightarrow>
    handler b ctl i st ev = handle_socket_event b ctl st d p ev"
  by (cases i) (simp_all add: handler_def schedi_epoll_handle_read_def schedi_epoll_handle_write_def)

lemma set_phase_simps [simp]:
  "socks (set_phase job ph st) = socks st" "wires (set_phase job ph st) = wires st"
  "phases (ep_sys (set_phase job ph st)) = (phases (ep_sys st))(job := ph)"
  by (simp_all add: set_phase_def phases_def fun_eq_iff)

text \<open>A call of the second phase that finds data writes them, unless the connection has an error.\<close>

lemma echo_call_data:
  assumes "phases (ep_sys st) job = 1" "flows b st p [] [] a" "ctx_socket c = Some p" "socks st p = Some k" "incoming b k \<noteq> []"
    and "send_fits (min 255 (cnt b (sock_htc k))) r"
  obtains st' k' got w where "echo_job_func b ctl env r c st job = Returns (1, c, st')" "phases (ep_sys st') job = 2"
    "flows b st' p w got a" "socks st' p = Some k'" "got = take 255 a" "got \<noteq> []"
    "if r = SendError then w = [] \<and> socket_dead k' else w = got"
proof -
  obtain buf st1 where rd: "on_socket ctl st p k (\<lambda>v. schedi_job_epollsocket_read b v 255) = (buf, st1)" by force
  note r1 = flows_read[OF assms(2,4) rd]
  then obtain k1 where k1: "socks st1 p = Some k1" by blast
  have f1: "flows b st1 p [] buf a" using r1(1) by simp
  have a: "incoming b k = a" using assms(2,4) by (simp add: flows_def)
  have ne: "buf \<noteq> []" using r1(2) assms(5) by simp
  obtain n st2 where wr: "on_socket ctl st1 p k1 (\<lambda>v. schedi_job_epollsocket_write b r v buf) = (n, st2)" by force
  have len: "length buf = min 255 (cnt b (sock_htc k))" using r1(2) by (simp add: incoming_def)
  then have fit: "send_fits (length buf) r" "length buf \<le> BUF"
    using assms(6) by (simp_all add: SCHEDI_JOB_EPOLLSOCKET_BUFFERSIZE_def)
  note w = flows_write[OF f1 k1 fit(1) wr]
  obtain k2 where k2: "socks st2 p = Some k2" using w(4) by blast
  let ?st' = "set_phase job 2 st2"
  have "echo_job_func b ctl env r c st job = Returns (1, c, ?st')"
    using assms(1,3,4) rd wr k1 ne by (simp add: echo_job_func_def phases_def)
  moreover have "flows b ?st' p (take (nat n) buf) buf a" using w(1) flows_cong[of ?st' p st2] by simp
  moreover have "if r = SendError then take (nat n) buf = [] \<and> socket_dead k2 else take (nat n) buf = buf"
    using w(3)[OF refl fit(2)] k2 by (simp split: if_splits)
  moreover have "buf = take 255 a" using r1(2) a by simp
  ultimately show ?thesis using k2 ne by (intro that[of ?st' "take (nat n) buf" buf k2]) simp_all
qed

lemma echo_call:
  assumes "echoing b job p st a" "ctx_socket c = Some p" "socks st p = Some k"
    and "send_fits (min 255 (cnt b (sock_htc k))) r" "echo_job_func b ctl env r c st job = Returns (ret, c', st')"
  shows "c' = c \<and> echoing b job p st' a"
  using assms(1)
proof (cases rule: echoing_cases)
  case waiting
  show ?thesis
  proof (cases "incoming b k = []")
    case True
    obtain buf st1 where rd: "on_socket ctl st p k (\<lambda>v. schedi_job_epollsocket_read b v 255) = (buf, st1)" by force
    note r1 = flows_read[OF waiting(2) assms(3) rd]
    then have "buf = []" "phases (ep_sys st1) job = 1" "flows b st1 p [] [] a" using True waiting(1) by simp_all
    moreover from this have "c' = c" "st' = st1"
      using assms(2,3,5) rd waiting(1) by (simp_all add: echo_job_func_def phases_def)
    ultimately show ?thesis by (simp add: echoingI(1))
  next
    case False
    obtain st2 k' got w where d: "echo_job_func b ctl env r c st job = Returns (1, c, st2)" "phases (ep_sys st2) job = 2"
      "flows b st2 p w got a" "socks st2 p = Some k'" "got = take 255 a" "got \<noteq> []"
      "if r = SendError then w = [] \<and> socket_dead k' else w = got"
      by (rule echo_call_data[OF waiting assms(2,3) False assms(4)])
    have "length got \<le> 255" "w = got \<or> w = [] \<and> (\<forall>k. socks st2 p = Some k \<longrightarrow> socket_dead k)"
      using d(4,5,7) by (auto split: if_splits)
    from echoingI(2)[OF d(2,6) this(1) d(3) this(2)] d(1) assms(5) show ?thesis by simp
  qed
next
  case (echoed got w)
  then show ?thesis using assms by (auto simp: echo_job_func_def phases_def)
qed

lemma echo_run_inv:
  assumes "echo_run b ctl job (c, st) a" "\<not> ext_timeout b"
  shows "\<exists>p. ctx_socket c = Some p \<and> echoing b job p st a"
  using assms(1)
proof (induction "(c, st)" a arbitrary: c st rule: echo_run.induct)
  case (started st env r c ret c' st' p)
  obtain c1 st1 where m: "make_socket b ctl env c st job 1 = (c1, st1)" by force
  have e: "c' = c1" "st' = set_phase job 1 st1" using started(1,4) m by (simp_all add: echo_job_func_def)
  note fm = flows_made[OF assms(2) started(2,3) m, of p]
  have "flows b st' p [] [] []" using fm(1) started(5) e flows_cong[of st' p st1] by simp
  then show ?case using started(5) e by (simp add: echoing_def)
next
  case (event c st a p k ev d i st')
  then have f: "echoing b job p st a" by auto
  have h: "handle_socket_event b ctl st d p ev = Returns st'" using event(7-9) handler_socket by metis
  note e = flows_event[OF assms(2) _ event(4-6) h]
  from f have "echoing b job p st' (a @ event_bytes b k ev)"
  proof (cases rule: echoing_cases)
    case waiting
    with e(1,2) show ?thesis by (auto intro: echoingI(1))
  next
    case (echoed got w)
    have "phases (ep_sys st') job = 2" using e(2)[OF echoed(4)] echoed(1) by simp
    moreover have "w = got \<or> w = [] \<and> (\<forall>k'. socks st' p = Some k' \<longrightarrow> socket_dead k')"
      using echoed(5) event(4) e(3)[OF echoed(4)] by blast
    ultimately show ?thesis by (rule echoingI(2)[OF _ echoed(2,3) e(1)[OF echoed(4)]])
  qed
  then show ?case using event(3) by blast
next
  case (called c st a p k r env ret c' st')
  then have "echoing b job p st a" by auto
  from echo_call[OF this called(3-6)] called(3) show ?case by auto
next
  case (others c st a p st')
  then have "echoing b job p st a" by auto
  moreover have "flows b st' p w g a = flows b st p w g a" for w g using others(4,5) by (rule flows_cong)
  ultimately show ?case using others(3,4,6) by (auto simp: echoing_def phases_def)
qed


definition example_env :: sock_env where
  "example_env = \<lparr>env_tfd = -1, env_sets = (0, 0), env_ds = (0, 7), env_bufs = (replicate BUF 0, replicate BUF 0), env_ptr = 0\<rparr>"

definition example_ctx :: sock_ctx where
  "example_ctx = \<lparr>ctx_fd = 5, ctx_socket = None, ctx_exit = False\<rparr>"

definition hello :: ep_event where
  "hello = \<lparr>ev_events = EPOLLIN, ev_data = Some 7, ev_recv = (Got [7, 8, 9], RecvAgain), ev_send = (SendAgain, SendAgain)\<rparr>"

definition echo_made :: ep_state where
  "echo_made = set_phase 0 1 (snd (make_socket example_build plain_kernel example_env example_ctx ep_start 0 1))"

definition echo_got :: ep_state where
  "echo_got = (case schedi_epoll_handle_read example_build plain_kernel echo_made hello of Returns st \<Rightarrow> st | _ \<Rightarrow> echo_made)"

lemma example_context:
  "fst (make_socket example_build plain_kernel example_env example_ctx ep_start 0 1) = example_ctx\<lparr>ctx_socket := Some 0\<rparr>"
  "fst (make_socket example_build plain_kernel example_env example_ctx ep_start 0 20) = example_ctx\<lparr>ctx_socket := Some 0\<rparr>"
proof -
  have "ctx_socket (fst (make_socket example_build plain_kernel example_env example_ctx ep_start 0 1)) = Some 0"
    "ctx_socket (fst (make_socket example_build plain_kernel example_env example_ctx ep_start 0 20)) = Some 0" by code_simp+
  then show "fst (make_socket example_build plain_kernel example_env example_ctx ep_start 0 1) = example_ctx\<lparr>ctx_socket := Some 0\<rparr>"
    "fst (make_socket example_build plain_kernel example_env example_ctx ep_start 0 20) = example_ctx\<lparr>ctx_socket := Some 0\<rparr>"
    by (simp_all add: make_socket_def case_prod_beta)
qed

lemma ep_start_phase: "phase (jobs (ep_sys ep_start) j) = 0"
  by (simp add: ep_start_def static_jobsys_def null_job_def)

lemma hello_bytes:
  assumes "cnt example_build (sock_htc k) = 0" "read_head k = 0"
  shows "event_bytes example_build k hello = [7, 8, 9]" "fill_fits example_build k (Got [7, 8, 9]) RecvAgain"
    "flush_fits example_build k SendAgain SendAgain"
  using assms by (simp_all add: event_bytes_def hello_def arrived_def fill_fits_def flush_fits_def recv_fits_def send_fits_def
      EPOLLIN_def SCHEDI_JOB_EPOLLSOCKET_BUFFERSIZE_def)

lemma hello_event:
  assumes "flows example_build st 0 [] [] []" "edata st 7 = Some (EpollDataSocket 0)"
    and "map_option read_head (socks st 0) = Some 0"
  obtains k k' st' where "socks st 0 = Some k" "event_bytes example_build k hello = [7, 8, 9]"
    "fill_fits example_build k (fst (ev_recv hello)) (snd (ev_recv hello))"
    "flush_fits example_build k (fst (ev_send hello)) (snd (ev_send hello))"
    "handler example_build plain_kernel EpRead st hello = Returns st'"
    "flows example_build st' 0 [] [] [7, 8, 9]" "phases (ep_sys st') = phases (ep_sys st)" "socks st' 0 = Some k'"
proof -
  obtain k where k: "socks st 0 = Some k" "read_head k = 0" using assms(3) by auto
  with assms(1) have "incoming example_build k = []" by (simp add: flows_def)
  then have c: "cnt example_build (sock_htc k) = 0" unfolding incoming_def by (metis length_ring_slice list.size(3))
  note hb = hello_bytes[OF c k(2)]
  let ?o = "on_socket plain_kernel st 0 k (\<lambda>v. schedi_job_epollsocket_return example_build
      (Got [7, 8, 9], RecvAgain) (SendAgain, SendAgain) v EPOLLIN)"
  have "fst (schedi_job_epollsocket_return example_build (Got [7, 8, 9], RecvAgain) (SendAgain, SendAgain)
      (view st 0 k) EPOLLIN) = 0"
    by (simp add: schedi_job_epollsocket_return_def schedi_job_epollsocket_read_return_def Let_def count_from_cnt k c
        EPOLLIN_def EPOLLOUT_def EPOLLERR_def EPOLLHUP_def SCHEDI_JOB_EPOLLSOCKET_BUFFERSIZE_def)
  then have h: "handle_socket_event example_build plain_kernel st 7 0 hello = Returns (snd ?o)"
    using k(1) by (simp add: handle_socket_event_def hello_def case_prod_beta on_socket_fst view_def)
  have fits: "fill_fits example_build k (fst (ev_recv hello)) (snd (ev_recv hello))"
    "flush_fits example_build k (fst (ev_send hello)) (snd (ev_send hello))"
    using hb by (simp_all add: hello_def)
  have "\<not> ext_timeout example_build" by (simp add: example_build_def)
  note e = flows_event(1,2)[OF this assms(1) k(1) fits h]
  have "handler example_build plain_kernel EpRead st hello = Returns (snd ?o)"
    using handler_socket[of hello 7 st 0 example_build plain_kernel EpRead] assms(2) h by (simp add: hello_def)
  then show ?thesis using that[OF k(1) hb(1) fits] e hb(1) by (simp add: on_socket_socks)
qed

lemma echo_got_run:
  "echo_run example_build plain_kernel 0 (example_ctx\<lparr>ctx_socket := Some 0\<rparr>, echo_got) [7, 8, 9]"
  "phases (ep_sys echo_got) 0 = 1" "flows example_build echo_got 0 [] [] [7, 8, 9]" "socks echo_got 0 \<noteq> None"
proof -
  let ?c = "example_ctx\<lparr>ctx_socket := Some 0\<rparr>"
  have "echo_job_func example_build plain_kernel example_env SendAgain example_ctx ep_start 0 = Returns (1, ?c, echo_made)"
    by (simp add: echo_job_func_def echo_made_def case_prod_beta example_context ep_start_phase)
  then have made: "echo_run example_build plain_kernel 0 (?c, echo_made) []"
    by (rule echo_run.started[rotated 3]) (simp_all add: ep_start_phase example_env_def)
  have b: "\<not> ext_timeout example_build" by (simp add: example_build_def)
  have ph: "phases (ep_sys echo_made) 0 = 1" by (simp add: echo_made_def)
  have fl: "flows example_build echo_made 0 [] [] []" using echo_run_inv[OF made b] ph by (auto elim: echoing_cases)
  have d: "edata echo_made 7 = Some (EpollDataSocket 0)" by code_simp
  have rh: "map_option read_head (socks echo_made 0) = Some 0" by code_simp
  obtain k k' st' where e: "socks echo_made 0 = Some k" "event_bytes example_build k hello = [7, 8, 9]"
    "fill_fits example_build k (fst (ev_recv hello)) (snd (ev_recv hello))"
    "flush_fits example_build k (fst (ev_send hello)) (snd (ev_send hello))"
    "handler example_build plain_kernel EpRead echo_made hello = Returns st'"
    "flows example_build st' 0 [] [] [7, 8, 9]" "phases (ep_sys st') = phases (ep_sys echo_made)" "socks st' 0 = Some k'"
    by (rule hello_event[OF fl d rh])
  then have "st' = echo_got" by (simp add: echo_got_def handler_def)
  then show "phases (ep_sys echo_got) 0 = 1" "flows example_build echo_got 0 [] [] [7, 8, 9]" "socks echo_got 0 \<noteq> None"
    using e(6-8) ph by simp_all
  from echo_run.event[OF made _ e(1,3,4) _ d e(5)] \<open>st' = echo_got\<close> e(2)
  show "echo_run example_build plain_kernel 0 (?c, echo_got) [7, 8, 9]" by (simp add: hello_def)
qed


section \<open>Runs of the printing server\<close>

text \<open>\<open>out\<close> is what the calls have printed of the data.\<close>

inductive reader_run :: "build \<Rightarrow> kernel \<Rightarrow> nat \<Rightarrow> sock_ctx \<times> ep_state \<Rightarrow> u8 list \<Rightarrow> u8 list \<Rightarrow> bool" for b ctl job where
  started: "\<not> ctx_exit c \<Longrightarrow> ctx_socket c = None \<Longrightarrow> length (fst (env_bufs env)) = BUF \<Longrightarrow>
    length (snd (env_bufs env)) = BUF \<Longrightarrow> reader_job_func b ctl env c st job = Returns (ret, out, c', st') \<Longrightarrow>
    ctx_socket c' = Some p \<Longrightarrow> reader_run b ctl job (c', st') out []"
| event: "reader_run b ctl job (c, st) out a \<Longrightarrow> ctx_socket c = Some p \<Longrightarrow> socks st p = Some k \<Longrightarrow>
    fill_fits b k (fst (ev_recv ev)) (snd (ev_recv ev)) \<Longrightarrow> flush_fits b k (fst (ev_send ev)) (snd (ev_send ev)) \<Longrightarrow>
    ev_data ev = Some d \<Longrightarrow> edata st d = Some (EpollDataSocket p) \<Longrightarrow> handler b ctl i st ev = Returns st' \<Longrightarrow>
    reader_run b ctl job (c, st') out (a @ event_bytes b k ev)"
| called: "reader_run b ctl job (c, st) out a \<Longrightarrow> reader_job_func b ctl env c st job = Returns (ret, data, c', st') \<Longrightarrow>
    reader_run b ctl job (c', st') (out @ data) a"
| others: "reader_run b ctl job (c, st) out a \<Longrightarrow> ctx_socket c = Some p \<Longrightarrow> socks st' p = socks st p \<Longrightarrow>
    wires st' p = wires st p \<Longrightarrow> reader_run b ctl job (c, st') out a"

lemma gives_up_flows:
  assumes "flows b st p w g a" "reader_gives_up b ctl c st p = Returns (ret, data, c', st')"
  shows "data = [] \<and> c' = c\<lparr>ctx_exit := True\<rparr> \<and> flows b st' p w g a"
proof (cases "socks st p")
  case (Some k)
  from flows_done(1)[OF assms(1) Some surjective_pairing] assms(2) Some show ?thesis
    by (auto simp: reader_gives_up_def)
qed (use assms(2) in \<open>simp add: reader_gives_up_def\<close>)

lemma reader_call:
  assumes "\<not> ext_timeout b" "ctx_socket c = Some p" "flows b st p w g a"
    and "reader_job_func b ctl env c st job = Returns (ret, data, c', st')"
  shows "ctx_socket c' = Some p \<and> flows b st' p w (g @ data) a \<and> (ret < 0 \<longrightarrow> ctx_exit c)
    \<and> (data \<noteq> [] \<longrightarrow> (\<exists>rest. a = g @ data @ rest))"
proof (cases "ctx_exit c")
  case True
  then show ?thesis using assms by (simp add: reader_job_func_def)
next
  case False
  then obtain k where k: "socks st p = Some k"
    using assms(2,4) by (auto simp: reader_job_func_def split: option.splits)
  obtain d st1 where rd: "on_socket ctl st p k (\<lambda>v. schedi_job_epollsocket_read b v 20) = (d, st1)" by force
  note r = flows_read[OF assms(3) k rd]
  have a: "a = g @ incoming b k" using assms(3) k by (simp add: flows_def)
  then have "\<exists>rest. a = g @ d @ rest" using r(2) by (metis append_take_drop_id)
  moreover have f1: "flows b st1 p w g a" if "d = []" using r(1) that by simp
  have eq: "reader_job_func b ctl env c st job =
      (if socket_dead k then reader_gives_up b ctl c st p
       else if d \<noteq> [] then Returns (1, d, c, st1)
       else if socket_dead (the (socks st1 p)) then reader_gives_up b ctl c st1 p else Returns (1, [], c, st1))"
    using assms(1,2) False k rd by (simp add: reader_job_func_def)
  consider (dead) "reader_gives_up b ctl c st p = Returns (ret, data, c', st')"
    | (data) "d \<noteq> []" "Returns (1, d, c, st1) = Returns (ret, data, c', st')"
    | (ended) "d = []" "reader_gives_up b ctl c st1 p = Returns (ret, data, c', st')"
    | (none) "d = []" "Returns (1, [], c, st1) = Returns (ret, data, c', st')"
    using assms(4)[unfolded eq] by metis
  then have "ctx_socket c' = Some p \<and> flows b st' p w (g @ data) a \<and> (data \<noteq> [] \<longrightarrow> data = d) \<and> (ret < 0 \<longrightarrow> ctx_exit c)"
  proof cases
    case dead
    then have "ret = 1" by (auto simp: reader_gives_up_def split: option.splits)
    with gives_up_flows[OF assms(3) dead] assms(2) show ?thesis by simp
  next
    case data
    then show ?thesis using r(1) assms(2) by simp
  next
    case ended
    then have "ret = 1" by (auto simp: reader_gives_up_def split: option.splits)
    with gives_up_flows[OF f1[OF ended(1)] ended(2)] assms(2) show ?thesis by simp
  next
    case none
    then show ?thesis using f1 assms(2) by simp
  qed
  ultimately show ?thesis by blast
qed

lemma reader_run_inv:
  assumes "reader_run b ctl job (c, st) out a" "\<not> ext_timeout b"
  shows "\<exists>p rest. ctx_socket c = Some p \<and> flows b st p [] out a \<and> a = out @ rest"
  using assms(1)
proof (induction "(c, st)" out a arbitrary: c st rule: reader_run.induct)
  case (started c env st ret out c' st' p)
  obtain c1 st1 where m: "make_socket b ctl env c st job 20 = (c1, st1)" by force
  have e: "out = []" "c' = c1" "st' = st1" using started(1,2,5) m by (simp_all add: reader_job_func_def)
  show ?case using flows_made(1)[OF assms(2) started(3,4) m, of p] started(6) e by simp
next
  case (event c st out a p k ev d i st')
  then obtain rest where f: "flows b st p [] out a" "a = out @ rest" by auto
  have h: "handle_socket_event b ctl st d p ev = Returns st'" using event(7-9) handler_socket by metis
  show ?case using flows_event(1)[OF assms(2) f(1) event(4-6) h] event(3) f(2) by simp
next
  case (called c st out a env ret data c' st')
  then obtain p rest where f: "ctx_socket c = Some p" "flows b st p [] out a" "a = out @ rest" by auto
  from reader_call[OF assms(2) f(1,2) called(3)] f(3) show ?case by (cases "data = []") auto
next
  case (others c st out a p st')
  then show ?case using flows_cong[of st' p st b "[]" out a] by auto
qed


definition reader_made :: ep_state where
  "reader_made = snd (make_socket example_build plain_kernel example_env example_ctx ep_start 0 20)"


end
