(* ===== verification/Request_Example.thy ===== *)
theory Request_Example
  imports Epoll_Requests Job_Dependencies
begin

text \<open>
  Jobs that wait for one-time requests. The general result is about a job and any order in
  which it makes requests, their events come back and it suspends itself. The client
  program \<^verbatim>\<open>src/examples/onetimesocket.c\<close>, with the functions of \<^verbatim>\<open>create_server.h\<close> and
  \<^verbatim>\<open>accept_client.h\<close>, is such a job; what the system calls answer is an argument.
\<close>

section \<open>The program onetimesocket\<close>

definition JOB_COUNT :: nat where "JOB_COUNT = 4"

record onetime_ctx =
  serverfd :: int
  clientfd :: int
  port :: "16 word"
  server_created :: bool
  client_accepted :: bool

text \<open>What \<^verbatim>\<open>socket\<close>, \<^verbatim>\<open>inet_pton\<close>, \<^verbatim>\<open>bind\<close> and \<^verbatim>\<open>listen\<close> answer.\<close>

record server_calls =
  socket_ret :: int
  pton_ret :: int
  bind_ret :: int
  listen_ret :: int

definition create_server_nonblock :: "server_calls \<Rightarrow> ep_state \<Rightarrow> int \<times> ep_state" where
  "create_server_nonblock k st =
     (let fd = socket_ret k
      in if fd < 0 then (-1, st)
         else if pton_ret k \<le> 0 then (-2, close_fd st fd)
         else if bind_ret k < 0 then (-3, close_fd st fd)
         else if listen_ret k < 0 then (-4, close_fd st fd)
         else (fd, st))"

definition accept_client_nonblock :: "int \<Rightarrow> int" where
  "accept_client_nonblock fd = (if fd < 0 then -1 else fd)"

text \<open>The answers during one call of the job function; \<open>req_mem\<close> and \<open>data_mem\<close> are those of \<^verbatim>\<open>malloc\<close>.\<close>

record onetime_env =
  env_server :: server_calls
  env_accept :: int
  env_req_mem :: bool
  env_data_mem :: "nat option"

definition onetime_job_func ::
  "build \<Rightarrow> kernel \<Rightarrow> onetime_env \<Rightarrow> onetime_ctx \<Rightarrow> ep_state \<Rightarrow> nat \<Rightarrow> int \<times> onetime_ctx \<times> ep_state" where
  "onetime_job_func b ctl env c st job =
     (let request = (\<lambda>s fd. snd (schedi_job_tool_epoll b ctl (env_req_mem env) (env_data_mem env) s job fd EPOLLIN))
      in if \<not> server_created c
         then let (fd, st1) = create_server_nonblock (env_server env) st;
                  c1 = c\<lparr>serverfd := fd\<rparr>
              in if fd < 0 then (0, c1, st1)
                 else (1, c1\<lparr>server_created := True\<rparr>, request st1 fd)
         else if \<not> client_accepted c
         then let fd = accept_client_nonblock (env_accept env);
                  c1 = c\<lparr>clientfd := fd\<rparr>
              in if fd = -1 then (1, c1, request st (serverfd c))
                 else (1, c1\<lparr>client_accepted := True\<rparr>, request st fd)
         else (-1, c, close_fd (close_fd st (serverfd c)) (clientfd c)))"

text \<open>The contexts of the jobs are a global array; the context of a job is its index there.\<close>

definition onetime_fn :: nat where "onetime_fn = 1"

definition get_job ::
  "build \<Rightarrow> (nat \<Rightarrow> onetime_ctx) \<times> 'a jobsys_scheme \<Rightarrow> 16 word \<Rightarrow> nat
    \<Rightarrow> (nat \<times> (nat \<Rightarrow> onetime_ctx) \<times> 'a jobsys_scheme) option" where
  "get_job b cs prt i =
     (let ctxs = (fst cs)(i := (fst cs i)\<lparr>port := prt\<rparr>)
      in (case schedi_job_create (snd cs) i onetime_fn None of
            (None, _) \<Rightarrow> None
          | (Some job, s1) \<Rightarrow>
              let s2 = schedi_completion_indicator_init s1 i;
                  s3 = upd_job job (\<lambda>x. x\<lparr>completion_indicator := Some i\<rparr>) s2
              in Some (job, ctxs, snd (schedi_job_setready b s3 job))))"

text \<open>The loop of \<^verbatim>\<open>main\<close> that makes the jobs; a job that could not be created would be dereferenced.\<close>

fun onetime_jobs ::
  "build \<Rightarrow> nat \<Rightarrow> nat \<Rightarrow> (nat \<Rightarrow> onetime_ctx) \<times> 'a jobsys_scheme
    \<Rightarrow> (nat list \<times> (nat \<Rightarrow> onetime_ctx) \<times> 'a jobsys_scheme) option" where
  "onetime_jobs b i 0 cs = Some ([], cs)"
| "onetime_jobs b i (Suc n) cs =
     (case get_job b cs (1997 + of_nat i) i of
        None \<Rightarrow> None
      | Some (job, cs') \<Rightarrow>
          (case onetime_jobs b (Suc i) n cs' of None \<Rightarrow> None | Some (js, cs'') \<Rightarrow> Some (job # js, cs'')))"

definition onetime_main :: "build \<Rightarrow> (nat \<Rightarrow> onetime_ctx) \<Rightarrow> 'a jobsys_scheme
    \<Rightarrow> (nat list \<times> (nat \<Rightarrow> onetime_ctx) \<times> 'a jobsys_scheme) option" where
  "onetime_main b ctxs s = onetime_jobs b 0 JOB_COUNT (ctxs, sections_init s)"

section \<open>The word of a job with outstanding requests\<close>

text \<open>
  \<open>n\<close> requests are outstanding and the job has (\<open>r\<close>) or has not returned 1 from its
  function; its other conditions hold.
\<close>

definition wait_word :: "int \<Rightarrow> int \<Rightarrow> nat \<Rightarrow> bool \<Rightarrow> u32 \<Rightarrow> bool" where
  "wait_word rs rj n r m \<longleftrightarrow> settled m \<and> uint (SCHEDI_JOB_METAFLAG_GETWAIT m) = int n
     \<and> rs \<le> uint (SCHEDI_JOB_METAFLAG_GETAVSOCK m) \<and> rj \<le> uint (SCHEDI_JOB_METAFLAG_GETAVJOBS m)
     \<and> derived_ok rs rj m \<and> bit m 6 = r \<and> bit m 5 = (r \<and> n = 0)"

definition awaits :: "'a jobsys_scheme \<Rightarrow> nat \<Rightarrow> nat \<Rightarrow> bool \<Rightarrow> bool" where
  "awaits s p n r \<longleftrightarrow> sched_inv s \<and> p < SCHEDI_MAXIMUM_JOBS
     \<and> wait_word (required_available_sockets (jobs s p)) (required_available_jobs (jobs s p)) n r (meta s p)"

lemma awaits_cong:
  assumes "awaits s p n r" "same_conditions p s s'" "sched_inv s'"
  shows "awaits s' p n r"
proof -
  have b: "bit (meta s' p) i = bit (meta s p) i" if "i < 28" "i \<noteq> 2" for i
    using assms(2) that by (simp add: same_conditions_def)
  have "SCHEDI_JOB_METAFLAG_GETWAIT (meta s' p) = SCHEDI_JOB_METAFLAG_GETWAIT (meta s p)"
    "SCHEDI_JOB_METAFLAG_GETAVSOCK (meta s' p) = SCHEDI_JOB_METAFLAG_GETAVSOCK (meta s p)"
    "SCHEDI_JOB_METAFLAG_GETAVJOBS (meta s' p) = SCHEDI_JOB_METAFLAG_GETAVJOBS (meta s p)"
    by (rule get_cong; simp add: b)+
  moreover have "derived_ok rs rj (meta s' p) = derived_ok rs rj (meta s p)" for rs rj
    by (rule derived_ok_cong) (simp add: b)
  ultimately show ?thesis using assms by (simp add: awaits_def wait_word_def settled_iff b same_conditions_def)
qed

lemma wait_step:
  assumes "awaits s p n r" "\<not> (r \<and> n = 0)" "int n + wd = int n'" "n' \<le> 15" "quiet_flag flag"
    and "bn = 0 \<or> bn = SCHEDI_JOB_METAFLAG_UNSTABLE OR SCHEDI_JOB_METAFLAG_WLLDESTROY"
  shows "awaits (snd (schedi_job_meta_flag_cas_update b s p 0 wd 0 flag bn False)) p n' (r \<or> bit flag 6)"
proof -
  let ?m = "meta s p" and ?rs = "required_available_sockets (jobs s p)" and ?rj = "required_available_jobs (jobs s p)"
  define s' where "s' = snd (schedi_job_meta_flag_cas_update b s p 0 wd 0 flag bn False)"
  have inv: "sched_inv s" "p < SCHEDI_MAXIMUM_JOBS" and ww: "wait_word ?rs ?rj n r ?m" using assms(1) by (simp_all add: awaits_def)
  have w: "settled ?m" "uint (SCHEDI_JOB_METAFLAG_GETWAIT ?m) = int n" "?rs \<le> uint (SCHEDI_JOB_METAFLAG_GETAVSOCK ?m)"
    "?rj \<le> uint (SCHEDI_JOB_METAFLAG_GETAVJOBS ?m)" "derived_ok ?rs ?rj ?m" "bit ?m 6 = r" "\<not> bit ?m 5"
    using ww assms(2) by (auto simp: wait_word_def)
  have le: "0 \<le> uint (v :: u32) \<and> uint v \<le> 15" if "v < 16" for v using that by (simp add: word_less_def)
  note rng = le[OF field_less_16(1)[of ?m]] le[OF field_less_16(3)[of ?m]]
  have "meta_ban bn False ?m = 0" using w(1) assms(6) by (auto simp: meta_ban_zero_iff ban_iffs settled_iff)
  then obtain d x where body: "cas_update_body ?rs ?rj 0 wd 0 flag bn False ?m = CasTry d x"
    using rng w(2) assms(3,4) by (cases rule: cas_update_body_cases[of bn False ?m ?rs ?rj 0 wd 0 flag]) auto
  have basic: "basic_flag flag" using assms(5) by (simp add: quiet_flag_def)
  note t = cas_update_body_tryD[OF body]
  note f = cas_update_desired_fields[OF t(1-6) basic t(7)]
  note sb = cas_update_swap_bits[OF body assms(5)]
  have der: "derived_ok ?rs ?rj d" by (rule cas_update_body_derived_ok[OF body basic])
  have fd: "uint (SCHEDI_JOB_METAFLAG_GETWAIT d) = int n'" "?rs \<le> uint (SCHEDI_JOB_METAFLAG_GETAVSOCK d)"
    "?rj \<le> uint (SCHEDI_JOB_METAFLAG_GETAVJOBS d)"
    using f(1-3) w(2-4) assms(3) by simp_all
  have z: "SCHEDI_JOB_METAFLAG_GETWAIT v = 0 \<longleftrightarrow> uint (SCHEDI_JOB_METAFLAG_GETWAIT v) = 0" for v
    by (simp add: uint_0_iff)
  have "\<not> schedi_job_meta_flag_check_allready ?m"
    using w(2,5,6) assms(2) by (auto simp: allready_iff derived_ok_bits z)
  then have rd: "becomes_ready ?m d \<longleftrightarrow> bit d 6 \<and> n' = 0"
    using der fd by (simp add: becomes_ready_def allready_iff derived_ok_bits z)
  let ?v = "if becomes_ready ?m d then d OR SCHEDI_JOB_METAFLAG_READY else d"
  have bits: "bit ?v i \<longleftrightarrow> bit d i \<or> i = 5 \<and> becomes_ready ?m d" for i by (auto simp: bit_or_iff bit_flags)
  have "SCHEDI_JOB_METAFLAG_GETWAIT ?v = SCHEDI_JOB_METAFLAG_GETWAIT d"
    "SCHEDI_JOB_METAFLAG_GETAVSOCK ?v = SCHEDI_JOB_METAFLAG_GETAVSOCK d"
    "SCHEDI_JOB_METAFLAG_GETAVJOBS ?v = SCHEDI_JOB_METAFLAG_GETAVJOBS d"
    by (rule get_cong; simp add: bits)+
  moreover have "derived_ok ?rs ?rj ?v" using der derived_ok_cong[of ?v d] bits by simp
  ultimately have "wait_word ?rs ?rj n' (r \<or> bit flag 6) ?v"
    unfolding wait_word_def using fd sb w rd by (simp add: settled_iff bit_or_iff bit_flags)
  moreover note e = update_word[OF inv assms(5) w(1,7) body s'_def]
  moreover have "sched_inv s'" unfolding s'_def by (rule cas_update_sched_inv[OF inv assms(5)])
  ultimately show ?thesis using inv(2) by (simp add: awaits_def s'_def[symmetric])
qed

section \<open>Requests and their events\<close>

lemma same_conditions_upd:
  assumes "\<And>x. meta_flag (f x) = meta_flag x" "\<And>x. required_available_sockets (f x) = required_available_sockets x"
    "\<And>x. required_available_jobs (f x) = required_available_jobs x"
  shows "same_conditions p s (upd_job j f s)" "sched_inv (upd_job j f s) = sched_inv s"
proof -
  show "same_conditions p s (upd_job j f s)" using assms by (simp add: same_conditions_def)
  show "sched_inv (upd_job j f s) = sched_inv s" by (rule sched_inv_cong) (simp_all add: assms)
qed

lemma awaits_access:
  assumes "awaits s p n r"
  shows "awaits (snd (schedi_job_mark_access s p)) p n r" "awaits (snd (schedi_job_unmark_access s p)) p n r"
proof -
  have i: "sched_inv s" using assms by (simp add: awaits_def)
  show "awaits (snd (schedi_job_mark_access s p)) p n r"
    by (rule awaits_cong[OF assms _ access_sched_inv(1)[OF i]])
      (simp add: same_conditions_def mark_access_eq Let_def bit_set_access)
  show "awaits (snd (schedi_job_unmark_access s p)) p n r"
    by (rule awaits_cong[OF assms _ access_sched_inv(2)[OF i]])
      (simp add: same_conditions_def unmark_access_eq Let_def bit_set_access)
qed

lemma request_awaits:
  assumes "awaits (ep_sys st) p n False" "schedi_job_tool_epoll b ctl rmem mem st p fd events = (r, st')"
  shows "awaits (ep_sys st') p (if r = 0 then Suc n else n) False" "r = 0 \<Longrightarrow> n < 15"
proof -
  let ?s1 = "upd_job p (\<lambda>x. x\<lparr>total_req := total_req x + 1\<rparr>) (ep_sys st)"
  have c: "same_conditions p (ep_sys st) ?s1" "sched_inv ?s1 = sched_inv (ep_sys st)"
    by (rule same_conditions_upd; simp)+
  then have a1: "awaits ?s1 p n False" using awaits_cong[OF assms(1) c(1)] assms(1) by (simp add: awaits_def)
  have wn: "waiting (jobs ?s1 p) = int n" using a1 by (simp add: awaits_def wait_word_def)
  obtain r1 s2 where u: "schedi_job_meta_flag_cas_update b ?s1 p 0 1 0 0 0 False = (r1, s2)" by force
  define s3 where "s3 = snd (schedi_job_meta_flag_cas_update b s2 p 0 (-1) 0 0 0 False)"
  have "r = -1 \<and> st' = st \<or> r1 \<noteq> 0 \<and> r = -4 \<and> ep_sys st' = s2
      \<or> r1 = 0 \<and> (r \<in> {-2, -3} \<and> ep_sys st' = s3 \<or> r = 0 \<and> ep_sys st' = s2)"
  proof -
    have "ep_sys (snd (schedi_epoll_add ctl x fd d events)) = ep_sys x \<and> fst (schedi_epoll_add ctl x fd d events) \<in> {0, -1}" for x d
      using add_owner[of ctl x fd d events] by simp
    then show ?thesis using assms(2)
      by (auto simp: schedi_job_tool_epoll_def Let_def u s3_def case_prod_beta split: if_splits option.splits)
  qed
  then consider (none) "r = -1" "st' = st" | (full) "r1 \<noteq> 0" "r = -4" "ep_sys st' = s2"
    | (failed) "r1 = 0" "r \<in> {-2, -3}" "ep_sys st' = s3" | (made) "r1 = 0" "r = 0" "ep_sys st' = s2" by blast
  then have "awaits (ep_sys st') p (if r = 0 then Suc n else n) False \<and> (r = 0 \<longrightarrow> n < 15)"
  proof cases
    case none
    then show ?thesis using assms(1) by simp
  next
    case full
    then have "waiting (jobs ?s1 p) + 1 \<notin> {0..15}" using wait_update(1)[OF u] by blast
    from wait_update(2)[OF u this] full a1 show ?thesis by simp
  next
    case failed
    have n: "n < 15"
    proof (rule ccontr)
      assume "\<not> n < 15"
      then have "waiting (jobs ?s1 p) + 1 \<notin> {0..15}" using wn by simp
      from wait_update(2)[OF u this] failed(1) show False by simp
    qed
    have "awaits s2 p (Suc n) False"
      using wait_step[OF a1, of 1 "Suc n" 0 0 b] n by (simp add: u)
    from wait_step[OF this, of "-1" n 0 0 b] n have "awaits s3 p n False" by (simp add: s3_def)
    with failed show ?thesis by auto
  next
    case made
    have n: "n < 15"
    proof (rule ccontr)
      assume "\<not> n < 15"
      then have "waiting (jobs ?s1 p) + 1 \<notin> {0..15}" using wn by simp
      from wait_update(2)[OF u this] made(1) show False by simp
    qed
    with wait_step[OF a1, of 1 "Suc n" 0 0 b] made show ?thesis by (simp add: u)
  qed
  then show "awaits (ep_sys st') p (if r = 0 then Suc n else n) False" "r = 0 \<Longrightarrow> n < 15" by blast+
qed

lemma event_awaits:
  assumes "awaits (ep_sys st) p (Suc n) r" "n < 15" "SCHEDI_JOB_METAFLAG_GETACCESS (meta (ep_sys st) p) \<noteq> 15"
    and "req_owner req = p" "req_list req = p" "req_job_gen req = gen (jobs (ep_sys st) p)"
    and "handle_job_event b ctl st d req events = Returns st'"
  shows "awaits (ep_sys st') p n r"
proof -
  let ?s = "ep_sys st" and ?err = "events AND (EPOLLERR OR EPOLLHUP) \<noteq> 0"
  let ?m = "SCHEDI_JOB_METAFLAG_SETACCESS (meta ?s p) (SCHEDI_JOB_METAFLAG_GETACCESS (meta ?s p) + 1)"
  define s1 where "s1 = set_meta p ?m ?s"
  define s2 where "s2 = upd_job p (returned_count ?err) s1"
  define s3 where "s3 = snd (schedi_job_meta_flag_cas_update b s2 p 0 (-1) 0 0 0 False)"
  have st: "settled (meta ?s p)" using assms(1) by (simp add: awaits_def wait_word_def)
  have acc: "schedi_job_mark_access ?s p = (0, s1)"
    using st assms(3) by (simp add: s1_def mark_access_eq Let_def settled_iff ban_iffs)
  have a1: "awaits s1 p (Suc n) r" using awaits_access(1)[OF assms(1)] by (simp add: acc)
  have "same_conditions p s1 s2" "sched_inv s2 = sched_inv s1"
    unfolding s2_def by (rule same_conditions_upd; simp add: returned_count_def)+
  then have a2: "awaits s2 p (Suc n) r" using awaits_cong[OF a1] a1 by (simp add: awaits_def)
  have a3: "awaits s3 p n r" using wait_step[OF a2, of "-1" n 0 0 b] assms(2) by (simp add: s3_def)
  have s2: "s2 = (if ?err then upd_job p (\<lambda>x. x\<lparr>err_count := err_count x + 1\<rparr>) s1
      else upd_job p (\<lambda>x. x\<lparr>ret_count := ret_count x + 1\<rparr>) s1)"
    by (simp add: s2_def returned_count_def[abs_def])
  have "request_access_loop ?s p = Some (0, s1)" using request_access_ends(2)[OF st assms(3)] by (simp add: s1_def)
  moreover have "gen (jobs s1 p) = req_job_gen req" using assms(6) by (simp add: s1_def)
  ultimately have "schedi_job_epoll_request_return b ?s req ?err = Some (0, snd (schedi_job_unmark_access s3 p))"
    using assms(4,5) by (simp add: schedi_job_epoll_request_return_def Let_def s3_def s2)
  then have "ep_sys st' = snd (schedi_job_unmark_access s3 p)"
    using assms(7) by (auto simp: handle_job_event_def Let_def)
  then show ?thesis using awaits_access(2)[OF a3] by simp
qed

text \<open>
  A job from a call of its function until it is READY again: it makes requests while it
  runs, their events come back before or after it returns 1, and anything else that
  keeps the invariant of the scheduler and does not touch the conditions of the job.
\<close>

inductive awaiting :: "build \<Rightarrow> kernel \<Rightarrow> nat \<Rightarrow> nat \<Rightarrow> bool \<Rightarrow> ep_state \<Rightarrow> bool" for b ctl p where
  running: "job_reach b (ep_sys st) \<Longrightarrow> claimed (ep_sys st) p \<Longrightarrow> settled (meta (ep_sys st) p) \<Longrightarrow>
    meta (ep_sys st) p AND (SCHEDI_JOB_METAFLAG_READY OR SCHEDI_JOB_METAFLAG_READYBASIC) = 0 \<Longrightarrow>
    derived_ok (required_available_sockets (jobs (ep_sys st) p)) (required_available_jobs (jobs (ep_sys st) p)) (meta (ep_sys st) p) \<Longrightarrow>
    SCHEDI_JOB_METAFLAG_GETWAIT (meta (ep_sys st) p) = 0 \<Longrightarrow>
    required_available_sockets (jobs (ep_sys st) p) \<le> uint (SCHEDI_JOB_METAFLAG_GETAVSOCK (meta (ep_sys st) p)) \<Longrightarrow>
    required_available_jobs (jobs (ep_sys st) p) \<le> uint (SCHEDI_JOB_METAFLAG_GETAVJOBS (meta (ep_sys st) p)) \<Longrightarrow>
    awaiting b ctl p 0 False st"
| request: "awaiting b ctl p n False st \<Longrightarrow> schedi_job_tool_epoll b ctl rmem mem st p fd events = (x, st') \<Longrightarrow>
    awaiting b ctl p (if x = 0 then Suc n else n) False st'"
| event: "awaiting b ctl p (Suc n) r st \<Longrightarrow> SCHEDI_JOB_METAFLAG_GETACCESS (meta (ep_sys st) p) \<noteq> 15 \<Longrightarrow>
    ev_data ev = Some d \<Longrightarrow> edata st d = Some (EpollDataJob req) \<Longrightarrow> req_owner req = p \<Longrightarrow> req_list req = p \<Longrightarrow>
    req_job_gen req = gen (jobs (ep_sys st) p) \<Longrightarrow> handler b ctl i st ev = Returns st' \<Longrightarrow> awaiting b ctl p n r st'"
| returned: "awaiting b ctl p n False st \<Longrightarrow>
    awaiting b ctl p n True (st\<lparr>ep_sys := snd (schedi_job_mark_readybasic b (ep_sys st) p)\<rparr>)"
| other: "awaiting b ctl p n r st \<Longrightarrow> same_conditions p (ep_sys st) (ep_sys st') \<Longrightarrow> sched_inv (ep_sys st') \<Longrightarrow>
    awaiting b ctl p n r st'"

lemma awaiting_awaits:
  assumes "awaiting b ctl p n r st" "addr_ok (job_addr b)"
  shows "awaits (ep_sys st) p n r \<and> n \<le> 15"
  using assms(1)
proof induction
  case (running st)
  from job_reach_life_inv[OF running(1) assms(2)] have "sched_inv (ep_sys st)" by (auto simp: life_inv_def)
  then show ?case using running by (auto simp: awaits_def wait_word_def ban_iffs)
next
  case (request n st rmem mem fd events x st')
  with request_awaits[of st p n b ctl rmem mem fd events x st'] show ?case by auto
next
  case (event n r st ev d req i st')
  have "handle_job_event b ctl st d req (ev_events ev) = Returns st'"
    using event(3,4,8) by (cases i) (simp_all add: handler_def schedi_epoll_handle_read_def schedi_epoll_handle_write_def)
  from event_awaits[OF _ _ event(2,5-7) this] event.IH show ?case by simp
next
  case (returned n st)
  have "awaits (snd (schedi_job_mark_readybasic b (ep_sys st) p)) p n (False \<or> bit SCHEDI_JOB_METAFLAG_READYBASIC 6)"
    using wait_step[of "ep_sys st" p n False 0 n SCHEDI_JOB_METAFLAG_READYBASIC
        "SCHEDI_JOB_METAFLAG_UNSTABLE OR SCHEDI_JOB_METAFLAG_WLLDESTROY" b] returned.IH
    by (simp add: schedi_job_mark_readybasic_def schedi_job_mark_or_readiness_def case_prod_beta)
  then show ?case using returned.IH by (simp add: bit_flags)
next
  case (other n r st st')
  then show ?case using awaits_cong by blast
qed

section \<open>Properties\<close>

text \<open>
  C13: A job resumes exactly when its events have come back. Whatever the order in which
  a running job makes one-time requests, successful or not, their events come back and
  the job returns 1 from its function, the job is READY and in the ready cache, once,
  when it has returned and no request is outstanding, and neither READY nor cached before.
\<close>

theorem job_resumes_after_events:
  assumes "awaiting b ctl p n r st" "addr_ok (job_addr b)"
  shows "count (ready_bag (ep_sys st)) p = of_bool (n = 0 \<and> r)
    \<and> (meta (ep_sys st) p AND SCHEDI_JOB_METAFLAG_READY \<noteq> 0 \<longleftrightarrow> n = 0 \<and> r)
    \<and> uint (SCHEDI_JOB_METAFLAG_GETWAIT (meta (ep_sys st) p)) = int n"
proof -
  note w = awaiting_awaits[OF assms]
  then have "slot_ok (meta (ep_sys st) p) (count (ready_bag (ep_sys st)) p)" by (simp add: awaits_def sched_inv_def)
  moreover have "settled (meta (ep_sys st) p)" "bit (meta (ep_sys st) p) 5 = (n = 0 \<and> r)"
    "uint (SCHEDI_JOB_METAFLAG_GETWAIT (meta (ep_sys st) p)) = int n"
    using w by (auto simp: awaits_def wait_word_def)
  ultimately show ?thesis by (auto simp: slot_iffs settled_iff flag_clear_iff)
qed

lemma awaiting_same:
  assumes "awaiting b ctl p n r st" "addr_ok (job_addr b)" "ep_sys st' = ep_sys st"
  shows "awaiting b ctl p n r st'"
  using awaiting_awaits[OF assms(1,2)] assms(3)
  by (intro awaiting.other[OF assms(1)]) (simp_all add: same_conditions_def awaits_def)

lemma awaiting_ready:
  assumes "awaiting b ctl p n False st" "addr_ok (job_addr b)"
  shows "count (ready_bag (snd (schedi_job_mark_readybasic b (ep_sys st) p))) p = of_bool (n = 0)"
proof -
  have "awaits (snd (schedi_job_mark_readybasic b (ep_sys st) p)) p n True"
    using awaiting_awaits[OF awaiting.returned[OF assms(1)] assms(2)] by simp
  then have "slot_ok (meta (snd (schedi_job_mark_readybasic b (ep_sys st) p)) p)
      (count (ready_bag (snd (schedi_job_mark_readybasic b (ep_sys st) p))) p)"
    "bit (meta (snd (schedi_job_mark_readybasic b (ep_sys st) p)) p) 5 = (n = 0)"
    "settled (meta (snd (schedi_job_mark_readybasic b (ep_sys st) p)) p)"
    by (simp_all add: awaits_def sched_inv_def wait_word_def)
  then show ?thesis by (auto simp: slot_iffs settled_iff)
qed

lemma request_then_ready:
  assumes "awaiting b ctl p 0 False st" "addr_ok (job_addr b)"
    and "st' = snd (schedi_job_tool_epoll b ctl rmem mem st p fd events)"
  shows "\<exists>k \<le> 1. awaiting b ctl p k False st'
    \<and> count (ready_bag (snd (schedi_job_mark_readybasic b (ep_sys st') p))) p = of_bool (k = 0)"
proof -
  obtain x where x: "schedi_job_tool_epoll b ctl rmem mem st p fd events = (x, st')" using assms(3) by (metis prod.collapse)
  note a = awaiting.request[OF assms(1) x]
  show ?thesis using a awaiting_ready[OF a assms(2)] by (intro exI[of _ "if x = 0 then Suc 0 else 0"]) simp
qed

lemma create_server_sys: "ep_sys (snd (create_server_nonblock k st)) = ep_sys st"
  by (simp add: create_server_nonblock_def close_fd_def Let_def)

text \<open>
  C17: The job of onetimesocket waits for its descriptor. Each call of its function, with
  whatever answers of the system, either asks for one event and returns 1, or fails to get the
  request and returns 1 (and the worker makes it ready at once, to try again), or ends
  with both descriptors closed. When the server cannot be created the call returns 0
  with no request outstanding: the job is not in the ready cache and nothing that it
  waits for will put it there.
\<close>

theorem onetime_job_waits:
  assumes "awaiting b ctl p 0 False st" "addr_ok (job_addr b)" "onetime_job_func b ctl env c st p = (ret, c', st')"
  shows "ret = 1 \<and> server_created c' \<and> (\<exists>k \<le> 1. awaiting b ctl p k False st'
        \<and> count (ready_bag (snd (schedi_job_mark_readybasic b (ep_sys st') p))) p = of_bool (k = 0))
    \<or> ret = -1 \<and> client_accepted c \<and> closed_fds st' = closed_fds st @ [serverfd c, clientfd c]
    \<or> ret = 0 \<and> \<not> server_created c' \<and> awaiting b ctl p 0 False st' \<and> count (ready_bag (ep_sys st')) p = 0
        \<and> uint (SCHEDI_JOB_METAFLAG_GETWAIT (meta (ep_sys st') p)) = 0"
proof -
  note req = request_then_ready[OF _ assms(2)]
  show ?thesis
  proof (cases "server_created c")
    case False
    obtain fd st1 where s: "create_server_nonblock (env_server env) st = (fd, st1)" by force
    have a1: "awaiting b ctl p 0 False st1"
      by (rule awaiting_same[OF assms(1,2)]) (use create_server_sys[of "env_server env" st] s in simp)
    show ?thesis
    proof (cases "fd < 0")
      case True
      then have "ret = 0" "c' = c\<lparr>serverfd := fd\<rparr>" "st' = st1" using assms(3) False s by (simp_all add: onetime_job_func_def)
      moreover have "awaits (ep_sys st1) p 0 False" using awaiting_awaits[OF a1 assms(2)] by simp
      then have "count (ready_bag (ep_sys st1)) p = 0" "uint (SCHEDI_JOB_METAFLAG_GETWAIT (meta (ep_sys st1) p)) = 0"
        by (auto simp: awaits_def wait_word_def sched_inv_def slot_iffs settled_iff)
      ultimately show ?thesis using a1 False by simp
    next
      case pos: False
      then have "ret = 1" "server_created c'"
        "st' = snd (schedi_job_tool_epoll b ctl (env_req_mem env) (env_data_mem env) st1 p fd EPOLLIN)"
        using assms(3) False s by (auto simp: onetime_job_func_def)
      then show ?thesis using req[OF a1] by blast
    qed
  next
    case True
    show ?thesis
    proof (cases "client_accepted c")
      case False
      have "ret = 1" "server_created c'"
        "\<exists>fd. st' = snd (schedi_job_tool_epoll b ctl (env_req_mem env) (env_data_mem env) st p fd EPOLLIN)"
        using assms(3) True False by (auto simp: onetime_job_func_def Let_def split: if_splits)
      then show ?thesis using req[OF assms(1)] by blast
    next
      case acc: True
      then show ?thesis using assms(3) True by (auto simp: onetime_job_func_def close_fd_def)
    qed
  qed
qed

section \<open>Examples\<close>

definition running_state :: ep_state where
  "running_state = ep_start\<lparr>ep_sys := example_state\<rparr>"

lemma running_example: "awaiting example_build plain_kernel 0 0 False running_state"
proof -
  have "ep_sys running_state = example_state" by (simp add: running_state_def)
  moreover have "settled (meta example_state 0)"
    "meta example_state 0 AND (SCHEDI_JOB_METAFLAG_READY OR SCHEDI_JOB_METAFLAG_READYBASIC) = 0"
    "derived_ok (required_available_sockets (jobs example_state 0)) (required_available_jobs (jobs example_state 0)) (meta example_state 0)"
    "SCHEDI_JOB_METAFLAG_GETWAIT (meta example_state 0) = 0"
    "required_available_sockets (jobs example_state 0) \<le> uint (SCHEDI_JOB_METAFLAG_GETAVSOCK (meta example_state 0))"
    "required_available_jobs (jobs example_state 0) \<le> uint (SCHEDI_JOB_METAFLAG_GETAVJOBS (meta example_state 0))"
    by code_simp+
  ultimately show ?thesis using example_reach example_claimed by (intro awaiting.running) simp_all
qed

definition waiting_state :: ep_state where
  "waiting_state = snd (schedi_job_tool_epoll example_build plain_kernel True (Some 3) running_state 0 9 EPOLLIN)"

theorem job_resumes_after_events_witness:
  "count (ready_bag (snd (schedi_job_mark_readybasic example_build (ep_sys waiting_state) 0))) 0 = 0
    \<and> uint (SCHEDI_JOB_METAFLAG_GETWAIT (meta (snd (schedi_job_mark_readybasic example_build (ep_sys waiting_state) 0)) 0)) = 1"
proof -
  let ?r = "schedi_job_tool_epoll example_build plain_kernel True (Some 3) running_state 0 9 EPOLLIN"
  have "fst ?r = 0" by code_simp
  then have "?r = (0, waiting_state)" by (simp add: waiting_state_def prod_eq_iff)
  from awaiting.request[OF running_example this] have "awaiting example_build plain_kernel 0 (Suc 0) False waiting_state" by simp
  from job_resumes_after_events[OF awaiting.returned[OF this] example_addr] show ?thesis by simp
qed

definition onetime_example_env :: onetime_env where
  "onetime_example_env = \<lparr>env_server = \<lparr>socket_ret = 9, pton_ret = 1, bind_ret = 0, listen_ret = 0\<rparr>, env_accept = 0,
     env_req_mem = True, env_data_mem = Some 3\<rparr>"

definition onetime_example_ctx :: onetime_ctx where
  "onetime_example_ctx = \<lparr>serverfd = 0, clientfd = 0, port = 1997, server_created = False, client_accepted = False\<rparr>"

theorem onetime_job_waits_witness:
  "\<exists>c' st'. onetime_job_func example_build plain_kernel onetime_example_env onetime_example_ctx running_state 0 = (1, c', st')
    \<and> server_created c' \<and> (\<exists>k \<le> 1. awaiting example_build plain_kernel 0 k False st')"
proof -
  obtain c' st' where c: "onetime_job_func example_build plain_kernel onetime_example_env onetime_example_ctx running_state 0 = (1, c', st')"
    by (simp add: onetime_job_func_def onetime_example_env_def onetime_example_ctx_def create_server_nonblock_def)
  from onetime_job_waits[OF running_example example_addr this] show ?thesis using c by auto
qed

section \<open>The start of the program\<close>

lemma get_job_launched:
  "get_job b cs prt i = (case schedi_job_create (snd cs) i onetime_fn None of (None, _) \<Rightarrow> None
     | (Some job, s1) \<Rightarrow> Some (job, (fst cs)(i := (fst cs i)\<lparr>port := prt\<rparr>), launched b s1 i job))"
  by (auto simp: get_job_def launched_def Let_def split: prod.split option.split)

text \<open>The jobs of the loop are new, ready and have their own contexts, ports and indicators.\<close>

lemma onetime_jobs_ready:
  assumes "small s" "size (ready_bag s) + n \<le> SCHEDI_JOBS_CACHE_CHECK" "finite (free_slots s)" "n \<le> card (free_slots s)"
  shows "\<exists>js ctxs' s'. onetime_jobs b i n (ctxs, s) = Some (js, ctxs', s') \<and> small s' \<and> length js = n \<and> distinct js
    \<and> set js \<subseteq> free_slots s \<and> ready_bag s' = ready_bag s + mset js
    \<and> (\<forall>k. (k \<in> {i..<i + n} \<longrightarrow> port (ctxs' k) = 1997 + of_nat k) \<and> (k \<notin> {i..<i + n} \<longrightarrow> ctxs' k = ctxs k))
    \<and> (\<forall>k < n. job_context (jobs s' (js ! k)) = i + k \<and> completion_indicator (jobs s' (js ! k)) = Some (i + k)
         \<and> run_fn (jobs s' (js ! k)) = onetime_fn)
    \<and> (\<forall>j. j \<notin> set js \<longrightarrow> jobs s' j = jobs s j)"
  using assms
proof (induction n arbitrary: i ctxs s)
  case (Suc n)
  have pre: "free_slots s \<noteq> {}" "size (ready_bag s) < SCHEDI_JOBS_CACHE_CHECK" using Suc.prems by auto
  obtain j s1 where l: "schedi_job_create s i onetime_fn None = (Some j, s1)" "j \<in> free_slots s"
    "small (launched b s1 i j)" "ready_bag (launched b s1 i j) = add_mset j (ready_bag s)"
    "jobs (launched b s1 i j) = (jobs s)(j := (new_job i onetime_fn None (jobs s j))\<lparr>completion_indicator := Some i,
       meta_flag := new_word OR SCHEDI_JOB_METAFLAG_READY, state := schedi_job_state_readywaiting\<rparr>)"
    "free_slots (launched b s1 i j) = free_slots s - {j}"
    by (rule launch_small[OF Suc.prems(1) pre, of i onetime_fn None b i])
  let ?c = "ctxs(i := (ctxs i)\<lparr>port := 1997 + of_nat i\<rparr>)" and ?s = "launched b s1 i j"
  have g: "get_job b (ctxs, s) (1997 + of_nat i) i = Some (j, ?c, ?s)" by (simp add: get_job_launched l(1))
  have "size (ready_bag ?s) + n \<le> SCHEDI_JOBS_CACHE_CHECK" "finite (free_slots ?s)" "n \<le> card (free_slots ?s)"
    using Suc.prems l(2,4,6) by (simp_all add: card_Diff_singleton)
  from Suc.IH[OF l(3) this, of "Suc i" ?c] obtain js c' s' where
    h: "onetime_jobs b (Suc i) n (?c, ?s) = Some (js, c', s')" "small s'" "length js = n" "distinct js"
      "set js \<subseteq> free_slots ?s" "ready_bag s' = ready_bag ?s + mset js"
      "\<And>k. (k \<in> {Suc i..<Suc i + n} \<longrightarrow> port (c' k) = 1997 + of_nat k) \<and> (k \<notin> {Suc i..<Suc i + n} \<longrightarrow> c' k = ?c k)"
      "\<And>k. k < n \<Longrightarrow> job_context (jobs s' (js ! k)) = Suc i + k \<and> completion_indicator (jobs s' (js ! k)) = Some (Suc i + k)
         \<and> run_fn (jobs s' (js ! k)) = onetime_fn"
      "\<And>k. k \<notin> set js \<Longrightarrow> jobs s' k = jobs ?s k" by blast
  have j: "j \<notin> set js" using h(5) l(6) by auto
  have "jobs s' j = jobs ?s j" using h(9)[OF j] .
  then have first: "job_context (jobs s' j) = i" "completion_indicator (jobs s' j) = Some i" "run_fn (jobs s' j) = onetime_fn"
    by (simp_all add: l(5) new_job_def)
  show ?case
  proof (intro exI conjI allI impI)
    show "onetime_jobs b i (Suc n) (ctxs, s) = Some (j # js, c', s')" using g h(1) by simp
    show "set (j # js) \<subseteq> free_slots s" using h(5) l(2,6) by auto
    show "ready_bag s' = ready_bag s + mset (j # js)" using h(6) l(4) by simp
    show "port (c' k) = 1997 + of_nat k" if "k \<in> {i..<i + Suc n}" for k
      using h(7)[of k] that by (cases "k = i") auto
    show "c' k = ctxs k" if "k \<notin> {i..<i + Suc n}" for k using h(7)[of k] that by auto
    show "jobs s' k = jobs s k" if "k \<notin> set (j # js)" for k using h(9)[of k] that l(5) by simp
    fix k assume k: "k < Suc n"
    show "job_context (jobs s' ((j # js) ! k)) = i + k" "completion_indicator (jobs s' ((j # js) ! k)) = Some (i + k)"
      "run_fn (jobs s' ((j # js) ! k)) = onetime_fn"
      using k first h(8) by (cases k; simp)+
  qed (use h(2,3,4) j in simp_all)
qed simp

lemma onetime_main_launches:
  assumes "jobsys.truncate s = static_jobsys"
  shows "\<exists>js ctxs' s'. onetime_main b ctxs s = Some (js, ctxs', s') \<and> length js = JOB_COUNT \<and> distinct js
    \<and> ready_bag s' = mset js \<and> (\<forall>k < JOB_COUNT. port (ctxs' k) = 1997 + of_nat k
      \<and> job_context (jobs s' (js ! k)) = k \<and> completion_indicator (jobs s' (js ! k)) = Some k)"
proof -
  have "jobsys.truncate (sections_init s) = sections_init static_jobsys"
    using arg_cong[OF assms, of sections_init] by (simp add: sections_init_def jobsys.truncate_def)
  note st = started_small[OF this]
  have "size (ready_bag (sections_init s)) + JOB_COUNT \<le> SCHEDI_JOBS_CACHE_CHECK" "finite (free_slots (sections_init s))"
    "JOB_COUNT \<le> card (free_slots (sections_init s))"
    by (simp_all add: st(2,3) JOB_COUNT_def SCHEDI_JOBS_CACHE_CHECK_def SCHEDI_MAXIMUM_JOBS_def)
  from onetime_jobs_ready[OF st(1) this, of b 0 ctxs] show ?thesis
    unfolding onetime_main_def by (elim exE conjE) (intro exI conjI allI impI, assumption, simp_all add: st(2))
qed

end
