(* ===== verification/Program_Starts.thy ===== *)
theory Program_Starts
  imports Parallel_Example Socket_Examples Request_Example
begin

text \<open>
  The main functions of the client programs. \<^verbatim>\<open>src/examples/initialization.c\<close> starts and stops
  the library, \<^verbatim>\<open>src/examples/aparalleljob.c\<close> makes its jobs before it starts the workers, and
  the servers \<^verbatim>\<open>src/examples/epollsocket.c\<close> and \<^verbatim>\<open>src/examples/epollsocket_test.c\<close> make one job
  for each client while the workers run. The codes that the system calls return are arguments.
\<close>

section \<open>Starting and stopping the library\<close>

text \<open>What the calls of the system answer while the library is started and stopped.\<close>

record run_env =
  init_cond :: int
  init_mutex :: int
  init_sections :: int
  env_create :: "nat \<Rightarrow> int"
  stop_locks :: "int \<times> int \<times> int"
  env_join :: "nat \<Rightarrow> int"
  exit_cond :: int
  exit_mutex :: int
  exit_sections :: int

text \<open>The end of all programs but one; \<open>e\<close> and \<open>e'\<close> are the codes for a failure.\<close>

definition stop_library :: "build \<Rightarrow> run_env \<Rightarrow> int \<Rightarrow> int \<Rightarrow> worker_table \<Rightarrow> int \<times> worker_table" where
  "stop_library b env e e' t =
     (let (r, t') = schedi_worker_deinit b (stop_locks env) (env_join env) t
      in if r \<noteq> 0 then (e, t')
         else if schedi_job_deinit b (exit_cond env) (exit_mutex env) (exit_sections env) \<noteq> 0 then (e', t')
         else (0, t'))"

definition initialization_main ::
  "build \<Rightarrow> run_env \<Rightarrow> 'a jobsys_scheme \<Rightarrow> worker_table \<Rightarrow> int \<times> 'a jobsys_scheme \<times> worker_table" where
  "initialization_main b env s t =
     (let (r, s1) = schedi_job_init b (init_cond env) (init_mutex env) (init_sections env) s
      in if r \<noteq> 0 then (1, s1, t)
         else let (r', t1) = schedi_worker_init (env_create env) 16 t
              in if r' \<noteq> 0 then (2, s1, t1)
                 else let (code, t2) = stop_library b env 3 4 t1 in (code, s1, t2))"

section \<open>The parallel program\<close>

definition parallel_fn :: nat where "parallel_fn = 1"

definition parallel_THREAD_COUNT :: int where "parallel_THREAD_COUNT = 16"

text \<open>The loop that makes the jobs from index \<open>i\<close>; a context is the number \<^verbatim>\<open>proc_indice\<close>.\<close>

fun parallel_jobs ::
  "build \<Rightarrow> nat \<Rightarrow> nat \<Rightarrow> (nat \<Rightarrow> int) \<times> 'a jobsys_scheme
    \<Rightarrow> (nat list \<times> (nat \<Rightarrow> int) \<times> 'a jobsys_scheme) outcome" where
  "parallel_jobs b i 0 cs = Returns ([], cs)"
| "parallel_jobs b i (Suc n) (contexts, s) =
     (case schedi_job_create s i parallel_fn None of
        (None, _) \<Rightarrow> BadPointer
      | (Some job, s1) \<Rightarrow>
          let s2 = schedi_completion_indicator_init s1 i;
              s3 = upd_job job (\<lambda>x. x\<lparr>completion_indicator := Some i\<rparr>) s2;
              s4 = snd (schedi_job_setready b s3 job)
          in (case parallel_jobs b (Suc i) n (contexts(i := int i), s4) of
                Returns (js, cs') \<Rightarrow> Returns (job # js, cs')
              | Spins \<Rightarrow> Spins | BadPointer \<Rightarrow> BadPointer))"

text \<open>The program up to its waits for the indicators, after which it returns 0. \<open>Inl\<close> is an exit code.\<close>

definition parallel_main ::
  "build \<Rightarrow> run_env \<Rightarrow> (nat \<Rightarrow> int) \<Rightarrow> 'a jobsys_scheme \<Rightarrow> worker_table
    \<Rightarrow> (int + nat list \<times> (nat \<Rightarrow> int) \<times> 'a jobsys_scheme \<times> worker_table) outcome" where
  "parallel_main b env contexts s t =
     (let (r, s1) = schedi_job_init b (init_cond env) (init_mutex env) (init_sections env) s
      in if r \<noteq> 0 then Returns (Inl 1)
         else (case parallel_jobs b 0 PARALLEL_JOB_COUNT (contexts, s1) of
                 Returns (js, cs, s2) \<Rightarrow>
                   let (r', t1) = schedi_worker_init (env_create env) parallel_THREAD_COUNT t
                   in if r' \<noteq> 0 then Returns (Inl 2) else Returns (Inr (js, cs, s2, t1))
               | Spins \<Rightarrow> Spins | BadPointer \<Rightarrow> BadPointer))"

section \<open>The servers\<close>

text \<open>The blocking variants in \<^verbatim>\<open>create_server.h\<close> and \<^verbatim>\<open>accept_client.h\<close>, used by the printing server.\<close>

definition create_server :: "server_calls \<Rightarrow> ep_state \<Rightarrow> int \<times> ep_state" where
  "create_server k st =
     (let fd = socket_ret k
      in if fd < 0 then (-1, st)
         else if pton_ret k \<le> 0 then (-2, close_fd st fd)
         else if bind_ret k < 0 then (-3, close_fd st fd)
         else if listen_ret k < 0 then (-4, close_fd st fd)
         else (fd, st))"

definition accept_client :: "int \<Rightarrow> int" where
  "accept_client fd = (if fd < 0 then -1 else fd)"

definition server_fn :: nat where "server_fn = 1"
definition server_dtor :: nat where "server_dtor = 2"
definition ACCEPT_COUNT :: nat where "ACCEPT_COUNT = 4"

text \<open>The job of client \<open>i\<close>, made in the same way by both servers; no slot means a bad pointer.\<close>

definition serve_client :: "build \<Rightarrow> nat \<Rightarrow> 'a jobsys_scheme \<Rightarrow> (nat \<times> 'a jobsys_scheme) outcome" where
  "serve_client b i s =
     (case schedi_job_create s i server_fn (Some server_dtor) of
        (None, _) \<Rightarrow> BadPointer
      | (Some job, s1) \<Rightarrow>
          let s2 = schedi_completion_indicator_init s1 i;
              s3 = upd_job job (\<lambda>x. x\<lparr>completion_indicator := Some i\<rparr>) s2
          in Returns (job, snd (schedi_job_setready b s3 job)))"

text \<open>One iteration of the loop of each server; \<open>None\<close> for the job when there is none for the client.\<close>

definition reader_iteration ::
  "build \<Rightarrow> int \<Rightarrow> nat \<Rightarrow> (nat \<Rightarrow> sock_ctx) \<Rightarrow> 'a jobsys_scheme
    \<Rightarrow> (nat option \<times> (nat \<Rightarrow> sock_ctx) \<times> 'a jobsys_scheme) outcome" where
  "reader_iteration b a i ctxs s =
     (let fd = accept_client a;
          ctxs' = ctxs(i := (ctxs i)\<lparr>ctx_fd := fd\<rparr>)
      in if fd < 0 then Returns (None, ctxs', s)
         else (case serve_client b i s of
                 Returns (job, s') \<Rightarrow> Returns (Some job, ctxs', s')
               | Spins \<Rightarrow> Spins | BadPointer \<Rightarrow> BadPointer))"

text \<open>The echo server asks again until a client is there; \<open>None\<close> when it still waits after all answers.\<close>

fun echo_accept :: "int list \<Rightarrow> int option" where
  "echo_accept [] = None"
| "echo_accept (a # as) = (let fd = accept_client_nonblock a in if fd < 0 then echo_accept as else Some fd)"

definition echo_iteration ::
  "build \<Rightarrow> int list \<Rightarrow> nat \<Rightarrow> (nat \<Rightarrow> sock_ctx) \<Rightarrow> 'a jobsys_scheme
    \<Rightarrow> (nat \<times> (nat \<Rightarrow> sock_ctx) \<times> 'a jobsys_scheme) outcome" where
  "echo_iteration b as i ctxs s =
     (case echo_accept as of
        None \<Rightarrow> Spins
      | Some fd \<Rightarrow>
          (case serve_client b i s of
             Returns (job, s') \<Rightarrow> Returns (job, ctxs(i := (ctxs i)\<lparr>ctx_fd := fd, ctx_socket := None\<rparr>), s')
           | Spins \<Rightarrow> Spins | BadPointer \<Rightarrow> BadPointer))"

text \<open>
  The printing server while it accepts clients. The other threads act in any order between
  the iterations: their calls are steps of the job system, and the job functions of this
  program assign no completion indicator. \<open>refused\<close> are the clients whose accept failed.
\<close>

inductive reader_main ::
  "build \<Rightarrow> nat \<Rightarrow> nat set \<Rightarrow> (nat \<Rightarrow> sock_ctx) \<Rightarrow> 'a jobsys_scheme \<Rightarrow> bool" for b where
  started: "jobsys.truncate s = sections_init static_jobsys \<Longrightarrow> reader_main b 0 {} ctxs s"
| refuses: "reader_main b i refused ctxs s \<Longrightarrow> i < ACCEPT_COUNT \<Longrightarrow>
    reader_iteration b a i ctxs s = Returns (None, ctxs', s') \<Longrightarrow> reader_main b (Suc i) (insert i refused) ctxs' s'"
| accepts: "reader_main b i refused ctxs s \<Longrightarrow> i < ACCEPT_COUNT \<Longrightarrow>
    reader_iteration b a i ctxs s = Returns (Some job, ctxs', s') \<Longrightarrow> reader_main b (Suc i) refused ctxs' s'"
| others: "reader_main b i refused ctxs s \<Longrightarrow> job_step b s s' \<Longrightarrow>
    (\<And>j. completion_indicator (jobs s' j) = completion_indicator (jobs s j)) \<Longrightarrow> reader_main b i refused ctxs' s'"

section \<open>Exit codes\<close>

lemma worker_init_ret:
  "fst (schedi_worker_init create n t) = 0 \<longleftrightarrow> (\<forall>i. i < SCHEDI_MAX_WORKERS \<and> int i < n \<longrightarrow> create i = 0)"
proof -
  have "fst (worker_init_loop create n k t) = 0 \<longleftrightarrow>
      (\<forall>i. k \<le> i \<and> i < SCHEDI_MAX_WORKERS \<and> int i < n \<longrightarrow> create i = 0)" for k
  proof (induction create n k t rule: worker_init_loop.induct)
    case (1 create n k t)
    show ?case
    proof (cases "int k < n \<and> k < SCHEDI_MAX_WORKERS")
      case True
      have le: "k \<le> i \<longleftrightarrow> i = k \<or> Suc k \<le> i" for i by auto
      have "(\<forall>i. k \<le> i \<and> i < SCHEDI_MAX_WORKERS \<and> int i < n \<longrightarrow> create i = 0) \<longleftrightarrow>
          create k = 0 \<and> (\<forall>i. Suc k \<le> i \<and> i < SCHEDI_MAX_WORKERS \<and> int i < n \<longrightarrow> create i = 0)"
        unfolding le using True by blast
      then show ?thesis using True 1 by (subst worker_init_loop.simps) (simp add: Let_def)
    qed (subst worker_init_loop.simps, auto)
  qed
  then show ?thesis by (simp add: schedi_worker_init_def)
qed

lemma join_all_zero: "join_all join i k r = 0 \<longleftrightarrow> r = 0 \<and> (\<forall>m \<in> {i..<i + k}. join m = 0)"
proof (induction k arbitrary: i r)
  case (Suc k)
  have "{i..<i + Suc k} = insert i {Suc i..<Suc i + k}" by auto
  then show ?case using Suc.IH[of "Suc i"] by auto
qed simp

lemma init_zero:
  "fst (schedi_job_init b c m e s) = 0 \<longleftrightarrow> (lockless_readyjob b \<or> c = 0 \<and> m = 0) \<and> e = 0"
  "schedi_job_deinit b c m e = 0 \<longleftrightarrow> (lockless_readyjob b \<or> c = 0 \<and> m = 0) \<and> e = 0"
  by (auto simp: schedi_job_init_def schedi_job_deinit_def or_eq_0_iff)

text \<open>
  The codes of a start and a stop: 1 when the job system cannot be set up, 2 when a thread
  cannot be created, 3 when a thread cannot be joined or the mutex not released, 4 when the
  job system cannot be torn down, and otherwise 0, after which no worker is counted.
\<close>

lemma initialization_exit:
  fixes s :: "'a jobsys_scheme" and b :: build and env :: run_env
  assumes "worker_count t = 0"
  defines "ok \<equiv> \<lambda>c m e. (lockless_readyjob b \<or> c = 0 \<and> m = 0) \<and> e = (0 :: int)"
  defines "start \<equiv> ok (init_cond env) (init_mutex env) (init_sections env)"
    and "create \<equiv> \<forall>i < 16. env_create env i = 0"
    and "stop \<equiv> (lockless_readyjob b \<or> snd (snd (stop_locks env)) = 0) \<and> (\<forall>i < 16. env_join env i = 0)"
    and "exit \<equiv> ok (exit_cond env) (exit_mutex env) (exit_sections env)"
  shows "fst (initialization_main b env s t) =
      (if \<not> start then 1 else if \<not> create then 2 else if \<not> stop then 3 else if \<not> exit then 4 else 0)"
    and "start \<Longrightarrow> create \<Longrightarrow> worker_count (snd (snd (initialization_main b env s t))) = 0"
proof -
  note i = init_zero(1)[of b "init_cond env" "init_mutex env" "init_sections env" s]
  note w = worker_init_ret[of "env_create env" 16 t]
  have w': "fst (schedi_worker_init (env_create env) 16 t) = 0 \<longleftrightarrow> create"
    unfolding w create_def by (auto simp: SCHEDI_MAX_WORKERS_def)
  have n: "worker_count (snd (schedi_worker_init (env_create env) 16 t)) = 16" if create
    using worker_init_counts_started[of 16 16 "env_create env" t] that assms(1)
    by (simp add: create_def SCHEDI_MAX_WORKERS_def)
  obtain l br u where locks: "stop_locks env = (l, br, u)" using prod_cases3 by blast
  have d: "fst (schedi_worker_deinit b (stop_locks env) (env_join env) (snd (schedi_worker_init (env_create env) 16 t))) = 0
      \<longleftrightarrow> stop" if create
    by (auto simp: schedi_worker_deinit_def locks n[OF that] join_all_zero stop_def Let_def)
  show "fst (initialization_main b env s t) =
      (if \<not> start then 1 else if \<not> create then 2 else if \<not> stop then 3 else if \<not> exit then 4 else 0)"
    using i w' d by (auto simp: initialization_main_def stop_library_def case_prod_beta Let_def start_def exit_def ok_def init_zero(2))
  show "worker_count (snd (snd (initialization_main b env s t))) = 0" if start create
    using that i w' by (auto simp: initialization_main_def stop_library_def case_prod_beta Let_def start_def ok_def
        schedi_worker_deinit_def)
qed

section \<open>The jobs of the parallel program\<close>

text \<open>Each job is new, ready and has its own context and indicator; no other job changes.\<close>

lemma parallel_jobs_launched:
  "parallel_jobs b i (Suc n) (contexts, s) =
     (case schedi_job_create s i parallel_fn None of
        (None, _) \<Rightarrow> BadPointer
      | (Some job, s1) \<Rightarrow>
          (case parallel_jobs b (Suc i) n (contexts(i := int i), launched b s1 i job) of
             Returns (js, cs') \<Rightarrow> Returns (job # js, cs') | Spins \<Rightarrow> Spins | BadPointer \<Rightarrow> BadPointer))"
  by (auto simp: launched_def Let_def split: prod.split option.split)

definition launch_of :: "'a jobsys_scheme \<Rightarrow> nat \<Rightarrow> nat \<Rightarrow> bool" where
  "launch_of s j i \<longleftrightarrow> job_context (jobs s j) = i \<and> completion_indicator (jobs s j) = Some i \<and> \<not> completed s i
     \<and> run_fn (jobs s j) = parallel_fn \<and> SCHEDI_JOB_METAFLAG_GETACCESS (meta s j) = 0"

lemma parallel_jobs_ready:
  assumes "life_inv s []" "finite (free_slots s)" "n \<le> card (free_slots s)"
  shows "\<exists>js cs' s'. parallel_jobs b i n (cs, s) = Returns (js, cs', s') \<and> life_inv s' [] \<and> length js = n \<and> distinct js
    \<and> set js \<subseteq> free_slots s \<and> ready_bag s' = ready_bag s + mset js \<and> (\<forall>k \<in> {i..<i + n}. cs' k = int k)
    \<and> (\<forall>k. k \<notin> {i..<i + n} \<longrightarrow> cs' k = cs k \<and> completed s' k = completed s k)
    \<and> (\<forall>k < n. launch_of s' (js ! k) (i + k)) \<and> (\<forall>j. j \<notin> set js \<longrightarrow> jobs s' j = jobs s j)"
  using assms
proof (induction n arbitrary: i cs s)
  case (Suc n)
  have "free_slots s \<noteq> {}" using Suc.prems by auto
  from launch_fields[OF Suc.prems(1) this, of i parallel_fn None b i] obtain j s1 where
    l: "schedi_job_create s i parallel_fn None = (Some j, s1)" "j \<in> free_slots s"
    "life_inv (launched b s1 i j) []" "ready_bag (launched b s1 i j) = add_mset j (ready_bag s)"
    "jobs (launched b s1 i j) = (jobs s)(j := (new_job i parallel_fn None (jobs s j))\<lparr>completion_indicator := Some i,
       meta_flag := new_word OR SCHEDI_JOB_METAFLAG_READY, state := schedi_job_state_readywaiting\<rparr>)"
    "free_slots (launched b s1 i j) = free_slots s - {j}" "completed (launched b s1 i j) = (completed s)(i := False)"
    by metis
  let ?c = "cs(i := int i)" and ?s = "launched b s1 i j"
  have "finite (free_slots ?s)" "n \<le> card (free_slots ?s)"
    using Suc.prems l(2,6) by (simp_all add: card_Diff_singleton)
  from Suc.IH[OF l(3) this, of "Suc i" ?c] obtain js c' s' where
    h: "parallel_jobs b (Suc i) n (?c, ?s) = Returns (js, c', s')" "life_inv s' []" "length js = n" "distinct js"
      "set js \<subseteq> free_slots ?s" "ready_bag s' = ready_bag ?s + mset js" "\<And>k. k \<in> {Suc i..<Suc i + n} \<Longrightarrow> c' k = int k"
      "\<And>k. k \<notin> {Suc i..<Suc i + n} \<Longrightarrow> c' k = ?c k \<and> completed s' k = completed ?s k"
      "\<And>k. k < n \<Longrightarrow> launch_of s' (js ! k) (Suc i + k)" "\<And>k. k \<notin> set js \<Longrightarrow> jobs s' k = jobs ?s k" by blast
  have j: "j \<notin> set js" using h(5) l(6) by auto
  have "SCHEDI_JOB_METAFLAG_GETACCESS (new_word OR SCHEDI_JOB_METAFLAG_READY) = 0"
    by (simp add: new_word_def flag_defs field_defs)
  then have first: "launch_of s' j i"
    using h(10)[OF j] h(8)[of i] by (simp add: launch_of_def l(5,7) new_job_def)
  show ?case
  proof (intro exI conjI allI ballI impI)
    show "parallel_jobs b i (Suc n) (cs, s) = Returns (j # js, c', s')"
      by (simp add: parallel_jobs_launched l(1) h(1) del: parallel_jobs.simps(2))
    show "set (j # js) \<subseteq> free_slots s" using h(5) l(2,6) by auto
    show "ready_bag s' = ready_bag s + mset (j # js)" using h(6) l(4) by simp
    show "c' k = int k" if "k \<in> {i..<i + Suc n}" for k using h(7,8)[of k] that by (cases "k = i") auto
    show "c' k = cs k" "completed s' k = completed s k" if "k \<notin> {i..<i + Suc n}" for k
      using h(8)[of k] that l(7) by auto
    show "jobs s' k = jobs s k" if "k \<notin> set (j # js)" for k using h(10)[of k] that l(5) by simp
    show "launch_of s' ((j # js) ! k) (i + k)" if "k < Suc n" for k using that first h(9)[of "k - 1"] by (cases k) auto
  qed (use h(2,3,4) j in simp_all)
qed simp

text \<open>
  When the library starts, the program comes to its waits with its 32 jobs ready and no other
  job there, each with the number of its part and an indicator that is not yet set.
\<close>

lemma parallel_main_launches:
  assumes "jobsys.truncate s = static_jobsys"
    and "(lockless_readyjob b \<or> init_cond env = 0 \<and> init_mutex env = 0) \<and> init_sections env = 0"
    and "\<forall>i < 16. env_create env i = 0"
  shows "\<exists>js cs' s' t'. parallel_main b env cs s t = Returns (Inr (js, cs', s', t')) \<and> length js = PARALLEL_JOB_COUNT
    \<and> distinct js \<and> ready_bag s' = mset js \<and> (\<forall>k < PARALLEL_JOB_COUNT. cs' k = int k \<and> launch_of s' (js ! k) k)
    \<and> worker_count t' = worker_count t + 16"
proof -
  have tr: "jobsys.truncate (sections_init s) = sections_init static_jobsys"
    using arg_cong[OF assms(1), of sections_init] by (simp add: sections_init_def jobsys.truncate_def)
  note st = started_small[OF tr]
  have "life_inv (sections_init s) []" "finite (free_slots (sections_init s))"
    "PARALLEL_JOB_COUNT \<le> card (free_slots (sections_init s))"
    using st(1) by (simp_all add: small_def st(3) PARALLEL_JOB_COUNT_def SCHEDI_MAXIMUM_JOBS_def)
  from parallel_jobs_ready[OF this, of b 0 cs] obtain js cs' s' where
    p: "parallel_jobs b 0 PARALLEL_JOB_COUNT (cs, sections_init s) = Returns (js, cs', s')"
      "length js = PARALLEL_JOB_COUNT" "distinct js" "ready_bag s' = ready_bag (sections_init s) + mset js"
      "\<forall>k \<in> {0..<0 + PARALLEL_JOB_COUNT}. cs' k = int k" "\<forall>k < PARALLEL_JOB_COUNT. launch_of s' (js ! k) (0 + k)" by blast
  have i: "schedi_job_init b (init_cond env) (init_mutex env) (init_sections env) s = (0, sections_init s)"
    using init_zero(1)[of b "init_cond env" "init_mutex env" "init_sections env" s] assms(2)
    by (simp add: schedi_job_init_def)
  have w: "fst (schedi_worker_init (env_create env) parallel_THREAD_COUNT t) = 0"
    "worker_count (snd (schedi_worker_init (env_create env) parallel_THREAD_COUNT t)) = worker_count t + 16"
    using worker_init_counts_started[of 16 16 "env_create env" t] assms(3)
    by (simp_all add: parallel_THREAD_COUNT_def SCHEDI_MAX_WORKERS_def)
  show ?thesis
    by (intro exI[of _ js] exI[of _ cs'] exI[of _ s']
        exI[of _ "snd (schedi_worker_init (env_create env) parallel_THREAD_COUNT t)"] conjI)
      (use p i w st(2) in \<open>simp_all add: parallel_main_def case_prod_beta\<close>)
qed

section \<open>The jobs of the servers\<close>

lemma serve_client_launched:
  "serve_client b i s = (case schedi_job_create s i server_fn (Some server_dtor) of
     (None, _) \<Rightarrow> BadPointer | (Some job, s1) \<Rightarrow> Returns (job, launched b s1 i job))"
  by (auto simp: serve_client_def launched_def Let_def split: prod.split option.split)

text \<open>Each client gets a job of its own as long as a slot is free.\<close>

lemma serve_client_ready:
  assumes "life_inv s []" "free_slots s \<noteq> {}"
  shows "\<exists>j s'. serve_client b i s = Returns (j, s') \<and> j \<in> free_slots s \<and> life_inv s' []
    \<and> ready_bag s' = add_mset j (ready_bag s) \<and> completion_indicator (jobs s' j) = Some i
    \<and> job_context (jobs s' j) = i \<and> completed s' = (completed s)(i := False) \<and> (\<forall>k. k \<noteq> j \<longrightarrow> jobs s' k = jobs s k)"
proof -
  from launch_fields[OF assms, of i server_fn "Some server_dtor" b i] obtain j s1 where
    l: "schedi_job_create s i server_fn (Some server_dtor) = (Some j, s1)" "j \<in> free_slots s"
    "life_inv (launched b s1 i j) []" "ready_bag (launched b s1 i j) = add_mset j (ready_bag s)"
    "jobs (launched b s1 i j) = (jobs s)(j := (new_job i server_fn (Some server_dtor) (jobs s j))\<lparr>completion_indicator := Some i,
       meta_flag := new_word OR SCHEDI_JOB_METAFLAG_READY, state := schedi_job_state_readywaiting\<rparr>)"
    "completed (launched b s1 i j) = (completed s)(i := False)"
    by metis
  then show ?thesis by (auto simp: serve_client_launched new_job_def)
qed

lemma echo_accept_first: "echo_accept as = (if filter (\<lambda>a. 0 \<le> a) as = [] then None else Some (hd (filter (\<lambda>a. 0 \<le> a) as)))"
  by (induction as) (auto simp: accept_client_nonblock_def)

section \<open>Indicators of the printing server\<close>

lemma create_frame:
  "completed (snd (schedi_job_create s c r d)) = completed s"
  "completion_indicator (jobs (snd (schedi_job_create s c r d)) k) = completion_indicator (jobs s k)"
proof -
  obtain q s1 where e: "section_claim s = (q, s1)" by fastforce
  have "completed s1 = completed s" using section_claim_sys_frame(4)[of s] unfolding e by simp
  then show "completed (snd (schedi_job_create s c r d)) = completed s"
    by (simp add: schedi_job_create_def e split: option.split)
  have "completion_indicator (jobs (snd (section_claim s)) k) = completion_indicator (jobs s k)"
    by (simp add: section_claim_def split: option.split prod.split)
  then have "completion_indicator (jobs s1 k) = completion_indicator (jobs s k)" unfolding e by simp
  then show "completion_indicator (jobs (snd (schedi_job_create s c r d)) k) = completion_indicator (jobs s k)"
    by (simp add: schedi_job_create_def e split: option.split)
qed

text \<open>A call completes only an indicator that some job has.\<close>

lemma completed_marks:
  "completed (snd (schedi_job_mark_access s j)) = completed s" "completed (snd (schedi_job_unmark_access s j)) = completed s"
  "completed (snd (schedi_job_mark_executing s j)) = completed s"
  "completed (snd (schedi_job_unmark_executing s j)) = completed s"
  "completed (snd (schedi_job_unmark_readybasic s j)) = completed s"
  by (simp_all add: mark_defs schedi_job_mark_access_def schedi_job_unmark_access_def schedi_job_mark_or_def
      schedi_job_unmark_or_def)

lemma completed_return:
  assumes "schedi_job_epoll_request_return b s req err = Some (r, s')"
  shows "completed s' = completed s"
proof -
  from assms obtain bans s1 where l: "request_access_loop s (req_owner req) = Some (bans, s1)"
    by (auto simp: schedi_job_epoll_request_return_def split: option.splits)
  then have "completed s1 = completed s"
    using request_access_SomeD[OF l] request_access_ends[of s "req_owner req"] by auto
  with assms l show ?thesis
    by (auto simp: schedi_job_epoll_request_return_def completed_marks cas_update_frame Let_def split: if_splits)
qed

lemma completed_step:
  assumes "job_step b s s'" "life_inv s xs" "completed s' i"
  shows "completed s i \<or> (\<exists>j. completion_indicator (jobs s j) = Some i)"
proof -
  have same: "completed t = completed s \<Longrightarrow> s' = t \<Longrightarrow> ?thesis" for t using assms(3) by simp
  note inv = life_inv_sched[OF assms(2)]
  from assms(1) show ?thesis
  proof cases
    case (complete j)
    then show ?thesis using assms(3)
      by (auto simp: schedi_job_completion_indicate_def split: option.splits if_splits)
  next
    case pick
    then show ?thesis using pickready_spec[OF inv(1)] assms(3) by (metis pick_spec_def prod.collapse)
  next
    case tick
    then show ?thesis using tick_cached(3)[OF inv(2)] assms(3) by (simp add: same_rest_def)
  next
    case (request_return req err r)
    then show ?thesis using completed_return assms(3) by metis
  next
    case client
    then show ?thesis using client_write_fields(12) assms(3) by metis
  next
    case (create c r d)
    then show ?thesis using create_frame(1) assms(3) by metis
  qed (use assms(3) in \<open>simp_all add: setready_frame cas_update_frame completed_marks destroy_completed
      schedi_job_mark_readybasic_def schedi_job_mark_or_readiness_def case_prod_beta schedi_job_required_available_socket_def
      schedi_job_required_available_jobs_def schedi_job_add_available_job_def schedi_job_tool_job_def\<close>)
qed

text \<open>The job of a client carries its indicator, and the other jobs keep theirs.\<close>

lemma setready_indicator:
  "completion_indicator (jobs (snd (schedi_job_setready b s i)) j) = completion_indicator (jobs s j)"
  by (simp add: schedi_job_setready_def Let_def case_prod_beta mark_ready_eq schedi_job_unmark_ready_def unmark_or_snd)

lemma serve_client_effect:
  assumes "job_reach b s" "addr_ok (job_addr b)" "\<not> completed s i" "serve_client b i s = Returns (j, s')"
  shows "job_reach b s'" "completed s' = completed s"
    "completion_indicator (jobs s' k) = (if k = j then Some i else completion_indicator (jobs s k))"
proof -
  from assms(4) obtain s1 where c: "schedi_job_create s i server_fn (Some server_dtor) = (Some j, s1)"
    and s': "s' = launched b s1 i j"
    by (auto simp: serve_client_launched split: prod.splits option.splits)
  have s1: "s1 = snd (schedi_job_create s i server_fn (Some server_dtor))" by (simp add: c)
  have comp: "completed s1 = completed s" unfolding s1 by (rule create_frame(1))
  with assms(3) have init: "schedi_completion_indicator_init s1 i = s1"
    by (simp add: schedi_completion_indicator_init_def fun_upd_idem)
  define s2 where "s2 = upd_job j (\<lambda>x. x\<lparr>completion_indicator := Some i\<rparr>) s1"
  have s'2: "s' = snd (schedi_job_setready b s2 j)" by (simp add: s' launched_def init s2_def)
  have ok: "sections_ok s" using job_reach_life_inv[OF assms(1,2)] by (auto simp: life_inv_def)
  then have "claimed s1 j"
    using create_some(1,2)[OF ok c] free_set_bound by (auto simp: sections_ok_def)
  then have cl: "claimed s2 j" by (simp add: s2_def)
  have "job_reach b s1" unfolding s1 by (rule job_reach.step[OF assms(1) job_step.create])
  moreover have "client_write s1 s2"
    by (simp add: client_write_def s2_def upd_job_def jobsys.truncate_def)
  ultimately have "job_reach b s2" by (rule job_reach.step[OF _ job_step.client])
  then show "job_reach b s'" unfolding s'2 by (rule job_reach.step[OF _ job_step.setready[OF cl]])
  show "completed s' = completed s" by (simp add: s'2 setready_frame comp s2_def)
  show "completion_indicator (jobs s' k) = (if k = j then Some i else completion_indicator (jobs s k))"
    using create_frame(2)[of s i server_fn "Some server_dtor" k] by (simp add: s'2 setready_indicator s2_def c)
qed

text \<open>An indicator that no job has, now and until its client is accepted.\<close>

definition unsignalled :: "nat \<Rightarrow> 'a jobsys_scheme \<Rightarrow> bool" where
  "unsignalled i s \<longleftrightarrow> \<not> completed s i \<and> (\<forall>j. completion_indicator (jobs s j) \<noteq> Some i)"

lemma reader_main_unsignalled:
  assumes "reader_main b n refused ctxs s" "addr_ok (job_addr b)"
  shows "job_reach b s \<and> n \<le> ACCEPT_COUNT \<and> refused \<subseteq> {..<n} \<and> (\<forall>i. n \<le> i \<or> i \<in> refused \<longrightarrow> unsignalled i s)"
  using assms(1)
proof induction
  case (started s ctxs)
  from started have "completed (jobsys.truncate s) = completed (sections_init static_jobsys)"
    "jobs (jobsys.truncate s) = jobs (sections_init static_jobsys)" by simp_all
  then have "completed s = (\<lambda>_. False)" "jobs s = (\<lambda>_. null_job)"
    by (simp_all add: jobsys.truncate_def sections_init_def static_jobsys_def)
  then show ?case using job_reach.start[OF started] by (simp add: unsignalled_def null_job_def)
next
  case (refuses i refused ctxs s a ctxs' s')
  then have "s' = s" by (auto simp: reader_iteration_def Let_def split: if_splits outcome.splits)
  then show ?case using refuses by auto
next
  case (accepts i refused ctxs s a job ctxs' s')
  then have c: "serve_client b i s = Returns (job, s')"
    by (auto simp: reader_iteration_def Let_def split: if_splits outcome.splits)
  have u: "\<not> completed s i" using accepts.IH by (simp add: unsignalled_def)
  note e = serve_client_effect[OF _ assms(2) u c]
  have "unsignalled k s'" if "Suc i \<le> k \<or> k \<in> refused" for k
  proof -
    have "unsignalled k s" "k \<noteq> i" using accepts.IH that by auto
    then show ?thesis using e(2,3) accepts.IH by (auto simp: unsignalled_def)
  qed
  then show ?case using e(1) accepts.IH accepts.hyps(2) by auto
next
  case (others i refused ctxs s s' ctxs')
  obtain xs where inv: "life_inv s xs" using job_reach_life_inv[OF _ assms(2)] others.IH by blast
  have "unsignalled k s'" if "unsignalled k s" for k
    using completed_step[OF others.hyps(2) inv, of k] that others.hyps(3) by (auto simp: unsignalled_def)
  then show ?case using others.IH job_reach.step[OF _ others.hyps(2)] by auto
qed


definition example_ctxs :: "nat \<Rightarrow> sock_ctx" where
  "example_ctxs = (\<lambda>_. \<lparr>ctx_fd = 0, ctx_socket = None, ctx_exit = False\<rparr>)"


end
