(* ===== verification/Spec2Isabelle.thy ===== *)
theory Spec2Isabelle
  imports Linked_List Fast_Log Lifecycle Worker Epoll_Requests Socket_Streams Epoll_Thread
    Wake_Protocol Completion Dependency_Example Parallel_Example Socket_Examples
    Request_Example Program_Starts
begin

text \<open>
  A verification of schedi, a job scheduler in C (\<^verbatim>\<open>src/src\<close> and \<^verbatim>\<open>src/include/schedi\<close>).

  \<^bold>\<open>The program.\<close> Jobs live in a fixed array of slots. Each job has one packed atomic word,
  \<^verbatim>\<open>meta_flag\<close>, with its flags, three counts that decide whether it may run (available
  sockets, outstanding requests, available jobs) and the number of accesses held. An
  update that completes the readiness conditions calls \<^verbatim>\<open>schedi_job_setready\<close>, which puts
  the job into the ready cache and signals a worker. Workers take jobs from the cache,
  run them and destroy those that finish; jobs that cannot be destroyed at once wait in
  the destroy queue. A separate thread waits on two epoll instances, returns one-time
  requests to their jobs, and moves bytes between epoll sockets and the kernel; both
  change the counts of the job and may make it ready.

  \<^bold>\<open>Theories.\<close>
  \<^item> \<open>Schedi_Prelude\<close>: machine words, rings, and the compare-and-swap loop. Each loop of the
    sources is a body (\<open>cas_step\<close>) that returns or tries a new word; \<open>cas_loop\<close> runs it on a
    word that others may change between the load and the swap, \<open>cas_seq\<close> is its
    uninterrupted run, and \<open>cas_run\<close> interleaves any number of them.
  \<^item> \<open>Meta_Flag\<close>: the macros of \<^verbatim>\<open>jobs.h\<close> and the bodies of all loops on \<^verbatim>\<open>meta_flag\<close>. The results on
    interleavings are proved here: derived bits, access counts, exclusive flags.
  \<^item> \<open>Destroy_Queue\<close>: \<^verbatim>\<open>dq\<close> and its operations, as an instance of a locale of FIFO queues.
  \<^item> \<open>Job_Data\<close>, \<open>Slot_Sections\<close>, \<open>Ready_Cache\<close>, \<open>Job_Core\<close>: the records of \<^verbatim>\<open>jobs.h\<close>; claiming and
    releasing slots (an instance of a locale of slot allocators); the ready cache and its
    compaction (an instance of a locale of caches); every operation of \<^verbatim>\<open>jobs.c\<close> on jobs, as
    a function on the record \<open>jobsys\<close> with the names of the source.
  \<^item> \<open>Scheduler\<close>, \<open>Lifecycle\<close>: the invariant that links READY, the conditions and the cache,
    the steps of clients and workers (\<open>job_step\<close>), and the life of a job from creation to
    destruction.
  \<^item> \<open>Worker\<close>: one pass of \<^verbatim>\<open>worker_routine\<close> and the start and stop of workers (\<^verbatim>\<open>worker.c\<close>).
  \<^item> \<open>Wake_Protocol\<close>, \<open>Completion\<close>: threads that interleave at each call of a mutex or a
    condition variable: workers going to sleep, \<^verbatim>\<open>schedi_job_setready\<close> and the shutdown; and
    the completion indicator.
  \<^item> \<open>Byte_Ring\<close>, \<open>Epoll_Socket\<close>, \<open>Socket_Streams\<close>: the rings of a socket, the packed word of an
    epoll socket and all operations on it, and a socket's life as two byte streams.
  \<^item> \<open>Epoll\<close>, \<open>Epoll_Registry\<close>, \<open>Epoll_Memory\<close>, \<open>Epoll_Requests\<close>: the functions that register
    descriptors and the event handlers of \<^verbatim>\<open>epoll.c\<close>, on a heap of sockets and event data;
    the interest lists that the calls of the kernel amount to (locale \<open>epoll_kernel\<close>); memory
    safety; one-time requests.
  \<^item> \<open>Epoll_Thread\<close>: the epoll thread, its loop and its descriptors.
  \<^item> \<open>Linked_List\<close>, \<open>Fast_Log\<close>: the intrusive list and the log rings with the thread names.
  \<^item> \<open>Client_Passes\<close>: what a pass of a worker does for a client program, whose memory extends the
    record \<open>jobsys\<close>; \<open>Single_Job\<close>: the locale \<open>lone_job\<close>, by which the passes of the workers are the
    calls of a plain loop, and \<^verbatim>\<open>examples/ajob.c\<close>; \<open>Job_Dependencies\<close>, \<open>Dependency_Example\<close>: jobs
    that wait for jobs, and \<^verbatim>\<open>examples/avjobs.c\<close>; \<open>Request_Example\<close>: jobs that wait for one-time
    requests, and \<^verbatim>\<open>examples/onetimesocket.c\<close>; \<open>Socket_Examples\<close>: the job functions of
    \<^verbatim>\<open>examples/epollsocket_test.c\<close> and \<^verbatim>\<open>examples/epollsocket.c\<close> on the streams of a socket;
    \<open>Parallel_Example\<close>: \<^verbatim>\<open>examples/aparalleljob.c\<close> against \<^verbatim>\<open>examples/aparalleljob_mono.c\<close>;
    \<open>Program_Starts\<close>: the main functions of the parallel program, of both servers (the printing
    server interleaved with the steps of all other threads) and of \<^verbatim>\<open>examples/initialization.c\<close>.

  \<^bold>\<open>What is shown.\<close> No ready job is lost or run twice, and after each compaction tick a pop
  finds one if there is one; the packed words stay consistent in every interleaving; slots
  are handed out once; an idle job is destroyed exactly once; a worker pass preserves all
  of this. Workers do not sleep on a ready job and a shutdown ends. Registration and
  creation of sockets are all or nothing, sockets carry bytes in order, and without
  timeouts no event touches freed memory; requests come back and are bounded. A job that
  waits for jobs or for events resumes exactly when the last has come. The example
  programs are run on the library: ajob and avjobs complete after a known number of
  passes with the right result, the echo server sends back what it read, the printing
  server prints it in order, and the parallel program equals the single-thread one but for
  the elements between two parts. Some
  theorems state where the code does not do what its comments say: a busy job is torn
  down at once, a full destroy queue is stuck, a timed-out socket loses its order and can
  be freed under its job, a second request on a descriptor is forgotten, the epoll thread
  cannot be restarted, a wait for completion can end early, and the printing server waits for
  clients whose accept failed.

  \<^bold>\<open>Bounds and fuel.\<close> No operation uses fuel. The one loop that may not end, the retry for
  access in \<^verbatim>\<open>schedi_job_epoll_request_return\<close>, is a \<open>partial_function\<close> with \<open>None\<close> for a loop
  that spins; the other loops recurse on data or on a decreasing index. The loops of the
  epoll thread recurse on the list of the kernel's answers. The result on compaction
  ticks needs fewer than \<open>2 ^ 30\<close> cache operations between two ticks, since the counter is a
  32-bit word; the addresses of the job slots are an argument (\<open>job_addr\<close>), of which
  only is assumed that they are not negative (\<open>addr_ok\<close>). The lemmas on passes for client
  programs take at most 16 ready jobs (\<open>small\<close>), which a pop reaches without a compaction.

  \<^bold>\<open>Parameters.\<close> The kernel's answers to \<^verbatim>\<open>epoll_ctl\<close>, \<^verbatim>\<open>epoll_wait\<close>, \<^verbatim>\<open>poll\<close>, \<^verbatim>\<open>send\<close>, \<^verbatim>\<open>recv\<close>, the
  timer calls, \<^verbatim>\<open>malloc\<close> and the thread calls are arguments; \<open>epoll_kernel\<close> states the documented
  behaviour of \<^verbatim>\<open>epoll_ctl\<close> that the proofs use, and \<open>plain_kernel\<close> shows that it can hold. The
  functions of jobs are arguments of the worker. The record \<open>build\<close> holds the build options.

  \<^bold>\<open>Not modelled.\<close> Interleavings of operations on different words (the cache entries and the
  job count, two sockets and their job) are not split below one call, except where a theory
  says so; memory orders are taken as sequentially consistent. Printing, \<^verbatim>\<open>perror\<close> and the log
  calls inside other operations have no effect in the model. \<^verbatim>\<open>jobs/jobs_epoll_socket.h\<close> is
  included by no source. Of the example programs, the forked test client, the
  calls of the servers around their accept loops, and \<^verbatim>\<open>logprinter.h\<close> are left out: they are
  system calls, printing, and calls of the library that other programs make in the same way.
\<close>

end
